(* ===== verification/Prelude.thy ===== *)
theory Prelude
  imports Main "HOL-Library.Char_ord" "HOL-Library.List_Lexorder" "HOL-Library.Sublist"
begin

text \<open>
  The ground the component theories share.

  \<^item> The Go runtime as the program uses it: error values (\<open>goerr\<close>), run-time panics
    (\<open>gopanic\<close>), the outcome of a call (\<open>result\<close>), and stateful calls as functions
    that pass an explicit world (\<open>go\<close>, with \<open>go_bind\<close>, \<open>go_wrap\<close> and
    \<open>range_loop\<close> for sequencing, error wrapping and \<open>for ... range\<close> loops that
    return at the first error).
  \<^item> Go maps from strings to strings (\<open>gomap\<close>), with the nil map kept apart from the
    empty one: reading and deleting are total on a nil map, writing panics.
  \<^item> The parts of the \<open>strings\<close> package the code calls. A Go string is a list of bytes,
    a \<open>string\<close> here.
  \<^item> Hoare triples over \<open>go\<close>, used by the components that reason about a cluster other
    parties change between calls.
\<close>

named_theorems go_simps \<open>evaluation of sequenced calls\<close>
named_theorems map_simps \<open>reads after writes and deletes of a Go map\<close>
named_theorems key_simps \<open>the label and annotation keys are pairwise different\<close>
named_theorems sel_simps \<open>what the selectors of the program match\<close>

section \<open>Errors, panics and stateful calls\<close>

datatype goerr =
    StatusError string string
  | ErrWaitTimeout
  | ErrWatchClosed
  | ErrorString string
  | Errorf string "string list" "goerr list"

datatype gopanic =
    NilMapWrite
  | NilDeref
  | IndexOutOfRange
  | TypeAssertion
  | PanicWith goerr
  | PanicMsg string

datatype 'a result =
    OK 'a
  | Err goerr
  | Panic gopanic

type_synonym ('w, 'a) go = "'w \<Rightarrow> 'w \<times> 'a result"

definition go_return :: "'a \<Rightarrow> ('w, 'a) go" where
  "go_return a = (\<lambda>w. (w, OK a))"

definition go_bind :: "('w, 'a) go \<Rightarrow> ('a \<Rightarrow> ('w, 'b) go) \<Rightarrow> ('w, 'b) go" where
  "go_bind m k = (\<lambda>w. case m w of
      (w', OK a) \<Rightarrow> k a w'
    | (w', Err e) \<Rightarrow> (w', Err e)
    | (w', Panic p) \<Rightarrow> (w', Panic p))"

text \<open>\<open>if err != nil { return fmt.Errorf(...) }\<close> around a call.\<close>

definition go_wrap :: "(goerr \<Rightarrow> goerr) \<Rightarrow> ('w, 'a) go \<Rightarrow> ('w, 'a) go" where
  "go_wrap g m = (\<lambda>w. case m w of
      (w', OK a) \<Rightarrow> (w', OK a)
    | (w', Err e) \<Rightarrow> (w', Err (g e))
    | (w', Panic p) \<Rightarrow> (w', Panic p))"

text \<open>A call of an interface that answers with a value or an error and never panics.\<close>

definition go_call :: "('w \<Rightarrow> 'w \<times> (goerr + 'a)) \<Rightarrow> ('w, 'a) go" where
  "go_call m = (\<lambda>w. case m w of
      (w', Inl e) \<Rightarrow> (w', Err e)
    | (w', Inr a) \<Rightarrow> (w', OK a))"

text \<open>\<open>for _, x := range xs { if err := body(x); err != nil { return err } }\<close>.\<close>

fun range_loop :: "('a \<Rightarrow> ('w, unit) go) \<Rightarrow> 'a list \<Rightarrow> ('w, unit) go" where
  "range_loop body [] = go_return ()"
| "range_loop body (x # xs) = go_bind (body x) (\<lambda>_. range_loop body xs)"

definition is_OK :: "'a result \<Rightarrow> bool" where
  "is_OK r = (case r of OK _ \<Rightarrow> True | _ \<Rightarrow> False)"

section \<open>Go maps\<close>

type_synonym gomap = "(string \<rightharpoonup> string) option"

text \<open>\<open>m[k]\<close> in an expression: the zero value for a missing key and for a nil map.\<close>

definition gomap_get :: "gomap \<Rightarrow> string \<Rightarrow> string" where
  "gomap_get m k = (case m of None \<Rightarrow> '''' | Some f \<Rightarrow> (case f k of None \<Rightarrow> '''' | Some v \<Rightarrow> v))"

text \<open>The second result of \<open>_, ok := m[k]\<close>.\<close>

definition gomap_has :: "gomap \<Rightarrow> string \<Rightarrow> bool" where
  "gomap_has m k = (case m of None \<Rightarrow> False | Some f \<Rightarrow> f k \<noteq> None)"

text \<open>\<open>delete(m, k)\<close>: nothing happens on a nil map.\<close>

definition gomap_delete :: "string \<Rightarrow> gomap \<Rightarrow> gomap" where
  "gomap_delete k m = (case m of None \<Rightarrow> None | Some f \<Rightarrow> Some (f(k := None)))"

text \<open>\<open>m[k] = v\<close>: a nil map panics.\<close>

definition gomap_set :: "string \<Rightarrow> string \<Rightarrow> gomap \<Rightarrow> gopanic + gomap" where
  "gomap_set k v m = (case m of None \<Rightarrow> Inl NilMapWrite | Some f \<Rightarrow> Inr (Some (f(k \<mapsto> v))))"

text \<open>
  \<open>for k, v := range src { m[k] = v }\<close>. The source map is given by its entries, each key
  once; Go visits them in an unspecified order (\<open>gomap_set_all_order\<close> shows that the
  order does not matter). An empty source never touches \<open>m\<close>, so a nil \<open>m\<close> survives it.
\<close>

fun gomap_set_all :: "(string \<times> string) list \<Rightarrow> gomap \<Rightarrow> gopanic + gomap" where
  "gomap_set_all [] m = Inr m"
| "gomap_set_all ((k, v) # kvs) m =
     (case gomap_set k v m of Inl p \<Rightarrow> Inl p | Inr m' \<Rightarrow> gomap_set_all kvs m')"

definition gomap_delete_all :: "string list \<Rightarrow> gomap \<Rightarrow> gomap" where
  "gomap_delete_all ks m = fold gomap_delete ks m"

section \<open>Strings\<close>

definition HasPrefix :: "string \<Rightarrow> string \<Rightarrow> bool" where
  "HasPrefix s p \<longleftrightarrow> take (length p) s = p"

text \<open>\<open>strings.Split(s, sep)\<close> for a separator of one byte.\<close>

fun Split :: "char \<Rightarrow> string \<Rightarrow> string list" where
  "Split sep [] = [[]]"
| "Split sep (c # cs) =
     (if c = sep then [] # Split sep cs
      else (case Split sep cs of [] \<Rightarrow> [[c]] | t # ts \<Rightarrow> (c # t) # ts))"

text \<open>\<open>strings.SplitN(s, sep, n)\<close> for a separator of one byte and positive \<open>n\<close>.\<close>

fun SplitN :: "char \<Rightarrow> nat \<Rightarrow> string \<Rightarrow> string list" where
  "SplitN sep n [] = [[]]"
| "SplitN sep n (c # cs) =
     (if n \<le> 1 then [c # cs]
      else if c = sep then [] # SplitN sep (n - 1) cs
      else (case SplitN sep n cs of [] \<Rightarrow> [[c]] | t # ts \<Rightarrow> (c # t) # ts))"

text \<open>\<open>strings.Join(ss, sep)\<close>.\<close>

fun Join :: "string \<Rightarrow> string list \<Rightarrow> string" where
  "Join sep [] = []"
| "Join sep [s] = s"
| "Join sep (s # t # ss) = s @ sep @ Join sep (t # ss)"

section \<open>Hoare triples over stateful calls\<close>

text \<open>
  \<open>triple P m Q E\<close>: from a world with \<open>P\<close>, a successful \<open>m\<close> ends in \<open>Q\<close> with its
  value and every other end of \<open>m\<close> (an error or a panic) is in \<open>E\<close>.
\<close>

definition triple ::
  "('w \<Rightarrow> bool) \<Rightarrow> ('w, 'a) go \<Rightarrow> ('a \<Rightarrow> 'w \<Rightarrow> bool) \<Rightarrow> ('w \<Rightarrow> bool) \<Rightarrow> bool" where
  "triple P m Q E \<longleftrightarrow> (\<forall>w. P w \<longrightarrow> (case m w of
      (w', OK a) \<Rightarrow> Q a w'
    | (w', Err e) \<Rightarrow> E w'
    | (w', Panic p) \<Rightarrow> E w'))"

section \<open>Laws of the stateful calls\<close>

lemma go_return_eval [simp, go_simps]: "go_return a w = (w, OK a)"
  by (simp add: go_return_def)

lemma go_bind_OK [go_simps]: "m w = (w', OK a) \<Longrightarrow> go_bind m k w = k a w'"
  by (simp add: go_bind_def)

lemma go_bind_Err [go_simps]: "m w = (w', Err e) \<Longrightarrow> go_bind m k w = (w', Err e)"
  by (simp add: go_bind_def)

lemma go_bind_Panic [go_simps]: "m w = (w', Panic p) \<Longrightarrow> go_bind m k w = (w', Panic p)"
  by (simp add: go_bind_def)

lemma go_bind_return [simp]: "go_bind (go_return a) k = k a"
  by (simp add: go_bind_def fun_eq_iff)

lemma go_bind_return_raw [simp]: "go_bind (\<lambda>w. (w, OK a)) k = k a"
  by (simp add: go_bind_def fun_eq_iff)

lemma go_bind_right_return [simp]: "go_bind m go_return = m"
  by (rule ext) (simp add: go_bind_def split: prod.split result.split)

lemma go_bind_assoc:
  "go_bind (go_bind m k) h = go_bind m (\<lambda>a. go_bind (k a) h)"
  by (rule ext) (simp add: go_bind_def split: prod.split result.split)

lemma go_bind_OK_iff:
  "go_bind m k w = (w'', OK b) \<longleftrightarrow> (\<exists>w' a. m w = (w', OK a) \<and> k a w' = (w'', OK b))"
  by (auto simp: go_bind_def split: prod.splits result.splits)

lemma go_wrap_OK_iff [simp]: "go_wrap g m w = (w', OK a) \<longleftrightarrow> m w = (w', OK a)"
  by (auto simp: go_wrap_def split: prod.splits result.splits)

lemma go_wrap_wrap: "go_wrap g (go_wrap g' m) = go_wrap (\<lambda>e. g (g' e)) m"
  by (rule ext) (simp add: go_wrap_def split: prod.split result.split)

lemma go_call_OK_iff [simp]: "go_call m w = (w', OK a) \<longleftrightarrow> m w = (w', Inr a)"
  by (auto simp: go_call_def split: prod.splits sum.splits)

lemma go_call_Inl [go_simps]: "m w = (w', Inl e) \<Longrightarrow> go_call m w = (w', Err e)"
  by (simp add: go_call_def)

lemma go_call_Inr [go_simps]: "m w = (w', Inr a) \<Longrightarrow> go_call m w = (w', OK a)"
  by (simp add: go_call_def)

lemma range_loop_append:
  "range_loop body (xs @ ys) = go_bind (range_loop body xs) (\<lambda>_. range_loop body ys)"
  by (induction xs) (simp_all add: go_bind_assoc)

lemma is_OK_simps [simp]: "is_OK (OK a)" "\<not> is_OK (Err e)" "\<not> is_OK (Panic p)"
  by (simp_all add: is_OK_def)

lemma is_OK_unit: "is_OK (r :: unit result) \<longleftrightarrow> r = OK ()"
  by (cases r) simp_all

lemma go_wrap_id: "go_wrap id m = m"
  by (rule ext) (simp add: go_wrap_def split: prod.split result.split)

section \<open>Laws of Go maps\<close>

lemma gomap_get_simps [simp]:
  "gomap_get None k = ''''"
  "gomap_get (Some f) k = (case f k of None \<Rightarrow> '''' | Some v \<Rightarrow> v)"
  by (simp_all add: gomap_get_def)

lemma gomap_has_simps [simp]:
  "\<not> gomap_has None k"
  "gomap_has (Some f) k \<longleftrightarrow> f k \<noteq> None"
  by (simp_all add: gomap_has_def)

lemma gomap_get_missing: "\<not> gomap_has m k \<Longrightarrow> gomap_get m k = ''''"
  by (cases m) (auto split: option.split)

lemma gomap_get_delete [map_simps]:
  "gomap_get (gomap_delete k m) k' = (if k' = k then '''' else gomap_get m k')"
  by (cases m) (simp_all add: gomap_delete_def)

lemma gomap_has_delete [map_simps]:
  "gomap_has (gomap_delete k m) k' \<longleftrightarrow> k' \<noteq> k \<and> gomap_has m k'"
  by (cases m) (simp_all add: gomap_delete_def)

lemma gomap_delete_nil_iff [simp]: "gomap_delete k m = None \<longleftrightarrow> m = None"
  by (cases m) (simp_all add: gomap_delete_def)

lemma gomap_get_delete_all [map_simps]:
  "gomap_get (gomap_delete_all ks m) k = (if k \<in> set ks then '''' else gomap_get m k)"
  unfolding gomap_delete_all_def
  by (induction ks arbitrary: m) (auto simp: gomap_get_delete)

lemma gomap_has_delete_all [map_simps]:
  "gomap_has (gomap_delete_all ks m) k \<longleftrightarrow> k \<notin> set ks \<and> gomap_has m k"
  unfolding gomap_delete_all_def
  by (induction ks arbitrary: m) (auto simp: gomap_has_delete)

lemma gomap_delete_all_nil_iff [simp]: "gomap_delete_all ks m = None \<longleftrightarrow> m = None"
  unfolding gomap_delete_all_def by (induction ks arbitrary: m) simp_all

lemma gomap_set_simps [simp]:
  "gomap_set k v None = Inl NilMapWrite"
  "gomap_set k v (Some f) = Inr (Some (f(k \<mapsto> v)))"
  by (simp_all add: gomap_set_def)

lemma gomap_get_set [map_simps]:
  "gomap_set k v m = Inr m' \<Longrightarrow> gomap_get m' k' = (if k' = k then v else gomap_get m k')"
  by (cases m) auto

lemma gomap_has_set [map_simps]:
  "gomap_set k v m = Inr m' \<Longrightarrow> gomap_has m' k' \<longleftrightarrow> k' = k \<or> gomap_has m k'"
  by (cases m) (auto split: if_splits)

lemma gomap_set_Inl_iff: "gomap_set k v m = Inl p \<longleftrightarrow> m = None \<and> p = NilMapWrite"
  by (cases m) auto

lemma gomap_set_all_Some [simp]:
  "gomap_set_all kvs (Some f) = Inr (Some (f ++ map_of (rev kvs)))"
proof (induction kvs arbitrary: f)
  case (Cons kv kvs)
  then show ?case by (cases kv) (simp add: map_add_def fun_eq_iff map_of_append split: option.split)
qed simp

lemma gomap_set_all_nil:
  "gomap_set_all kvs None = (if kvs = [] then Inr None else Inl NilMapWrite)"
  by (cases kvs) auto

lemma gomap_set_all_Inl_iff:
  "gomap_set_all kvs m = Inl p \<longleftrightarrow> m = None \<and> kvs \<noteq> [] \<and> p = NilMapWrite"
  by (cases m) (auto simp: gomap_set_all_nil)

text \<open>The order in which \<open>range\<close> visits the entries of a map does not matter.\<close>

lemma gomap_set_all_order:
  assumes "distinct (map fst kvs)" and "set kvs' = set kvs" and "distinct (map fst kvs')"
  shows "gomap_set_all kvs' m = gomap_set_all kvs m"
proof (cases m)
  case None
  with assms(2) show ?thesis by (auto simp: gomap_set_all_nil)
next
  case (Some f)
  have "map_of (rev kvs') = map_of (rev kvs)"
    by (rule map_of_eqI) (use assms in \<open>auto simp: rev_map [symmetric] intro: map_of_eq_dom\<close>)
  with Some show ?thesis by simp
qed

lemma gomap_get_set_all [map_simps]:
  assumes "gomap_set_all kvs m = Inr m'" and "distinct (map fst kvs)"
  shows "gomap_get m' k = (case map_of kvs k of Some v \<Rightarrow> v | None \<Rightarrow> gomap_get m k)"
proof (cases m)
  case None
  with assms show ?thesis by (auto simp: gomap_set_all_nil split: if_splits)
next
  case (Some f)
  have "map_of (rev kvs) = map_of kvs"
    by (rule map_of_eqI) (use assms(2) in \<open>auto simp: rev_map [symmetric] intro: map_of_eq_dom\<close>)
  with assms Some show ?thesis by (auto simp: map_add_def split: option.splits)
qed

lemma gomap_has_set_all [map_simps]:
  assumes "gomap_set_all kvs m = Inr m'"
  shows "gomap_has m' k \<longleftrightarrow> k \<in> fst ` set kvs \<or> gomap_has m k"
proof (cases m)
  case None
  with assms show ?thesis by (auto simp: gomap_set_all_nil split: if_splits)
next
  case (Some f)
  with assms show ?thesis
    by (auto simp: map_add_def map_of_eq_None_iff split: option.splits)
       (force dest: map_of_SomeD)+
qed

section \<open>Laws of splitting and joining\<close>

lemma Split_nonempty [simp]: "Split sep s \<noteq> []"
  by (cases s) (auto split: list.split)

lemma SplitN_pair: "sep \<notin> set k \<Longrightarrow> SplitN sep 2 (k @ sep # v) = [k, v]"
proof (induction k)
  case Nil
  then show ?case by (cases v) auto
qed auto

lemma SplitN_three:
  assumes "sep \<notin> set a" "sep \<notin> set b"
  shows "SplitN sep 3 (a @ sep # b @ sep # rest) = [a, b, rest]"
proof -
  have last: "SplitN sep (Suc 0) r = [r]" for r
    by (cases r) auto
  have two: "SplitN sep 2 (b @ sep # rest) = [b, rest]"
    using assms(2) by (induction b) (auto simp: last numeral_2_eq_2)
  show ?thesis
    using assms(1) by (induction a) (auto simp: two)
qed

lemma Join_Split: "Join [sep] (Split sep s) = s"
proof (induction s)
  case (Cons c s)
  then show ?case by (cases "Split sep s"; cases "tl (Split sep s)") auto
qed simp

lemma Join_SplitN: "Join [sep] (SplitN sep n s) = s"
proof (induction sep n s rule: SplitN.induct)
  case (2 sep n c cs)
  then show ?case
    by (cases "SplitN sep (n - 1) cs"; cases "SplitN sep n cs"; cases "tl (SplitN sep n cs)") auto
qed simp

lemma Split_plain: "sep \<notin> set x \<Longrightarrow> Split sep x = [x]"
  by (induction x) auto

lemma Split_Cons_plain: "sep \<notin> set x \<Longrightarrow> Split sep (x @ sep # rest) = x # Split sep rest"
  by (induction x) auto

lemma Split_Join: "xs \<noteq> [] \<Longrightarrow> list_all (\<lambda>x. sep \<notin> set x) xs \<Longrightarrow> Split sep (Join [sep] xs) = xs"
  by (induction "[sep]" xs rule: Join.induct) (auto simp: Split_plain Split_Cons_plain)

lemma Join_set: "set (Join sep xs) \<subseteq> set sep \<union> \<Union> (set (map set xs))"
  by (induction sep xs rule: Join.induct) auto

section \<open>Rules for the triples\<close>

lemma tripleI:
  assumes "\<And>w w' a. P w \<Longrightarrow> m w = (w', OK a) \<Longrightarrow> Q a w'"
    and "\<And>w w' e. P w \<Longrightarrow> m w = (w', Err e) \<Longrightarrow> E w'"
    and "\<And>w w' p. P w \<Longrightarrow> m w = (w', Panic p) \<Longrightarrow> E w'"
  shows "triple P m Q E"
  using assms by (auto simp: triple_def split: prod.split result.split)

lemma triple_OK: "triple P m Q E \<Longrightarrow> P w \<Longrightarrow> m w = (w', OK a) \<Longrightarrow> Q a w'"
  by (force simp: triple_def)

lemma triple_end:
  assumes "triple P m Q E" and "P w" and "m w = (w', r)" and "\<And>a. Q a w' \<Longrightarrow> E w'"
  shows "E w'"
  using assms by (cases r) (force simp: triple_def)+

lemma triple_conseq:
  assumes "triple P m Q E" and "\<And>w. P' w \<Longrightarrow> P w"
    and "\<And>a w. Q a w \<Longrightarrow> Q' a w" and "\<And>w. E w \<Longrightarrow> E' w"
  shows "triple P' m Q' E'"
  using assms by (fastforce simp: triple_def split: prod.splits result.splits)

lemma triple_return [intro]: "(\<And>w. P w \<Longrightarrow> Q a w) \<Longrightarrow> triple P (go_return a) Q E"
  by (simp add: triple_def)

lemma triple_moved:
  assumes "triple P m Q E" and "\<And>w. P' w \<Longrightarrow> P (f w)"
  shows "triple P' (\<lambda>w. m (f w)) Q E"
  using assms by (simp add: triple_def)

lemma triple_bind:
  assumes "triple P m R E" and "\<And>a. triple (R a) (k a) Q E"
  shows "triple P (go_bind m k) Q E"
  using assms by (fastforce simp: triple_def go_bind_def split: prod.splits result.splits)

lemma triple_wrap: "triple P m Q E \<Longrightarrow> triple P (go_wrap g m) Q E"
  by (fastforce simp: triple_def go_wrap_def split: prod.splits result.splits)

lemma triple_if:
  "(b \<Longrightarrow> triple P m Q E) \<Longrightarrow> (\<not> b \<Longrightarrow> triple P m' Q E) \<Longrightarrow> triple P (if b then m else m') Q E"
  by simp

text \<open>
  The loop rule. The invariant \<open>I\<close> speaks of the elements already visited, so a loop can
  establish a fact about each of them.
\<close>

lemma triple_range_loop:
  assumes "\<And>ys x zs. xs = ys @ x # zs \<Longrightarrow> triple (I ys) (body x) (\<lambda>_. I (ys @ [x])) E"
  shows "triple (I []) (range_loop body xs) (\<lambda>_. I xs) E"
proof -
  have "triple (I ys) (range_loop body zs) (\<lambda>_. I xs) E" if "xs = ys @ zs" for ys zs
    using that
  proof (induction zs arbitrary: ys)
    case (Cons z zs)
    have "triple (I (ys @ [z])) (range_loop body zs) (\<lambda>_. I xs) E"
      using Cons.IH [of "ys @ [z]"] Cons.prems by simp
    then show ?case
      using assms [OF Cons.prems] by (auto intro: triple_bind)
  qed auto
  from this [of "[]" xs] show ?thesis by simp
qed

text \<open>A precondition that leaves something to choose.\<close>

lemma triple_choose:
  assumes "\<And>w. P' w \<Longrightarrow> \<exists>h. P h w \<and> b h" and "\<And>h. b h \<Longrightarrow> triple (P h) m Q E"
  shows "triple P' m Q E"
  unfolding triple_def
proof (intro allI impI)
  fix w
  assume "P' w"
  with assms(1) obtain h where "P h w" "b h" by blast
  with assms(2) [of h] show "case m w of (w', OK a) \<Rightarrow> Q a w' | (w', Err e) \<Rightarrow> E w' | (w', Panic p) \<Rightarrow> E w'"
    by (simp add: triple_def)
qed

end
