(* ===== verification/Constants.thy ===== *)
theory Constants
  imports Prelude
begin

text \<open>
  The label and annotation keys and values of \<open>src/pkg/constants/constants.go\<close>, which the
  update-operator and the update-agent share, and the fact every other theory rests on: the
  keys are pairwise different, except that the label \<open>LabelRebootNeeded\<close> has the name of the
  annotation \<open>AnnotationRebootNeeded\<close>.
\<close>

definition constTrue :: string where
  "constTrue = ''true''"

definition constFalse :: string where
  "constFalse = ''false''"

definition Prefix :: string where
  "Prefix = ''container-linux-update.v1.coreos.com/''"

definition LabelRebootNeeded :: string where
  "LabelRebootNeeded = Prefix @ ''reboot-needed''"

definition AnnotationRebootNeeded :: string where
  "AnnotationRebootNeeded = Prefix @ ''reboot-needed''"

definition AnnotationRebootInProgress :: string where
  "AnnotationRebootInProgress = Prefix @ ''reboot-in-progress''"

definition AnnotationOkToReboot :: string where
  "AnnotationOkToReboot = Prefix @ ''reboot-ok''"

definition AnnotationRebootPaused :: string where
  "AnnotationRebootPaused = Prefix @ ''reboot-paused''"

definition AnnotationStatus :: string where
  "AnnotationStatus = Prefix @ ''status''"

definition AnnotationLastCheckedTime :: string where
  "AnnotationLastCheckedTime = Prefix @ ''last-checked-time''"

definition AnnotationNewVersion :: string where
  "AnnotationNewVersion = Prefix @ ''new-version''"

definition AnnotationAgentMadeUnschedulable :: string where
  "AnnotationAgentMadeUnschedulable = Prefix @ ''agent-made-unschedulable''"

definition LabelBeforeReboot :: string where
  "LabelBeforeReboot = Prefix @ ''before-reboot''"

definition LabelAfterReboot :: string where
  "LabelAfterReboot = Prefix @ ''after-reboot''"

definition LabelID :: string where
  "LabelID = Prefix @ ''id''"

definition LabelGroup :: string where
  "LabelGroup = Prefix @ ''group''"

definition LabelVersion :: string where
  "LabelVersion = Prefix @ ''version''"

definition LabelUpdateAgentEnabled :: string where
  "LabelUpdateAgentEnabled = Prefix @ ''agent''"

definition AgentVersion :: string where
  "AgentVersion = Prefix @ ''agent-version''"

definition all_keys :: "string list" where
  "all_keys = [AnnotationRebootNeeded, AnnotationRebootInProgress, AnnotationOkToReboot,
     AnnotationRebootPaused, AnnotationStatus, AnnotationLastCheckedTime,
     AnnotationNewVersion, AnnotationAgentMadeUnschedulable, LabelBeforeReboot,
     LabelAfterReboot, LabelID, LabelGroup,
     LabelVersion, LabelUpdateAgentEnabled, AgentVersion]"

lemmas key_defs =
  LabelRebootNeeded_def
  AnnotationRebootNeeded_def AnnotationRebootInProgress_def AnnotationOkToReboot_def
  AnnotationRebootPaused_def AnnotationStatus_def AnnotationLastCheckedTime_def
  AnnotationNewVersion_def AnnotationAgentMadeUnschedulable_def LabelBeforeReboot_def
  LabelAfterReboot_def LabelID_def LabelGroup_def
  LabelVersion_def LabelUpdateAgentEnabled_def AgentVersion_def

lemma keys_distinct: "distinct all_keys"
  by (simp add: all_keys_def key_defs)

lemma keys_distinct_rev: "distinct (rev all_keys)"
  by (simp add: keys_distinct)

lemmas key_neqs [key_simps] =
  keys_distinct [unfolded all_keys_def, simplified]
  keys_distinct_rev [unfolded all_keys_def rev.simps append.simps, simplified]

lemma LabelRebootNeeded_eq [key_simps]: "LabelRebootNeeded = AnnotationRebootNeeded"
  by (simp add: key_defs)

lemma const_values [simp]:
  "constTrue \<noteq> constFalse" "constFalse \<noteq> constTrue"
  "constTrue \<noteq> []" "constFalse \<noteq> []" "[] \<noteq> constTrue" "[] \<noteq> constFalse"
  by (simp_all add: constTrue_def constFalse_def)

end
