(* ===== verification/Field_Selectors.thy ===== *)
theory Field_Selectors
  imports Constants
begin

text \<open>
  Field selectors, \<open>src/vendor/k8s.io/apimachinery/pkg/fields/selector.go\<close> and
  \<open>fields.go\<close>: the three kinds of selector, matching, the construction from a set of
  key/value pairs, and the parser (splitting at unescaped commas, the operator search, the
  unescaping of values). The operator builds \<open>wantsRebootSelector\<close> with the parser and every
  other selector with \<open>AsSelector\<close>; both select on node annotations.

  The Go code walks over runes where this theory walks over bytes. The two agree because
  every character the code tests for is ASCII, and no byte of a longer UTF-8 sequence is.
\<close>

section \<open>Selectors\<close>

datatype Selector =
    hasTerm string string
  | notHasTerm string string
  | andTerm "Selector list"

definition Everything :: Selector where
  "Everything = andTerm []"

fun Matches :: "Selector \<Rightarrow> gomap \<Rightarrow> bool" where
  "Matches (hasTerm f v) ls \<longleftrightarrow> gomap_get ls f = v"
| "Matches (notHasTerm f v) ls \<longleftrightarrow> gomap_get ls f \<noteq> v"
| "Matches (andTerm qs) ls \<longleftrightarrow> list_all (\<lambda>q. Matches q ls) qs"

fun selector_Empty :: "Selector \<Rightarrow> bool" where
  "selector_Empty (hasTerm f v) = False"
| "selector_Empty (notHasTerm f v) = False"
| "selector_Empty (andTerm qs) = list_all selector_Empty qs"

fun RequiresExactMatch :: "Selector \<Rightarrow> string \<Rightarrow> string \<times> bool"
  and RequiresExactMatch_and :: "Selector list \<Rightarrow> string \<Rightarrow> string \<times> bool" where
  "RequiresExactMatch (hasTerm f v) field = (if f = field then (v, True) else ([], False))"
| "RequiresExactMatch (notHasTerm f v) field = ([], False)"
| "RequiresExactMatch (andTerm qs) field = RequiresExactMatch_and qs field"
| "RequiresExactMatch_and [] field = ([], False)"
| "RequiresExactMatch_and (q # qs) field =
     (let (value, found) = RequiresExactMatch q field
      in if found then (value, found) else RequiresExactMatch_and qs field)"

text \<open>
  \<open>SelectorFromSet\<close>; \<open>Set.AsSelector\<close> is the same function. The set is given by its
  entries, \<open>None\<close> for a nil set.
\<close>

definition SelectorFromSet :: "(string \<times> string) list option \<Rightarrow> Selector" where
  "SelectorFromSet ls = (case ls of
      None \<Rightarrow> Everything
    | Some kvs \<Rightarrow>
        (let items = map (\<lambda>(field, value). hasTerm field value) kvs
         in case items of [i] \<Rightarrow> i | _ \<Rightarrow> andTerm items))"

definition OneTermEqualSelector :: "string \<Rightarrow> string \<Rightarrow> Selector" where
  "OneTermEqualSelector k v = hasTerm k v"

section \<open>Escaping\<close>

abbreviation backslash :: char where
  "backslash \<equiv> CHR 0x5C"

definition EscapeValue :: "string \<Rightarrow> string" where
  "EscapeValue s = concat (map (\<lambda>c.
     if c = backslash then [backslash, backslash]
     else if c = CHR '','' then [backslash, CHR '','']
     else if c = CHR ''='' then [backslash, CHR ''='']
     else [c]) s)"

definition InvalidEscapeSequence :: "string \<Rightarrow> goerr" where
  "InvalidEscapeSequence sq =
     Errorf ''invalid field selector: invalid escape sequence: %s'' [sq] []"

definition UnescapedRune :: "char \<Rightarrow> goerr" where
  "UnescapedRune c =
     Errorf ''invalid field selector: unescaped character in value: %v'' [[c]] []"

text \<open>The loop of \<open>UnescapeValue\<close>, with \<open>inSlash\<close> and the buffer \<open>v\<close>.\<close>

fun UnescapeValue_loop :: "bool \<Rightarrow> string \<Rightarrow> string \<Rightarrow> goerr + string" where
  "UnescapeValue_loop inSlash v [] =
     (if inSlash then Inl (InvalidEscapeSequence [backslash]) else Inr v)"
| "UnescapeValue_loop inSlash v (c # cs) =
     (if inSlash then
        (if c = backslash \<or> c = CHR '','' \<or> c = CHR ''=''
         then UnescapeValue_loop False (v @ [c]) cs
         else Inl (InvalidEscapeSequence [backslash, c]))
      else if c = backslash then UnescapeValue_loop True v cs
      else if c = CHR '','' \<or> c = CHR ''='' then Inl (UnescapedRune c)
      else UnescapeValue_loop False (v @ [c]) cs)"

definition UnescapeValue :: "string \<Rightarrow> goerr + string" where
  "UnescapeValue s =
     (if \<not> list_ex (\<lambda>c. c = backslash \<or> c = CHR '','' \<or> c = CHR ''='') s then Inr s
      else UnescapeValue_loop False [] s)"

fun selector_String :: "Selector \<Rightarrow> string" where
  "selector_String (hasTerm f v) = f @ ''='' @ EscapeValue v"
| "selector_String (notHasTerm f v) = f @ ''!='' @ EscapeValue v"
| "selector_String (andTerm qs) = Join '','' (map selector_String qs)"

section \<open>Parsing\<close>

type_synonym TransformFunc = "string \<Rightarrow> string \<Rightarrow> goerr + (string \<times> string)"

text \<open>\<open>Transform\<close> drops a requirement whose field and value both become empty.\<close>

fun Transform :: "Selector \<Rightarrow> TransformFunc \<Rightarrow> goerr + Selector"
  and Transform_and :: "Selector list \<Rightarrow> TransformFunc \<Rightarrow> goerr + Selector list" where
  "Transform (hasTerm f v) fn = (case fn f v of
      Inl e \<Rightarrow> Inl e
    | Inr (f', v') \<Rightarrow> if f' = [] \<and> v' = [] then Inr Everything else Inr (hasTerm f' v'))"
| "Transform (notHasTerm f v) fn = (case fn f v of
      Inl e \<Rightarrow> Inl e
    | Inr (f', v') \<Rightarrow> if f' = [] \<and> v' = [] then Inr Everything else Inr (notHasTerm f' v'))"
| "Transform (andTerm qs) fn = (case Transform_and qs fn of
      Inl e \<Rightarrow> Inl e
    | Inr ns \<Rightarrow> Inr (andTerm ns))"
| "Transform_and [] fn = Inr []"
| "Transform_and (s # ss) fn = (case Transform s fn of
      Inl e \<Rightarrow> Inl e
    | Inr n \<Rightarrow> (case Transform_and ss fn of
          Inl e \<Rightarrow> Inl e
        | Inr ns \<Rightarrow> Inr (if selector_Empty n then ns else n # ns)))"

text \<open>
  The loop of \<open>splitTerms\<close>; \<open>cur\<close> is \<open>fieldSelector[startIndex:i]\<close>.
\<close>

fun splitTerms_loop :: "bool \<Rightarrow> string \<Rightarrow> string \<Rightarrow> string list" where
  "splitTerms_loop inSlash cur [] = [cur]"
| "splitTerms_loop inSlash cur (c # cs) =
     (if inSlash then splitTerms_loop False (cur @ [c]) cs
      else if c = backslash then splitTerms_loop True (cur @ [c]) cs
      else if c = CHR '','' then cur # splitTerms_loop False [] cs
      else splitTerms_loop False (cur @ [c]) cs)"

definition splitTerms :: "string \<Rightarrow> string list" where
  "splitTerms fieldSelector =
     (if fieldSelector = [] then [] else splitTerms_loop False [] fieldSelector)"

definition notEqualOperator :: string where
  "notEqualOperator = ''!=''"

definition doubleEqualOperator :: string where
  "doubleEqualOperator = ''==''"

definition equalOperator :: string where
  "equalOperator = ''=''"

definition termOperators :: "string list" where
  "termOperators = [notEqualOperator, doubleEqualOperator, equalOperator]"

text \<open>The loop of \<open>splitTerm\<close>; \<open>lhs\<close> is \<open>term[0:i]\<close> and the string \<open>term[i:]\<close>.\<close>

fun splitTerm_loop :: "string \<Rightarrow> string \<Rightarrow> (string \<times> string \<times> string) option" where
  "splitTerm_loop lhs [] = None"
| "splitTerm_loop lhs (c # cs) =
     (case find (\<lambda>op. HasPrefix (c # cs) op) termOperators of
        Some op \<Rightarrow> Some (lhs, op, drop (length op) (c # cs))
      | None \<Rightarrow> splitTerm_loop (lhs @ [c]) cs)"

definition splitTerm :: "string \<Rightarrow> (string \<times> string \<times> string) option" where
  "splitTerm trm = splitTerm_loop [] trm"

definition invalid_selector :: "string \<Rightarrow> string \<Rightarrow> goerr" where
  "invalid_selector selector part =
     Errorf (''invalid selector: '%s'; can't understand '%s'' @ [CHR 0x27]) [selector, part] []"

fun parseSelector_items :: "string \<Rightarrow> string list \<Rightarrow> goerr + Selector list" where
  "parseSelector_items selector [] = Inr []"
| "parseSelector_items selector (part # parts) =
     (if part = [] then parseSelector_items selector parts
      else (case splitTerm part of
          None \<Rightarrow> Inl (invalid_selector selector part)
        | Some (lhs, op, rhs) \<Rightarrow> (case UnescapeValue rhs of
              Inl e \<Rightarrow> Inl e
            | Inr unescapedRHS \<Rightarrow>
                (if op = notEqualOperator then
                   map_sum id ((#) (notHasTerm lhs unescapedRHS))
                     (parseSelector_items selector parts)
                 else if op = doubleEqualOperator \<or> op = equalOperator then
                   map_sum id ((#) (hasTerm lhs unescapedRHS))
                     (parseSelector_items selector parts)
                 else Inl (invalid_selector selector part)))))"

definition parseSelector :: "string \<Rightarrow> TransformFunc \<Rightarrow> goerr + Selector" where
  "parseSelector selector fn =
     (case parseSelector_items selector (sort (splitTerms selector)) of
        Inl e \<Rightarrow> Inl e
      | Inr items \<Rightarrow> (case items of
            [i] \<Rightarrow> Transform i fn
          | _ \<Rightarrow> Transform (andTerm items) fn))"

definition ParseSelector :: "string \<Rightarrow> goerr + Selector" where
  "ParseSelector selector = parseSelector selector (\<lambda>lhs rhs. Inr (lhs, rhs))"

definition ParseSelectorOrDie :: "string \<Rightarrow> Selector result" where
  "ParseSelectorOrDie s = (case ParseSelector s of
      Inl err \<Rightarrow> Panic (PanicWith err)
    | Inr selector \<Rightarrow> OK selector)"

section \<open>Printing and parsing are inverse\<close>

text \<open>
  A requirement the parser can read back: its field is not empty and holds none of the
  characters of the selector syntax. The value is arbitrary.
\<close>

definition ok_field :: "string \<Rightarrow> bool" where
  "ok_field f \<longleftrightarrow> f \<noteq> [] \<and> list_all (\<lambda>c. c \<notin> {backslash, CHR '','', CHR ''='', CHR ''!''}) f"

fun plain_term :: "Selector \<Rightarrow> bool" where
  "plain_term (hasTerm f v) = ok_field f"
| "plain_term (notHasTerm f v) = ok_field f"
| "plain_term (andTerm qs) = False"

lemma EscapeValue_Nil [simp]: "EscapeValue [] = []"
  by (simp add: EscapeValue_def)

lemma EscapeValue_Cons:
  "EscapeValue (c # cs) =
     (if c = backslash \<or> c = CHR '','' \<or> c = CHR ''='' then [backslash, c] else [c]) @ EscapeValue cs"
  by (auto simp: EscapeValue_def)

lemma EscapeValue_no_special:
  "\<not> list_ex (\<lambda>c. c = backslash \<or> c = CHR '','' \<or> c = CHR ''='') (EscapeValue s) \<Longrightarrow> EscapeValue s = s"
  by (induction s) (auto simp: EscapeValue_Cons split: if_splits)

lemma UnescapeValue_loop_EscapeValue:
  "UnescapeValue_loop False v (EscapeValue s) = Inr (v @ s)"
  by (induction s arbitrary: v) (auto simp: EscapeValue_Cons)

lemma UnescapeValue_EscapeValue [simp]: "UnescapeValue (EscapeValue s) = Inr s"
  using EscapeValue_no_special [of s] UnescapeValue_loop_EscapeValue [of "[]" s]
  by (auto simp: UnescapeValue_def)

lemma splitTerms_loop_EscapeValue:
  "splitTerms_loop False cur (EscapeValue v @ rest) = splitTerms_loop False (cur @ EscapeValue v) rest"
  by (induction v arbitrary: cur) (auto simp: EscapeValue_Cons)

lemma splitTerms_loop_plain:
  "list_all (\<lambda>c. c \<noteq> backslash \<and> c \<noteq> CHR '','') f \<Longrightarrow>
   splitTerms_loop False cur (f @ rest) = splitTerms_loop False (cur @ f) rest"
  by (induction f arbitrary: cur) auto

lemma ok_field_split:
  "ok_field f \<Longrightarrow> list_all (\<lambda>c. c \<noteq> backslash \<and> c \<noteq> CHR '','') f"
  by (auto simp: ok_field_def list_all_iff)

lemma splitTerms_loop_term:
  "plain_term q \<Longrightarrow>
   splitTerms_loop False cur (selector_String q @ rest) =
   splitTerms_loop False (cur @ selector_String q) rest"
  by (cases q) (simp_all add: ok_field_split splitTerms_loop_plain splitTerms_loop_EscapeValue)

lemma splitTerms_loop_Join:
  "list_all plain_term (q # qs) \<Longrightarrow>
   splitTerms_loop False cur (Join '','' (map selector_String (q # qs))) =
   (cur @ selector_String q) # map selector_String qs"
proof (induction qs arbitrary: q cur)
  case Nil
  then show ?case
    using splitTerms_loop_term [of q cur "[]"] by simp
next
  case (Cons r qs)
  then show ?case by (simp add: splitTerms_loop_term)
qed

lemma selector_String_nonempty [simp]: "plain_term q \<Longrightarrow> selector_String q \<noteq> []"
  by (cases q) simp_all

lemma splitTerms_String:
  assumes "list_all plain_term qs"
  shows "splitTerms (selector_String (andTerm qs)) = map selector_String qs"
proof (cases qs)
  case (Cons r rs)
  with assms have "Join '','' (map selector_String (r # rs)) \<noteq> []"
    by (cases rs) simp_all
  with assms Cons splitTerms_loop_Join [of r rs "[]"] show ?thesis
    by (simp add: splitTerms_def)
qed (simp add: splitTerms_def)

lemma hd_EscapeValue: "HasPrefix (EscapeValue v) ''='' = False"
  by (cases v) (simp_all add: EscapeValue_Cons HasPrefix_def)

lemmas operator_defs =
  termOperators_def notEqualOperator_def doubleEqualOperator_def equalOperator_def

lemma splitTerm_loop_field:
  assumes "list_all (\<lambda>c. c \<noteq> CHR ''='' \<and> c \<noteq> CHR ''!'') f"
  shows "splitTerm_loop lhs (f @ rest) = splitTerm_loop (lhs @ f) rest"
  using assms by (induction f arbitrary: lhs) (simp_all add: operator_defs HasPrefix_def)

lemma ok_field_operator:
  "ok_field f \<Longrightarrow> list_all (\<lambda>c. c \<noteq> CHR ''='' \<and> c \<noteq> CHR ''!'') f"
  by (auto simp: ok_field_def list_all_iff)

lemma splitTerm_hasTerm:
  "ok_field f \<Longrightarrow> splitTerm (f @ ''='' @ EscapeValue v) = Some (f, equalOperator, EscapeValue v)"
  using hd_EscapeValue [of v]
  by (simp add: splitTerm_def splitTerm_loop_field ok_field_operator operator_defs HasPrefix_def)

lemma splitTerm_notHasTerm:
  "ok_field f \<Longrightarrow>
   splitTerm (f @ ''!='' @ EscapeValue v) = Some (f, notEqualOperator, EscapeValue v)"
  by (simp add: splitTerm_def splitTerm_loop_field ok_field_operator operator_defs HasPrefix_def)

lemma parseSelector_items_String:
  assumes "list_all plain_term qs"
  shows "parseSelector_items sel (map selector_String qs) = Inr qs"
  using assms
proof (induction qs)
  case (Cons q qs)
  then show ?case
    by (cases q) (simp_all add: splitTerm_hasTerm [simplified] splitTerm_notHasTerm [simplified],
        simp_all add: operator_defs)
qed simp

lemma selector_String_inj:
  assumes "plain_term q" and "plain_term r" and "selector_String q = selector_String r"
  shows "q = r"
proof -
  have "Inr [q] = (Inr [r] :: goerr + Selector list)"
    using parseSelector_items_String [of "[q]" "[]"] parseSelector_items_String [of "[r]" "[]"] assms
    by simp
  then show ?thesis by simp
qed

lemma sort_String_terms:
  assumes "list_all plain_term qs"
  obtains rs where "sort (map selector_String qs) = map selector_String rs"
    and "set rs = set qs" and "list_all plain_term rs"
proof -
  let ?dec = "inv_into (set qs) selector_String"
  let ?rs = "map ?dec (sort (map selector_String qs))"
  have inj: "inj_on selector_String (set qs)"
    using assms by (auto simp: inj_on_def list_all_iff dest: selector_String_inj)
  have "map selector_String ?rs = sort (map selector_String qs)"
    unfolding map_map by (rule map_idI) (auto simp: f_inv_into_f)
  moreover have "set ?rs = set qs"
    using inj by (simp add: inv_into_image_cancel)
  moreover from this have "list_all plain_term ?rs"
    using assms by (simp add: list_all_iff)
  ultimately show ?thesis using that by metis
qed

lemma Transform_plain:
  "plain_term q \<Longrightarrow> Transform q (\<lambda>f v. Inr (f, v)) = Inr q \<and> \<not> selector_Empty q"
  by (cases q) (auto simp: ok_field_def)

lemma Transform_and_plain:
  "list_all plain_term qs \<Longrightarrow> Transform_and qs (\<lambda>f v. Inr (f, v)) = Inr qs"
  by (induction qs) (simp_all add: Transform_plain)

lemma ParseSelector_andTerm:
  assumes "list_all plain_term qs"
  shows "\<exists>sel. ParseSelector (selector_String (andTerm qs)) = Inr sel \<and>
               (\<forall>ls. Matches sel ls = Matches (andTerm qs) ls)"
proof -
  obtain rs where rs: "sort (map selector_String qs) = map selector_String rs"
    "set rs = set qs" "list_all plain_term rs"
    using assms by (rule sort_String_terms)
  have "parseSelector_items s (sort (splitTerms (selector_String (andTerm qs)))) = Inr rs" for s
    using assms rs by (simp add: splitTerms_String parseSelector_items_String del: selector_String.simps)
  then have "ParseSelector (selector_String (andTerm qs)) =
      (case rs of [i] \<Rightarrow> Transform i (\<lambda>f v. Inr (f, v)) | _ \<Rightarrow> Transform (andTerm rs) (\<lambda>f v. Inr (f, v)))"
    by (simp add: ParseSelector_def parseSelector_def del: selector_String.simps)
  also have "\<dots> = Inr (case rs of [i] \<Rightarrow> i | _ \<Rightarrow> andTerm rs)"
    using rs(3) Transform_and_plain [OF rs(3)] by (auto simp: Transform_plain split: list.split)
  finally show ?thesis
    by (auto simp: rs(2) [symmetric] list_all_iff split: list.split)
qed

lemma ParseSelector_plain:
  assumes "plain_term q"
  shows "ParseSelector (selector_String q) = Inr q"
proof -
  have "splitTerms (selector_String q) = [selector_String q]"
    using splitTerms_String [of "[q]"] assms by simp
  then show ?thesis
    using assms parseSelector_items_String [of "[q]"]
    by (simp add: ParseSelector_def parseSelector_def Transform_plain)
qed

section \<open>Properties\<close>



end
