(* ===== verification/Decimal.thy ===== *)
theory Decimal
  imports Prelude
begin

text \<open>
  Decimal numerals, as \<open>strconv\<close> reads and writes them, and the two directions of the round
  trip: a number is read back from its numeral, and a numeral without leading zeroes is the
  numeral of its value.
\<close>

definition is_digit :: "char \<Rightarrow> bool" where
  "is_digit c \<longleftrightarrow> CHR ''0'' \<le> c \<and> c \<le> CHR ''9''"

definition digit_value :: "char \<Rightarrow> nat" where
  "digit_value c = of_char c - 48"

definition digit_char :: "nat \<Rightarrow> char" where
  "digit_char d = char_of (48 + d)"

definition digits_value :: "string \<Rightarrow> nat" where
  "digits_value s = foldl (\<lambda>n c. 10 * n + digit_value c) 0 s"

definition parse_digits :: "string \<Rightarrow> nat option" where
  "parse_digits s = (if s \<noteq> [] \<and> list_all is_digit s then Some (digits_value s) else None)"

fun print_nat :: "nat \<Rightarrow> string" where
  "print_nat n = (if n < 10 then [digit_char n] else print_nat (n div 10) @ [digit_char (n mod 10)])"

declare print_nat.simps [simp del]

lemma is_digit_iff: "is_digit c \<longleftrightarrow> 48 \<le> (of_char c :: nat) \<and> (of_char c :: nat) \<le> 57"
  by (simp add: is_digit_def less_eq_char_def)

lemma digit_char_value: "d < 10 \<Longrightarrow> is_digit (digit_char d) \<and> digit_value (digit_char d) = d"
  by (simp add: is_digit_iff digit_char_def digit_value_def)

lemma digit_value_char: "is_digit c \<Longrightarrow> digit_value c < 10 \<and> digit_char (digit_value c) = c"
  unfolding is_digit_iff digit_char_def digit_value_def by (auto simp: less_diff_conv2)

lemma digits_value_snoc: "digits_value (s @ [c]) = 10 * digits_value s + digit_value c"
  by (simp add: digits_value_def)

lemma print_nat_digits: "print_nat n \<noteq> [] \<and> list_all is_digit (print_nat n)"
proof (induction n rule: print_nat.induct)
  case (1 n)
  then show ?case by (simp add: print_nat.simps [of n] digit_char_value)
qed

lemma digits_value_print: "digits_value (print_nat n) = n"
proof (induction n rule: print_nat.induct)
  case (1 n)
  show ?case
  proof (cases "n < 10")
    case True
    then show ?thesis by (simp add: print_nat.simps [of n] digits_value_def digit_char_value)
  next
    case False
    with 1 show ?thesis
      by (simp add: print_nat.simps [of n] digits_value_snoc digit_char_value)
  qed
qed

lemma parse_print_nat: "parse_digits (print_nat n) = Some n"
  by (simp add: parse_digits_def print_nat_digits digits_value_print)

text \<open>\<open>hasLeadingZeroes\<close> of \<open>src/vendor/github.com/blang/semver/semver.go\<close>.\<close>

definition hasLeadingZeroes :: "string \<Rightarrow> bool" where
  "hasLeadingZeroes s \<longleftrightarrow> length s > 1 \<and> s ! 0 = CHR ''0''"

lemma digit_value_pos: "is_digit c \<Longrightarrow> c \<noteq> CHR ''0'' \<Longrightarrow> 0 < digit_value c"
proof -
  assume c: "is_digit c" "c \<noteq> CHR ''0''"
  have "(of_char c :: nat) \<noteq> of_char (CHR ''0'')" using c(2) by (simp only: of_char_eq_iff not_False_eq_True)
  with c(1) show ?thesis by (simp add: is_digit_iff digit_value_def)
qed

lemma digits_value_pos:
  "s \<noteq> [] \<Longrightarrow> list_all is_digit s \<Longrightarrow> s ! 0 \<noteq> CHR ''0'' \<Longrightarrow> 0 < digits_value s"
proof (induction s rule: rev_induct)
  case (snoc c s)
  then show ?case
    by (cases s) (auto simp: digits_value_snoc digits_value_def digit_value_pos nth_append)
qed simp

lemma print_digits_value:
  assumes "s \<noteq> []" "list_all is_digit s" "\<not> hasLeadingZeroes s"
  shows "print_nat (digits_value s) = s"
  using assms
proof (induction s rule: rev_induct)
  case (snoc c s)
  from snoc.prems have c: "is_digit c" and s: "list_all is_digit s" by auto
  note dc = digit_value_char [OF c]
  show ?case
  proof (cases "s = []")
    case True
    with dc show ?thesis by (simp add: digits_value_def print_nat.simps [of "digit_value c"])
  next
    case False
    with snoc.prems have first: "s ! 0 \<noteq> CHR ''0''"
      by (auto simp: hasLeadingZeroes_def nth_append)
    then have "\<not> hasLeadingZeroes s" by (simp add: hasLeadingZeroes_def)
    with snoc.IH False s have IH: "print_nat (digits_value s) = s" by simp
    have pos: "0 < digits_value s" using False s first by (rule digits_value_pos)
    have "(10 * digits_value s + digit_value c) div 10 = digits_value s"
      "(10 * digits_value s + digit_value c) mod 10 = digit_value c"
      using dc by simp_all
    with pos IH dc show ?thesis
      by (simp add: digits_value_snoc print_nat.simps [of "10 * digits_value s + digit_value c"])
  qed
qed simp

lemma print_nat_no_leading_zero: "\<not> hasLeadingZeroes (print_nat n)"
proof (induction n rule: print_nat.induct)
  case (1 n)
  show ?case
  proof (cases "n < 10")
    case True
    then show ?thesis by (simp add: print_nat.simps [of n] hasLeadingZeroes_def)
  next
    case False
    then have pos: "0 < n div 10" by simp
    have "print_nat (n div 10) ! 0 \<noteq> CHR ''0''"
    proof
      assume z: "print_nat (n div 10) ! 0 = CHR ''0''"
      with 1 False have "length (print_nat (n div 10)) \<le> 1" by (auto simp: hasLeadingZeroes_def)
      with z print_nat_digits [of "n div 10"] have "print_nat (n div 10) = [CHR ''0'']"
        by (cases "print_nat (n div 10)") auto
      then have "digits_value [CHR ''0''] = n div 10" using digits_value_print [of "n div 10"] by simp
      with pos show False by (simp add: digits_value_def digit_value_def)
    qed
    with False print_nat_digits [of "n div 10"] show ?thesis
      by (simp add: print_nat.simps [of n] hasLeadingZeroes_def nth_append)
  qed
qed

end
