(* ===== verification/Label_Requirements.thy ===== *)
theory Label_Requirements
  imports Constants Decimal
begin

text \<open>
  Label requirements, \<open>src/vendor/k8s.io/apimachinery/pkg/labels/selector.go\<close>: the
  operators, the checked constructor \<open>NewRequirement\<close> with the validation of keys and values
  it performs (\<open>util/validation/validation.go\<close>), \<open>Requirement.Matches\<close>, and
  \<open>NewRequirementOrDie\<close> of \<open>src/pkg/k8sutil/selector.go\<close>, which turns a rejected
  requirement into a panic while the program starts.

  The regular expressions of the validation are written as the predicates they denote.
\<close>

section \<open>Validation of label keys and values\<close>

definition is_lower :: "char \<Rightarrow> bool" where
  "is_lower c \<longleftrightarrow> CHR ''a'' \<le> c \<and> c \<le> CHR ''z''"

definition is_upper :: "char \<Rightarrow> bool" where
  "is_upper c \<longleftrightarrow> CHR ''A'' \<le> c \<and> c \<le> CHR ''Z''"

text \<open>\<open>qnameCharFmt\<close> and \<open>qnameExtCharFmt\<close>.\<close>

definition qnameChar :: "char \<Rightarrow> bool" where
  "qnameChar c \<longleftrightarrow> is_upper c \<or> is_lower c \<or> is_digit c"

definition qnameExtChar :: "char \<Rightarrow> bool" where
  "qnameExtChar c \<longleftrightarrow> qnameChar c \<or> c = CHR ''-'' \<or> c = CHR ''_'' \<or> c = CHR ''.''"

text \<open>\<open>^([A-Za-z0-9][-A-Za-z0-9_.]*)?[A-Za-z0-9]$\<close>.\<close>

definition qualifiedNameRegexp :: "string \<Rightarrow> bool" where
  "qualifiedNameRegexp s \<longleftrightarrow>
     s \<noteq> [] \<and> qnameChar (hd s) \<and> qnameChar (last s) \<and> list_all qnameExtChar s"

text \<open>\<open>^(([A-Za-z0-9][-A-Za-z0-9_.]*)?[A-Za-z0-9])?$\<close>.\<close>

definition labelValueRegexp :: "string \<Rightarrow> bool" where
  "labelValueRegexp s \<longleftrightarrow> s = [] \<or> qualifiedNameRegexp s"

text \<open>\<open>[a-z0-9]([-a-z0-9]*[a-z0-9])?\<close>.\<close>

definition dns1123Char :: "char \<Rightarrow> bool" where
  "dns1123Char c \<longleftrightarrow> is_lower c \<or> is_digit c"

definition dns1123Label :: "string \<Rightarrow> bool" where
  "dns1123Label s \<longleftrightarrow>
     s \<noteq> [] \<and> dns1123Char (hd s) \<and> dns1123Char (last s) \<and>
     list_all (\<lambda>c. dns1123Char c \<or> c = CHR ''-'') s"

definition dns1123SubdomainRegexp :: "string \<Rightarrow> bool" where
  "dns1123SubdomainRegexp s \<longleftrightarrow> list_all dns1123Label (Split (CHR ''.'') s)"

text \<open>The messages. \<open>RegexError\<close> quotes its examples and the expression.\<close>

definition MaxLenError :: "string \<Rightarrow> string" where
  "MaxLenError digits = ''must be no more than '' @ digits @ '' characters''"

definition EmptyError :: string where
  "EmptyError = ''must be non-empty''"

definition quoted :: "string \<Rightarrow> string" where
  "quoted s = [CHR 0x27] @ s @ [CHR 0x27]"

definition RegexError :: "string \<Rightarrow> string \<Rightarrow> string list \<Rightarrow> string" where
  "RegexError msg re examples =
     (if examples = [] then msg @ '' (regex used for validation is '' @ quoted re @ '')''
      else msg @ '' (e.g. '' @ Join '' or '' (map (\<lambda>e. quoted e @ '', '') examples) @
           ''regex used for validation is '' @ quoted re @ '')'')"

definition qualifiedNameFmt :: string where
  "qualifiedNameFmt = ''([A-Za-z0-9][-A-Za-z0-9_.]*)?[A-Za-z0-9]''"

definition qualifiedNameErrMsg :: string where
  "qualifiedNameErrMsg = ''must consist of alphanumeric characters, '-', '_' or '.', and must start and end with an alphanumeric character''"

definition labelValueErrMsg :: string where
  "labelValueErrMsg = ''a valid label must be an empty string or consist of alphanumeric characters, '-', '_' or '.', and must start and end with an alphanumeric character''"

definition dns1123SubdomainErrorMsg :: string where
  "dns1123SubdomainErrorMsg = ''a DNS-1123 subdomain must consist of lower case alphanumeric characters, '-' or '.', and must start and end with an alphanumeric character''"

definition dns1123SubdomainFmt :: string where
  "dns1123SubdomainFmt = ''[a-z0-9]([-a-z0-9]*[a-z0-9])?('' @ [CHR 0x5C] @ ''.[a-z0-9]([-a-z0-9]*[a-z0-9])?)*''"

definition IsDNS1123Subdomain :: "string \<Rightarrow> string list" where
  "IsDNS1123Subdomain v =
     (if length v > 253 then [MaxLenError ''253''] else []) @
     (if dns1123SubdomainRegexp v then []
      else [RegexError dns1123SubdomainErrorMsg dns1123SubdomainFmt [''example.com'']])"

definition IsQualifiedName :: "string \<Rightarrow> string list" where
  "IsQualifiedName v =
     (let regex_err = RegexError qualifiedNameErrMsg qualifiedNameFmt [''MyName'', ''my.name'', ''123-abc''];
          name_errs = (\<lambda>name.
            (if name = [] then [''name part '' @ EmptyError]
             else if length name > 63 then [''name part '' @ MaxLenError ''63'']
             else []) @
            (if qualifiedNameRegexp name then [] else [''name part '' @ regex_err]))
      in case Split (CHR ''/'') v of
           [name] \<Rightarrow> name_errs name
         | [pfx, name] \<Rightarrow>
             (if pfx = [] then [''prefix part '' @ EmptyError]
              else map (\<lambda>m. ''prefix part '' @ m) (IsDNS1123Subdomain pfx)) @ name_errs name
         | _ \<Rightarrow> [''a qualified name '' @ regex_err @
                 '' with an optional DNS subdomain prefix and '/' (e.g. 'example.com/MyName')''])"

definition IsValidLabelValue :: "string \<Rightarrow> string list" where
  "IsValidLabelValue v =
     (if length v > 63 then [MaxLenError ''63''] else []) @
     (if labelValueRegexp v then []
      else [RegexError labelValueErrMsg (''('' @ qualifiedNameFmt @ '')?'') [''MyValue'', ''my_value'', ''12345'']])"

definition validateLabelKey :: "string \<Rightarrow> goerr option" where
  "validateLabelKey k = (case IsQualifiedName k of
      [] \<Rightarrow> None
    | errs \<Rightarrow> Some (Errorf ''invalid label key %q: %s'' [k, Join ''; '' errs] []))"

definition validateLabelValue :: "string \<Rightarrow> goerr option" where
  "validateLabelValue v = (case IsValidLabelValue v of
      [] \<Rightarrow> None
    | errs \<Rightarrow> Some (Errorf ''invalid label value: %q: %s'' [v, Join ''; '' errs] []))"

text \<open>\<open>strconv.ParseInt(s, 10, 64)\<close>; \<open>None\<close> for a syntax or range error.\<close>

definition ParseInt :: "string \<Rightarrow> int option" where
  "ParseInt s =
     (case s of
        [] \<Rightarrow> None
      | c # cs \<Rightarrow>
          (case parse_digits (if c = CHR ''-'' \<or> c = CHR ''+'' then cs else s) of
             None \<Rightarrow> None
           | Some n \<Rightarrow>
               (let i = (if c = CHR ''-'' then - int n else int n)
                in if - (2 ^ 63) \<le> i \<and> i < 2 ^ 63 then Some i else None)))"

section \<open>Requirements\<close>

datatype Operator =
    DoesNotExist
  | Equals
  | DoubleEquals
  | In
  | NotEquals
  | NotIn
  | Exists
  | GreaterThan
  | LessThan
  | OtherOperator string

record Requirement =
  req_key :: string
  req_operator :: Operator
  req_strValues :: "string list"

fun first_error :: "('a \<Rightarrow> goerr option) \<Rightarrow> 'a list \<Rightarrow> goerr option" where
  "first_error f [] = None"
| "first_error f (x # xs) = (case f x of Some e \<Rightarrow> Some e | None \<Rightarrow> first_error f xs)"

definition operator_arity_error :: "Operator \<Rightarrow> string list \<Rightarrow> goerr option" where
  "operator_arity_error op vals = (case op of
      In \<Rightarrow> (if vals = [] then Some (ErrorString ''for 'in', 'notin' operators, values set can't be empty'') else None)
    | NotIn \<Rightarrow> (if vals = [] then Some (ErrorString ''for 'in', 'notin' operators, values set can't be empty'') else None)
    | Equals \<Rightarrow> (if length vals \<noteq> 1 then Some (ErrorString ''exact-match compatibility requires one single value'') else None)
    | DoubleEquals \<Rightarrow> (if length vals \<noteq> 1 then Some (ErrorString ''exact-match compatibility requires one single value'') else None)
    | NotEquals \<Rightarrow> (if length vals \<noteq> 1 then Some (ErrorString ''exact-match compatibility requires one single value'') else None)
    | Exists \<Rightarrow> (if vals \<noteq> [] then Some (ErrorString ''values set must be empty for exists and does not exist'') else None)
    | DoesNotExist \<Rightarrow> (if vals \<noteq> [] then Some (ErrorString ''values set must be empty for exists and does not exist'') else None)
    | GreaterThan \<Rightarrow> (if length vals \<noteq> 1 then Some (ErrorString ''for 'Gt', 'Lt' operators, exactly one value is required'')
        else if list_ex (\<lambda>v. ParseInt v = None) vals then Some (ErrorString ''for 'Gt', 'Lt' operators, the value must be an integer'') else None)
    | LessThan \<Rightarrow> (if length vals \<noteq> 1 then Some (ErrorString ''for 'Gt', 'Lt' operators, exactly one value is required'')
        else if list_ex (\<lambda>v. ParseInt v = None) vals then Some (ErrorString ''for 'Gt', 'Lt' operators, the value must be an integer'') else None)
    | OtherOperator s \<Rightarrow> Some (Errorf ''operator '%v' is not recognized'' [s] []))"

definition NewRequirement :: "string \<Rightarrow> Operator \<Rightarrow> string list \<Rightarrow> goerr + Requirement" where
  "NewRequirement key op vals =
     (case validateLabelKey key of
        Some err \<Rightarrow> Inl err
      | None \<Rightarrow> (case operator_arity_error op vals of
            Some err \<Rightarrow> Inl err
          | None \<Rightarrow> (case first_error validateLabelValue vals of
                Some err \<Rightarrow> Inl err
              | None \<Rightarrow> Inr \<lparr>req_key = key, req_operator = op, req_strValues = sort vals\<rparr>)))"

definition NewRequirementOrDie :: "string \<Rightarrow> Operator \<Rightarrow> string list \<Rightarrow> Requirement result" where
  "NewRequirementOrDie key op vals = (case NewRequirement key op vals of
      Inl err \<Rightarrow> Panic (PanicWith err)
    | Inr req \<Rightarrow> OK req)"

definition hasValue :: "Requirement \<Rightarrow> string \<Rightarrow> bool" where
  "hasValue r v \<longleftrightarrow> list_ex (\<lambda>s. s = v) (req_strValues r)"

definition compare_values :: "(int \<Rightarrow> int \<Rightarrow> bool) \<Rightarrow> Requirement \<Rightarrow> gomap \<Rightarrow> bool" where
  "compare_values rel r ls \<longleftrightarrow>
     gomap_has ls (req_key r) \<and>
     (case ParseInt (gomap_get ls (req_key r)) of
        None \<Rightarrow> False
      | Some lsValue \<Rightarrow> (case req_strValues r of
            [v] \<Rightarrow> (case ParseInt v of None \<Rightarrow> False | Some rValue \<Rightarrow> rel lsValue rValue)
          | _ \<Rightarrow> False))"

definition req_Matches :: "Requirement \<Rightarrow> gomap \<Rightarrow> bool" where
  "req_Matches r ls = (case req_operator r of
      In \<Rightarrow> gomap_has ls (req_key r) \<and> hasValue r (gomap_get ls (req_key r))
    | Equals \<Rightarrow> gomap_has ls (req_key r) \<and> hasValue r (gomap_get ls (req_key r))
    | DoubleEquals \<Rightarrow> gomap_has ls (req_key r) \<and> hasValue r (gomap_get ls (req_key r))
    | NotIn \<Rightarrow> \<not> gomap_has ls (req_key r) \<or> \<not> hasValue r (gomap_get ls (req_key r))
    | NotEquals \<Rightarrow> \<not> gomap_has ls (req_key r) \<or> \<not> hasValue r (gomap_get ls (req_key r))
    | Exists \<Rightarrow> gomap_has ls (req_key r)
    | DoesNotExist \<Rightarrow> \<not> gomap_has ls (req_key r)
    | GreaterThan \<Rightarrow> compare_values (>) r ls
    | LessThan \<Rightarrow> compare_values (<) r ls
    | OtherOperator s \<Rightarrow> False)"

section \<open>Label selectors\<close>

text \<open>\<open>internalSelector\<close>: a list of requirements that all have to match.\<close>

definition req_String :: "Requirement \<Rightarrow> string" where
  "req_String r =
     (let vs = Join '','' (req_strValues r) in
      case req_operator r of
        DoesNotExist \<Rightarrow> ''!'' @ req_key r
      | Exists \<Rightarrow> req_key r
      | Equals \<Rightarrow> req_key r @ ''='' @ vs
      | DoubleEquals \<Rightarrow> req_key r @ ''=='' @ vs
      | NotEquals \<Rightarrow> req_key r @ ''!='' @ vs
      | In \<Rightarrow> req_key r @ '' in ('' @ vs @ '')''
      | NotIn \<Rightarrow> req_key r @ '' notin ('' @ vs @ '')''
      | GreaterThan \<Rightarrow> req_key r @ ''>'' @ vs
      | LessThan \<Rightarrow> req_key r @ ''<'' @ vs
      | OtherOperator s \<Rightarrow> req_key r @ vs)"

definition labels_String :: "Requirement list \<Rightarrow> string" where
  "labels_String lsel = Join '','' (map req_String lsel)"

definition labels_Matches :: "Requirement list \<Rightarrow> gomap \<Rightarrow> bool" where
  "labels_Matches lsel ls \<longleftrightarrow> list_all (\<lambda>r. req_Matches r ls) lsel"

text \<open>
  \<open>labels.SelectorFromSet\<close>; the set is given by its entries. One entry that is no valid
  requirement makes the selector empty.
\<close>

fun requirements_of :: "(string \<times> string) list \<Rightarrow> Requirement list option" where
  "requirements_of [] = Some []"
| "requirements_of ((label, value) # ls) = (case NewRequirement label Equals [value] of
      Inl _ \<Rightarrow> None
    | Inr r \<Rightarrow> map_option ((#) r) (requirements_of ls))"

definition labels_SelectorFromSet :: "(string \<times> string) list \<Rightarrow> Requirement list" where
  "labels_SelectorFromSet ls = (case requirements_of ls of
      None \<Rightarrow> []
    | Some rs \<Rightarrow> sort_key req_key rs)"

section \<open>Lemmas\<close>

lemma NewRequirement_OK:
  "NewRequirement key op vals = Inr r \<Longrightarrow>
   req_key r = key \<and> req_operator r = op \<and> set (req_strValues r) = set vals"
  by (auto simp: NewRequirement_def split: option.splits)

lemma hasValue_iff: "hasValue r v \<longleftrightarrow> v \<in> set (req_strValues r)"
  by (auto simp: hasValue_def list_ex_iff)

lemma hasValue_NewRequirement:
  "NewRequirement key op vals = Inr r \<Longrightarrow> hasValue r v \<longleftrightarrow> v \<in> set vals"
  by (auto simp: hasValue_iff dest!: NewRequirement_OK)

text \<open>\<open>In\<close> and \<open>NotIn\<close> over the same key and values are each other's negation.\<close>

lemma In_NotIn_complement:
  assumes "NewRequirement key In vals = Inr r" and "NewRequirement key NotIn vals = Inr r'"
  shows "req_Matches r' ls \<longleftrightarrow> \<not> req_Matches r ls"
  using NewRequirement_OK [OF assms(1)] NewRequirement_OK [OF assms(2)]
  by (simp add: req_Matches_def hasValue_iff)

lemma req_Matches_In:
  "NewRequirement key In vals = Inr r \<Longrightarrow>
   req_Matches r ls \<longleftrightarrow> gomap_has ls key \<and> gomap_get ls key \<in> set vals"
  using NewRequirement_OK [of key In vals r] by (auto simp: req_Matches_def hasValue_iff)

section \<open>Properties\<close>

text \<open>
  C26: What a valid requirement matches, for every operator: membership and its negation, presence and
  absence, and the order of two integers of 64 bits. A requirement with an unknown operator is
  never built, and the value of an order requirement is always an integer.
\<close>

theorem requirement_semantics:
  assumes "NewRequirement key op vals = Inr r"
  shows "case op of
      In \<Rightarrow> req_Matches r ls = (gomap_has ls key \<and> gomap_get ls key \<in> set vals)
    | NotIn \<Rightarrow> req_Matches r ls = (\<not> (gomap_has ls key \<and> gomap_get ls key \<in> set vals))
    | Equals \<Rightarrow> req_Matches r ls = (gomap_has ls key \<and> [gomap_get ls key] = vals)
    | DoubleEquals \<Rightarrow> req_Matches r ls = (gomap_has ls key \<and> [gomap_get ls key] = vals)
    | NotEquals \<Rightarrow> req_Matches r ls = (\<not> (gomap_has ls key \<and> [gomap_get ls key] = vals))
    | Exists \<Rightarrow> req_Matches r ls = gomap_has ls key
    | DoesNotExist \<Rightarrow> req_Matches r ls = (\<not> gomap_has ls key)
    | GreaterThan \<Rightarrow> (\<exists>v n. vals = [v] \<and> ParseInt v = Some n \<and>
        req_Matches r ls = (gomap_has ls key \<and> (\<exists>i > n. ParseInt (gomap_get ls key) = Some i)))
    | LessThan \<Rightarrow> (\<exists>v n. vals = [v] \<and> ParseInt v = Some n \<and>
        req_Matches r ls = (gomap_has ls key \<and> (\<exists>i < n. ParseInt (gomap_get ls key) = Some i)))
    | OtherOperator s \<Rightarrow> False"
proof -
  note r = NewRequirement_OK [OF assms]
  have arity: "operator_arity_error op vals = None"
    using assms by (auto simp: NewRequirement_def split: option.splits)
  have sorted: "req_strValues r = sort vals"
    using assms by (auto simp: NewRequirement_def split: option.splits)
  have "\<exists>v. vals = [v]" if "op \<in> {Equals, DoubleEquals, NotEquals, GreaterThan, LessThan}"
    using that arity by (cases vals; cases "tl vals") (auto simp: operator_arity_error_def)
  then obtain v where v: "vals = [v]" if "op \<in> {Equals, DoubleEquals, NotEquals, GreaterThan, LessThan}" by blast
  have order: "\<exists>v n. vals = [v] \<and> ParseInt v = Some n \<and> req_strValues r = [v]" if "op \<in> {GreaterThan, LessThan}"
    using v arity that sorted by (auto simp: operator_arity_error_def split: if_splits)
  note match = req_Matches_def hasValue_iff r
  show ?thesis
  proof (cases op)
    case Equals
    then show ?thesis using v by (auto simp: match)
  next
    case DoubleEquals
    then show ?thesis using v by (auto simp: match)
  next
    case NotEquals
    then show ?thesis using v by (auto simp: match)
  next
    case GreaterThan
    then show ?thesis using order by (auto simp: match compare_values_def split: option.splits)
  next
    case LessThan
    then show ?thesis using order by (auto simp: match compare_values_def split: option.splits)
  next
    case (OtherOperator s)
    then show ?thesis using arity by (simp add: operator_arity_error_def)
  qed (simp_all add: match)
qed

theorem requirement_semantics_witness:
  "\<exists>r. NewRequirement ''kernel'' GreaterThan [''300''] = Inr r \<and> req_Matches r (Some [''kernel'' \<mapsto> ''1000''])"
proof -
  have r: "NewRequirement ''kernel'' GreaterThan [''300''] =
      Inr \<lparr>req_key = ''kernel'', req_operator = GreaterThan, req_strValues = [''300'']\<rparr>" by code_simp
  have p: "ParseInt ''1000'' = Some 1000" "ParseInt ''300'' = Some 300" by code_simp+
  from requirement_semantics [OF r, of "Some [''kernel'' \<mapsto> ''1000'']"] r p show ?thesis by simp
qed

end
