(* ===== verification/Nodes.thy ===== *)
theory Nodes
  imports Field_Selectors Label_Requirements
begin

text \<open>
  The objects the program reads and writes and the filters it applies to lists of them.

  \<^item> \<open>node\<close> and \<open>pod\<close> carry the fields of \<open>v1.Node\<close> and \<open>v1.Pod\<close> that the code
    reads or writes. A resource version is an opaque token, here a number, that the code only
    hands back to the API server.
  \<^item> \<open>node_iface\<close> is \<open>v1core.NodeInterface\<close>. The API server behind it is not part of
    the repository, so every operation is a parameter: a function of the state \<open>'w\<close> of the
    world, which other parties may change in any call.
  \<^item> The filters of \<open>src/pkg/k8sutil/selector.go\<close> and \<open>pods.go\<close>, each written as its
    loop; \<open>list_filter\<close> is the contract they share and the interpretations below show that
    each of them meets it.
\<close>

section \<open>Objects\<close>

record node =
  Name :: string
  ResourceVersion :: nat
  Labels :: gomap
  Annotations :: gomap
  SpecUnschedulable :: bool
  OSImage :: string

record owner_reference =
  Kind :: string
  OwnerName :: string

record pod =
  PodName :: string
  Namespace :: string
  UID :: string
  PodAnnotations :: gomap
  OwnerReferences :: "owner_reference list"

text \<open>\<open>&v1.Node{}\<close>, which client-go returns beside an error.\<close>

definition zero_node :: node where
  "zero_node = \<lparr>Name = [], ResourceVersion = 0, Labels = None, Annotations = None,
                SpecUnschedulable = False, OSImage = []\<rparr>"

text \<open>A closure \<open>func(*v1api.Node)\<close> that changes the node it is given, or panics.\<close>

type_synonym node_mutation = "node \<Rightarrow> gopanic + node"

section \<open>The node interface\<close>

datatype event_type = Added | Modified | Deleted | WatchError

datatype runtime_object = NodeObject node | OtherObject string

record watch_event =
  ev_Type :: event_type
  ev_Object :: runtime_object

text \<open>
  What a \<open>select\<close> on the result channel of a watch and on a timer can yield: an event, the
  end of the channel, or the timer.
\<close>

datatype watch_signal = Received watch_event | Closed | TimedOut

record 'w node_iface =
  nc_Get :: "string \<Rightarrow> 'w \<Rightarrow> 'w \<times> (goerr + node)"
  nc_List :: "'w \<Rightarrow> 'w \<times> (goerr + node list)"
  nc_Update :: "node \<Rightarrow> 'w \<Rightarrow> 'w \<times> node \<times> goerr option"
  nc_Watch :: "string \<Rightarrow> nat \<Rightarrow> 'w \<Rightarrow> 'w \<times> (goerr + nat)"
  nc_Next :: "nat \<Rightarrow> 'w \<Rightarrow> 'w \<times> watch_signal"

text \<open>
  \<open>errors.IsConflict\<close> and \<open>errors.IsNotFound\<close> look at the reason of a status error. An
  error rebuilt with \<open>fmt.Errorf\<close> is no status error any more, whatever it wraps.
\<close>

definition StatusReasonConflict :: string where
  "StatusReasonConflict = ''Conflict''"

definition StatusReasonNotFound :: string where
  "StatusReasonNotFound = ''NotFound''"

fun reasonForError :: "goerr \<Rightarrow> string" where
  "reasonForError (StatusError reason msg) = reason"
| "reasonForError _ = []"

definition IsConflict :: "goerr \<Rightarrow> bool" where
  "IsConflict err \<longleftrightarrow> reasonForError err = StatusReasonConflict"

definition IsNotFound :: "goerr \<Rightarrow> bool" where
  "IsNotFound err \<longleftrightarrow> reasonForError err = StatusReasonNotFound"

section \<open>Filters\<close>

definition FilterNodesByAnnotation :: "node list \<Rightarrow> Selector \<Rightarrow> node list" where
  "FilterNodesByAnnotation nodes sel =
     foldl (\<lambda>ret n. if Matches sel (Annotations n) then ret @ [n] else ret) [] nodes"

definition FilterNodesByRequirement :: "node list \<Rightarrow> Requirement \<Rightarrow> node list" where
  "FilterNodesByRequirement nodes req =
     foldl (\<lambda>matches n. if req_Matches req (Labels n) then matches @ [n] else matches) [] nodes"

definition FilterContainerLinuxNodes :: "node list \<Rightarrow> node list" where
  "FilterContainerLinuxNodes nodes =
     foldl (\<lambda>matches n. if HasPrefix (OSImage n) ''Container Linux'' then matches @ [n] else matches)
       [] nodes"

definition FilterPods :: "pod list \<Rightarrow> (pod \<Rightarrow> bool) \<Rightarrow> pod list" where
  "FilterPods pods flt = foldl (\<lambda>newpods p. if flt p then newpods @ [p] else newpods) [] pods"

section \<open>The contract of a filter\<close>

text \<open>
  A filter keeps the elements it is asked to keep, each once per occurrence, and in their
  order. Its two laws describe the loop: an empty list gives an empty list, and one more
  element at the end is appended to the result when it is kept.
\<close>

locale list_filter =
  fixes flt :: "'a list \<Rightarrow> 'a list"
    and keep :: "'a \<Rightarrow> bool"
  assumes flt_Nil: "flt [] = []"
    and flt_snoc: "flt (xs @ [x]) = (if keep x then flt xs @ [x] else flt xs)"
begin

lemma flt_eq: "flt xs = filter keep xs"
  by (induction xs rule: rev_induct) (simp_all add: flt_Nil flt_snoc)

lemma flt_set: "set (flt xs) = {x \<in> set xs. keep x}"
  by (simp add: flt_eq)

lemma flt_subseq: "subseq (flt xs) xs"
  by (simp add: flt_eq subseq_filter_left)

lemma flt_idem: "flt (flt xs) = flt xs"
  by (simp add: flt_eq)

lemma flt_none: "flt xs = [] \<longleftrightarrow> (\<forall>x\<in>set xs. \<not> keep x)"
  by (simp add: flt_eq filter_empty_conv)

end

interpretation byAnnotation:
  list_filter "\<lambda>nodes. FilterNodesByAnnotation nodes sel" "\<lambda>n. Matches sel (Annotations n)"
  by unfold_locales (simp_all add: FilterNodesByAnnotation_def)

interpretation byRequirement:
  list_filter "\<lambda>nodes. FilterNodesByRequirement nodes req" "\<lambda>n. req_Matches req (Labels n)"
  by unfold_locales (simp_all add: FilterNodesByRequirement_def)

interpretation containerLinux:
  list_filter FilterContainerLinuxNodes "\<lambda>n. HasPrefix (OSImage n) ''Container Linux''"
  by unfold_locales (simp_all add: FilterContainerLinuxNodes_def)

interpretation byPod: list_filter "\<lambda>pods. FilterPods pods f" f
  by unfold_locales (simp_all add: FilterPods_def)

end
