(* ===== verification/Retry.thy ===== *)
theory Retry
  imports Complex_Main Nodes
begin

text \<open>
  Retrying: \<open>wait.ExponentialBackoff\<close>
  (\<open>src/vendor/k8s.io/apimachinery/pkg/util/wait/wait.go\<close>) and the two wrappers of
  \<open>src/pkg/k8sutil/retry.go\<close>. The variable a closure captures (\<open>lastConflictErr\<close>) is a
  component of the state the loop passes on. The pauses between attempts change nothing the
  program can see and are left out; the number of attempts is \<open>Steps\<close>.

  \<open>conflict_retry\<close> is a direct recursion over the attempts; \<open>RetryOnConflict_eq\<close> shows
  that the closure-based loop computes the same, and the rules for clients are derived from it.
\<close>

section \<open>Definitions\<close>

record Backoff =
  Steps :: int
  Duration :: int
  Factor :: rat
  Jitter :: rat

text \<open>Durations are in milliseconds; duration, factor and jitter only determine the pauses.\<close>

definition DefaultRetry :: Backoff where
  "DefaultRetry = \<lparr>Steps = 5, Duration = 10, Factor = 1, Jitter = 1 / 10\<rparr>"

definition DefaultBackoff :: Backoff where
  "DefaultBackoff = \<lparr>Steps = 4, Duration = 10, Factor = 5, Jitter = 1 / 10\<rparr>"

fun ExponentialBackoff_loop :: "nat \<Rightarrow> ('w, bool) go \<Rightarrow> ('w, unit) go" where
  "ExponentialBackoff_loop 0 condition w = (w, Err ErrWaitTimeout)"
| "ExponentialBackoff_loop (Suc n) condition w = (case condition w of
      (w', Err err) \<Rightarrow> (w', Err err)
    | (w', Panic p) \<Rightarrow> (w', Panic p)
    | (w', OK ok) \<Rightarrow> if ok then (w', OK ()) else ExponentialBackoff_loop n condition w')"

definition ExponentialBackoff :: "Backoff \<Rightarrow> ('w, bool) go \<Rightarrow> ('w, unit) go" where
  "ExponentialBackoff backoff condition = ExponentialBackoff_loop (nat (Steps backoff)) condition"

text \<open>The closure that \<open>RetryOnConflict\<close> passes on, over the state with \<open>lastConflictErr\<close>.\<close>

definition conflict_condition :: "('w, unit) go \<Rightarrow> ('w \<times> goerr option, bool) go" where
  "conflict_condition fn = (\<lambda>(w, lastConflictErr). case fn w of
      (w', OK _) \<Rightarrow> ((w', lastConflictErr), OK True)
    | (w', Err err) \<Rightarrow>
        if IsConflict err then ((w', Some err), OK False) else ((w', lastConflictErr), Err err)
    | (w', Panic p) \<Rightarrow> ((w', lastConflictErr), Panic p))"

definition error_result :: "goerr option \<Rightarrow> unit result" where
  "error_result err = (case err of None \<Rightarrow> OK () | Some e \<Rightarrow> Err e)"

definition RetryOnConflict :: "Backoff \<Rightarrow> ('w, unit) go \<Rightarrow> ('w, unit) go" where
  "RetryOnConflict backoff fn w =
     (case ExponentialBackoff backoff (conflict_condition fn) (w, None) of
        ((w', lastConflictErr), r) \<Rightarrow>
          (w', if r = Err ErrWaitTimeout then error_result lastConflictErr else r))"

text \<open>
  \<open>RetryOnError\<close> declares \<open>lastErr\<close> outside of the closure and again, with \<open>:=\<close>, inside
  of it. The assignment goes to the inner variable, so the outer one is still nil when the
  loop is over.
\<close>

definition error_condition :: "('w, unit) go \<Rightarrow> ('w, bool) go" where
  "error_condition fn w = (case fn w of
      (w', OK _) \<Rightarrow> (w', OK True)
    | (w', Err lastErr) \<Rightarrow> (w', OK False)
    | (w', Panic p) \<Rightarrow> (w', Panic p))"

definition RetryOnError :: "Backoff \<Rightarrow> ('w, unit) go \<Rightarrow> ('w, unit) go" where
  "RetryOnError backoff fn w =
     (let lastErr = None in
      case ExponentialBackoff backoff (error_condition fn) w of
        (w', r) \<Rightarrow> (w', if r = Err ErrWaitTimeout then error_result lastErr else r))"

section \<open>The reference recursion\<close>

fun conflict_retry :: "nat \<Rightarrow> ('w, unit) go \<Rightarrow> goerr option \<Rightarrow> ('w, unit) go" where
  "conflict_retry 0 fn lastErr w = (w, error_result lastErr)"
| "conflict_retry (Suc n) fn lastErr w = (case fn w of
      (w', OK _) \<Rightarrow> (w', OK ())
    | (w', Err err) \<Rightarrow>
        if IsConflict err then conflict_retry n fn (Some err) w'
        else (w', if err = ErrWaitTimeout then error_result lastErr else Err err)
    | (w', Panic p) \<Rightarrow> (w', Panic p))"

text \<open>The worlds and results of the attempts, in order, until one is not a conflict.\<close>

fun conflict_attempts :: "nat \<Rightarrow> ('w, unit) go \<Rightarrow> 'w \<Rightarrow> ('w \<times> unit result) list" where
  "conflict_attempts 0 fn w = []"
| "conflict_attempts (Suc n) fn w = (case fn w of
      (w', Err err) \<Rightarrow>
        if IsConflict err then (w', Err err) # conflict_attempts n fn w' else [(w', Err err)]
    | (w', r) \<Rightarrow> [(w', r)])"

section \<open>Lemmas\<close>

lemma Steps_DefaultBackoff [simp]: "nat (Steps DefaultBackoff) = Suc (Suc (Suc (Suc 0)))"
  by (simp add: DefaultBackoff_def)

lemma error_result_simps [simp]:
  "error_result None = OK ()" "error_result (Some e) = Err e"
  by (simp_all add: error_result_def)

lemma IsConflict_Errorf [simp]:
  "\<not> IsConflict (Errorf s xs es)" "\<not> IsConflict ErrWaitTimeout" "\<not> IsConflict (ErrorString s)"
  by (simp_all add: IsConflict_def StatusReasonConflict_def)

lemma conflict_condition_eval:
  "conflict_condition fn (w, l) = (case fn w of
      (w', OK _) \<Rightarrow> ((w', l), OK True)
    | (w', Err err) \<Rightarrow> if IsConflict err then ((w', Some err), OK False) else ((w', l), Err err)
    | (w', Panic p) \<Rightarrow> ((w', l), Panic p))"
  by (simp add: conflict_condition_def)

lemma RetryOnConflict_loop:
  "(case ExponentialBackoff_loop n (conflict_condition fn) (w, lastErr) of
      ((w', l), r) \<Rightarrow> (w', if r = Err ErrWaitTimeout then error_result l else r)) =
   conflict_retry n fn lastErr w"
proof (induction n arbitrary: w lastErr)
  case (Suc n)
  obtain w' r where "fn w = (w', r)" by fastforce
  with Suc.IH show ?case
    by (cases r) (simp_all add: conflict_condition_eval)
qed simp

lemma RetryOnConflict_eq:
  "RetryOnConflict backoff fn = conflict_retry (nat (Steps backoff)) fn None"
  by (rule ext) (simp add: RetryOnConflict_def ExponentialBackoff_def RetryOnConflict_loop)

lemma conflict_attempts_length: "length (conflict_attempts n fn w) \<le> n"
  by (induction n arbitrary: w) (auto split: prod.split result.split)

lemma conflict_attempts_nonempty: "0 < n \<Longrightarrow> conflict_attempts n fn w \<noteq> []"
  by (cases n) (auto split: prod.split result.split)

lemma conflict_attempts_prefix:
  "xs @ (w', r) # ys = conflict_attempts n fn w \<Longrightarrow> ys \<noteq> [] \<Longrightarrow> \<exists>e. r = Err e \<and> IsConflict e"
proof (induction n arbitrary: w xs)
  case (Suc n)
  then show ?case
    by (cases xs) (auto split: prod.splits result.splits if_splits)
qed simp

lemma conflict_retry_last_attempt:
  assumes "0 < n" and "snd (last (conflict_attempts n fn w)) \<noteq> Err ErrWaitTimeout"
  shows "conflict_retry n fn l w = last (conflict_attempts n fn w)"
  using assms
proof (induction n arbitrary: w l)
  case (Suc n)
  show ?case
  proof (cases "\<exists>w' e. fn w = (w', Err e) \<and> IsConflict e \<and> 0 < n")
    case True
    then obtain w' e where fn: "fn w = (w', Err e)" "IsConflict e" "0 < n" by blast
    with conflict_attempts_nonempty [of n fn w'] Suc.prems Suc.IH [of w' "Some e"]
    show ?thesis by simp
  next
    case False
    then show ?thesis using Suc.prems
      by (cases n) (auto split: prod.splits result.splits if_splits)
  qed
qed simp

text \<open>
  A client rule: if every attempt that ends in a conflict restores \<open>P\<close>, a run that succeeds
  ends as one successful attempt does.
\<close>

lemma triple_conflict_retry:
  assumes OK: "\<And>w w'. P w \<Longrightarrow> fn w = (w', OK ()) \<Longrightarrow> Q w'"
    and confl: "\<And>w w' e. P w \<Longrightarrow> fn w = (w', Err e) \<Longrightarrow> IsConflict e \<Longrightarrow> P w'"
    and other: "\<And>w w' e. P w \<Longrightarrow> fn w = (w', Err e) \<Longrightarrow> \<not> IsConflict e \<Longrightarrow> e \<noteq> ErrWaitTimeout \<and> E w'"
    and panic: "\<And>w w' p. P w \<Longrightarrow> fn w = (w', Panic p) \<Longrightarrow> E w'"
    and PE: "\<And>w. P w \<Longrightarrow> E w"
    and n: "0 < n \<or> l \<noteq> None"
  shows "triple P (conflict_retry n fn l) (\<lambda>_. Q) E"
  using n
proof (induction n arbitrary: l)
  case 0
  then show ?case by (auto intro!: tripleI PE)
next
  case (Suc n)
  have IH: "triple P (conflict_retry n fn (Some e)) (\<lambda>_. Q) E" for e
    by (rule Suc.IH) simp
  show ?case
    unfolding triple_def
  proof (intro allI impI)
    fix w
    assume P: "P w"
    obtain w' r where fn: "fn w = (w', r)" by fastforce
    show "case conflict_retry (Suc n) fn l w of (w', OK a) \<Rightarrow> Q w'
        | (w', Err e) \<Rightarrow> E w' | (w', Panic p) \<Rightarrow> E w'"
    proof (cases r)
      case (OK u)
      with fn assms(1) [OF P] show ?thesis by simp
    next
      case (Err e)
      with fn P IH [of e, unfolded triple_def] confl [of w w' e] other [of w w' e] show ?thesis
        by (cases "IsConflict e") simp_all
    next
      case (Panic p)
      with fn panic [OF P] show ?thesis by simp
    qed
  qed
qed

lemma error_loop_end:
  "ExponentialBackoff_loop n (error_condition fn) w = (w', r) \<Longrightarrow>
   r = OK () \<or> r = Err ErrWaitTimeout \<or> (\<exists>p. r = Panic p)"
  by (induction n arbitrary: w) (auto simp: error_condition_def split: prod.splits result.splits if_splits)

text \<open>\<open>RetryOnError\<close> never reports an error.\<close>

lemma RetryOnError_no_error: "RetryOnError backoff fn w = (w', Err e) \<Longrightarrow> False"
  by (auto simp: RetryOnError_def ExponentialBackoff_def split: prod.splits if_splits
      dest!: error_loop_end)

section \<open>Properties\<close>

text \<open>
  C22: \<open>RetryOnConflict\<close> is its last attempt. It makes at most \<open>Steps\<close> attempts, every attempt but the
  last ended in a conflict, and the result and the world are those of the last attempt (unless that
  one reports \<open>ErrWaitTimeout\<close> itself, which the code takes for its own).
\<close>

theorem retry_is_last_attempt:
  assumes "0 < Steps b" and "snd (last (conflict_attempts (nat (Steps b)) fn w)) \<noteq> Err ErrWaitTimeout"
  shows "RetryOnConflict b fn w = last (conflict_attempts (nat (Steps b)) fn w) \<and>
     length (conflict_attempts (nat (Steps b)) fn w) \<le> nat (Steps b) \<and>
     (\<forall>a\<in>set (butlast (conflict_attempts (nat (Steps b)) fn w)). \<exists>e. snd a = Err e \<and> IsConflict e)"
proof (intro conjI ballI)
  let ?as = "conflict_attempts (nat (Steps b)) fn w"
  show "RetryOnConflict b fn w = last ?as"
    using conflict_retry_last_attempt [of "nat (Steps b)" fn w None] assms by (simp add: RetryOnConflict_eq)
  show "length ?as \<le> nat (Steps b)" by (rule conflict_attempts_length)
  fix a assume "a \<in> set (butlast ?as)"
  moreover have "?as \<noteq> []" using assms(1) by (simp add: conflict_attempts_nonempty)
  ultimately obtain xs ys where "?as = xs @ a # ys" "ys \<noteq> []"
    by (metis append.assoc append_Cons append_butlast_last_id append_is_Nil_conv list.distinct(1) split_list)
  then show "\<exists>e. snd a = Err e \<and> IsConflict e"
    using conflict_attempts_prefix [of xs "fst a" "snd a" ys "nat (Steps b)" fn w] by simp
qed

text \<open>A counter that conflicts until it reaches 2.\<close>

definition flaky :: "(nat, unit) go" where
  "flaky n = (Suc n, if n < 2 then Err (StatusError StatusReasonConflict []) else OK ())"

theorem retry_is_last_attempt_witness:
  "RetryOnConflict DefaultBackoff flaky 0 = (3, OK ())"
proof -
  have "snd (last (conflict_attempts (nat (Steps DefaultBackoff)) flaky 0)) \<noteq> Err ErrWaitTimeout"
    and last: "last (conflict_attempts (nat (Steps DefaultBackoff)) flaky 0) = (3, OK ())"
    by (simp_all add: flaky_def IsConflict_def)
  from retry_is_last_attempt [OF _ this(1)] last show ?thesis by (simp add: DefaultBackoff_def)
qed

text \<open>
  C37: \<open>RetryOnError\<close> hides the failure it was asked to report. If every attempt fails, it still returns
  nil: the closure assigns a variable of its own, and the one that is returned stays nil.
\<close>

theorem retry_on_error_returns_nil:
  assumes "\<And>w. \<exists>w' e. fn w = (w', Err e)"
  shows "\<exists>w'. RetryOnError b fn w = (w', OK ())"
proof -
  have "\<exists>w'. ExponentialBackoff_loop n (error_condition fn) w = (w', Err ErrWaitTimeout)" for n
  proof (induction n arbitrary: w)
    case (Suc n)
    obtain w1 e where "fn w = (w1, Err e)" using assms by blast
    with Suc [of w1] show ?case by (simp add: error_condition_def)
  qed simp
  then obtain w' where "ExponentialBackoff b (error_condition fn) w = (w', Err ErrWaitTimeout)"
    unfolding ExponentialBackoff_def by blast
  then show ?thesis by (simp add: RetryOnError_def)
qed

definition always_failing :: "(nat, unit) go" where
  "always_failing n = (Suc n, Err (ErrorString ''unreachable''))"

theorem retry_on_error_returns_nil_witness:
  "\<exists>w'. RetryOnError DefaultBackoff always_failing 0 = (w', OK ())"
  by (rule retry_on_error_returns_nil) (simp add: always_failing_def)

end
