(* ===== verification/Node_Updates.thy ===== *)
theory Node_Updates
  imports Retry
begin

text \<open>
  Reading and changing nodes through the API: the node part of
  \<open>src/pkg/k8sutil/metadata.go\<close>. Every change of labels and annotations goes through
  \<open>UpdateNodeRetry\<close>, which reads the node, lets a closure change it and writes it back,
  again from the read when the write conflicts. The closures are functions
  \<open>node \<Rightarrow> gopanic + node\<close>; the locale \<open>metadata_mutation\<close> is the contract they share
  (they change labels and annotations only, and fail only by a write to a nil map).
\<close>

section \<open>Definitions\<close>

text \<open>The closure \<open>UpdateNodeRetry\<close> retries: read, change, write.\<close>

definition update_attempt :: "'w node_iface \<Rightarrow> string \<Rightarrow> node_mutation \<Rightarrow> ('w, unit) go" where
  "update_attempt nc name f w = (case nc_Get nc name w of
      (w1, Inl getErr) \<Rightarrow> (w1, Err (Errorf ''failed to get node %q: %v'' [name] [getErr]))
    | (w1, Inr n) \<Rightarrow> (case f n of
          Inl p \<Rightarrow> (w1, Panic p)
        | Inr n' \<Rightarrow> (case nc_Update nc n' w1 of
              (w2, _, None) \<Rightarrow> (w2, OK ())
            | (w2, _, Some err) \<Rightarrow> (w2, Err err))))"

definition UpdateNodeRetry :: "'w node_iface \<Rightarrow> string \<Rightarrow> node_mutation \<Rightarrow> ('w, unit) go" where
  "UpdateNodeRetry nc name f =
     go_wrap (\<lambda>err. Errorf ''unable to update node %q: %v'' [name] [err])
       (RetryOnConflict DefaultBackoff (update_attempt nc name f))"

text \<open>
  \<open>GetNodeRetry\<close>; the result \<open>OK None\<close> is the nil pointer with a nil error. The closure
  assigns the captured variable \<open>apiNode\<close>, a component of the state.
\<close>

definition get_attempt :: "'w node_iface \<Rightarrow> string \<Rightarrow> ('w \<times> node option, unit) go" where
  "get_attempt nc name = (\<lambda>(w, apiNode). case nc_Get nc name w of
      (w', Inl getErr) \<Rightarrow>
        ((w', apiNode), Err (Errorf ''failed to get node %q: %v'' [name] [getErr]))
    | (w', Inr n) \<Rightarrow> ((w', Some n), OK ()))"

definition GetNodeRetry :: "'w node_iface \<Rightarrow> string \<Rightarrow> ('w, node option) go" where
  "GetNodeRetry nc name w =
     (case RetryOnError DefaultBackoff (get_attempt nc name) (w, None) of
        ((w', apiNode), OK _) \<Rightarrow> (w', OK apiNode)
      | ((w', apiNode), Err err) \<Rightarrow> (w', Err err)
      | ((w', apiNode), Panic p) \<Rightarrow> (w', Panic p))"

definition set_labels :: "(string \<times> string) list \<Rightarrow> node_mutation" where
  "set_labels m n = map_sum id (\<lambda>ls. n\<lparr>Labels := ls\<rparr>) (gomap_set_all m (Labels n))"

definition set_annotations :: "(string \<times> string) list \<Rightarrow> node_mutation" where
  "set_annotations m n = map_sum id (\<lambda>an. n\<lparr>Annotations := an\<rparr>) (gomap_set_all m (Annotations n))"

definition set_annotations_labels ::
  "(string \<times> string) list \<Rightarrow> (string \<times> string) list \<Rightarrow> node_mutation" where
  "set_annotations_labels a l n =
     (case set_annotations a n of Inl p \<Rightarrow> Inl p | Inr n' \<Rightarrow> set_labels l n')"

definition delete_labels :: "string list \<Rightarrow> node_mutation" where
  "delete_labels ks n = Inr (n\<lparr>Labels := gomap_delete_all ks (Labels n)\<rparr>)"

definition delete_annotations :: "string list \<Rightarrow> node_mutation" where
  "delete_annotations ks n = Inr (n\<lparr>Annotations := gomap_delete_all ks (Annotations n)\<rparr>)"

definition SetNodeLabels :: "'w node_iface \<Rightarrow> string \<Rightarrow> (string \<times> string) list \<Rightarrow> ('w, unit) go" where
  "SetNodeLabels nc name m = UpdateNodeRetry nc name (set_labels m)"

definition SetNodeAnnotations ::
  "'w node_iface \<Rightarrow> string \<Rightarrow> (string \<times> string) list \<Rightarrow> ('w, unit) go" where
  "SetNodeAnnotations nc name m = UpdateNodeRetry nc name (set_annotations m)"

definition SetNodeAnnotationsLabels ::
  "'w node_iface \<Rightarrow> string \<Rightarrow> (string \<times> string) list \<Rightarrow> (string \<times> string) list \<Rightarrow> ('w, unit) go" where
  "SetNodeAnnotationsLabels nc name a l = UpdateNodeRetry nc name (set_annotations_labels a l)"

definition DeleteNodeLabels :: "'w node_iface \<Rightarrow> string \<Rightarrow> string list \<Rightarrow> ('w, unit) go" where
  "DeleteNodeLabels nc name ks = UpdateNodeRetry nc name (delete_labels ks)"

definition DeleteNodeAnnotations :: "'w node_iface \<Rightarrow> string \<Rightarrow> string list \<Rightarrow> ('w, unit) go" where
  "DeleteNodeAnnotations nc name ks = UpdateNodeRetry nc name (delete_annotations ks)"

text \<open>
  The closure of \<open>Unschedulable\<close>: \<open>n, err = nc.Update(n)\<close>. The captured \<open>n\<close> is
  overwritten by what \<open>Update\<close> returns, also when it fails.
\<close>

definition put_attempt :: "'w node_iface \<Rightarrow> ('w \<times> node, unit) go" where
  "put_attempt nc = (\<lambda>(w, n). case nc_Update nc n w of
      (w', n', None) \<Rightarrow> ((w', n'), OK ())
    | (w', n', Some err) \<Rightarrow> ((w', n'), Err err))"

definition Unschedulable :: "'w node_iface \<Rightarrow> string \<Rightarrow> bool \<Rightarrow> ('w, unit) go" where
  "Unschedulable nc name sched w = (case nc_Get nc name w of
      (w1, Inl err) \<Rightarrow> (w1, Err (Errorf ''failed to get node %q: %v'' [name] [err]))
    | (w1, Inr n) \<Rightarrow>
        (case RetryOnConflict DefaultBackoff (put_attempt nc) (w1, n\<lparr>SpecUnschedulable := sched\<rparr>) of
           ((w2, _), OK _) \<Rightarrow> (w2, OK ())
         | ((w2, _), Err err) \<Rightarrow>
             (w2, Err (Errorf ''unable to set 'Unschedulable' property of node %q to %t: %v''
                         [name, if sched then ''true'' else ''false''] [err]))
         | ((w2, _), Panic p) \<Rightarrow> (w2, Panic p)))"

text \<open>\<open>NodeAnnotationCondition\<close>: only \<open>Modified\<close> events are handled.\<close>

definition NodeAnnotationCondition :: "Selector \<Rightarrow> watch_event \<Rightarrow> bool result" where
  "NodeAnnotationCondition selector event = (case ev_Type event of
      Modified \<Rightarrow> (case ev_Object event of
          NodeObject n \<Rightarrow> OK (Matches selector (Annotations n))
        | OtherObject _ \<Rightarrow> Panic TypeAssertion)
    | _ \<Rightarrow> Err (Errorf ''unhandled watch case for %#v'' [] []))"

section \<open>The contract of the mutating closures\<close>

locale metadata_mutation =
  fixes f :: node_mutation
  assumes keeps: "f n = Inr n' \<Longrightarrow>
      Name n' = Name n \<and> ResourceVersion n' = ResourceVersion n \<and>
      SpecUnschedulable n' = SpecUnschedulable n \<and> OSImage n' = OSImage n"
    and panics: "f n = Inl p \<Longrightarrow> p = NilMapWrite \<and> (Labels n = None \<or> Annotations n = None)"
begin

lemma keeps_name: "f n = Inr n' \<Longrightarrow> Name n' = Name n"
  using keeps by blast

lemma keeps_version: "f n = Inr n' \<Longrightarrow> ResourceVersion n' = ResourceVersion n"
  using keeps by blast

lemma total_on_maps: "Labels n \<noteq> None \<Longrightarrow> Annotations n \<noteq> None \<Longrightarrow> \<exists>n'. f n = Inr n'"
  by (cases "f n") (auto dest: panics)

end

lemma map_sum_Inr_iff: "map_sum id g s = Inr y \<longleftrightarrow> (\<exists>x. s = Inr x \<and> y = g x)"
  by (cases s) auto

lemma map_sum_Inl_iff: "map_sum id g s = Inl p \<longleftrightarrow> s = Inl p"
  by (cases s) auto

lemmas mutation_defs =
  set_labels_def set_annotations_def set_annotations_labels_def
  delete_labels_def delete_annotations_def

lemmas mutation_simps =
  map_sum_Inr_iff map_sum_Inl_iff gomap_set_all_Inl_iff

interpretation setLabels: metadata_mutation "set_labels m"
  by unfold_locales (auto simp: mutation_defs mutation_simps)

interpretation setAnnotations: metadata_mutation "set_annotations m"
  by unfold_locales (auto simp: mutation_defs mutation_simps)

interpretation setAnnotationsLabels: metadata_mutation "set_annotations_labels a l"
  by unfold_locales (auto simp: mutation_defs mutation_simps split: sum.splits)

interpretation deleteLabels: metadata_mutation "delete_labels ks"
  by unfold_locales (auto simp: mutation_defs)

interpretation deleteAnnotations: metadata_mutation "delete_annotations ks"
  by unfold_locales (auto simp: mutation_defs)

section \<open>Lemmas\<close>

lemma UpdateNodeRetry_OK_iff:
  "UpdateNodeRetry nc name f w = (w', OK u) \<longleftrightarrow>
   conflict_retry (Suc (Suc (Suc (Suc 0)))) (update_attempt nc name f) None w = (w', OK u)"
  by (simp add: UpdateNodeRetry_def RetryOnConflict_eq del: conflict_retry.simps)

lemma RetryOnError_get_attempt_OK:
  "\<exists>w' n. RetryOnError backoff (get_attempt nc name) (w, None) = ((w', n), OK ())"
proof -
  have loop: "\<exists>w' n r. ExponentialBackoff_loop k (error_condition (get_attempt nc name)) (w, m) = ((w', n), r)
      \<and> (r = OK () \<or> r = Err ErrWaitTimeout)" for k m
    by (induction k arbitrary: w m)
       (auto simp: error_condition_def get_attempt_def split: prod.splits sum.splits)
  show ?thesis
    using loop [of "nat (Steps backoff)" None]
    by (auto simp: RetryOnError_def ExponentialBackoff_def)
qed

end
