(* ===== verification/Kube_Client.thy ===== *)
theory Kube_Client
  imports Nodes
begin

text \<open>
  The part of \<open>kubernetes.Interface\<close> that the program uses beside nodes: daemon sets
  (\<open>ExtensionsV1beta1().DaemonSets(ns)\<close>) and pods (\<open>CoreV1().Pods(ns)\<close>), with the
  fields of \<open>v1beta1.DaemonSet\<close> that \<open>src/pkg/operator/agent_manager.go\<close> fills in. As for
  nodes, the server is a parameter: every operation is a function of the state of the world.
\<close>

record Toleration =
  tol_Key :: string
  tol_Operator :: string
  tol_Effect :: string

record VolumeMount =
  vm_Name :: string
  vm_MountPath :: string

record EnvVar =
  env_Name :: string
  env_FieldPath :: string

record Container =
  ctr_Name :: string
  ctr_Image :: string
  ctr_Command :: "string list"
  ctr_VolumeMounts :: "VolumeMount list"
  ctr_Env :: "EnvVar list"

record Volume =
  vol_Name :: string
  vol_HostPath :: string

record PodTemplate =
  tmpl_Name :: string
  tmpl_Labels :: gomap
  tmpl_Annotations :: gomap
  tmpl_Tolerations :: "Toleration list"
  tmpl_Containers :: "Container list"
  tmpl_Volumes :: "Volume list"

record DaemonSet =
  ds_Name :: string
  ds_Labels :: gomap
  ds_Annotations :: gomap
  ds_MatchLabels :: gomap
  ds_Template :: PodTemplate

text \<open>
  The first argument of every operation is the namespace; lists take the selector as the
  string that is sent to the server.
\<close>

record 'w kube_iface =
  ds_List :: "string \<Rightarrow> string \<Rightarrow> 'w \<Rightarrow> 'w \<times> (goerr + DaemonSet list)"
  ds_Get :: "string \<Rightarrow> string \<Rightarrow> 'w \<Rightarrow> 'w \<times> (goerr + DaemonSet)"
  ds_Create :: "string \<Rightarrow> DaemonSet \<Rightarrow> 'w \<Rightarrow> 'w \<times> goerr option"
  ds_Delete :: "string \<Rightarrow> string \<Rightarrow> 'w \<Rightarrow> 'w \<times> goerr option"
  pods_List :: "string \<Rightarrow> string \<Rightarrow> 'w \<Rightarrow> 'w \<times> (goerr + pod list)"
  pods_Get :: "string \<Rightarrow> string \<Rightarrow> 'w \<Rightarrow> 'w \<times> pod \<times> goerr option"
  pods_Delete :: "string \<Rightarrow> string \<Rightarrow> 'w \<Rightarrow> 'w \<times> goerr option"

text \<open>\<open>&v1.Pod{}\<close>, which client-go returns beside an error of \<open>Get\<close>.\<close>

definition zero_pod :: pod where
  "zero_pod = \<lparr>PodName = [], Namespace = [], UID = [], PodAnnotations = None, OwnerReferences = []\<rparr>"

text \<open>The result of a call that returns an error value only.\<close>

definition go_error :: "('w \<Rightarrow> 'w \<times> goerr option) \<Rightarrow> ('w, unit) go" where
  "go_error m = (\<lambda>w. case m w of
      (w', None) \<Rightarrow> (w', OK ())
    | (w', Some e) \<Rightarrow> (w', Err e))"

lemma go_error_OK_iff [simp]: "go_error m w = (w', OK u) \<longleftrightarrow> m w = (w', None)"
  by (auto simp: go_error_def split: prod.splits option.splits)

end
