(* ===== verification/Drain.thy ===== *)
theory Drain
  imports Kube_Client
begin

text \<open>
  Which pods are deleted before a reboot: \<open>src/pkg/drain/drain.go\<close>. Every pod of the node is a
  candidate, except mirror pods and pods whose daemon set exists.

  \<open>drained\<close> is the specification, over the answers of an API that does not change while the
  pods are examined (\<open>daemonset_lookup\<close>).
\<close>

section \<open>Definitions\<close>

definition ConfigMirrorAnnotationKey :: string where
  "ConfigMirrorAnnotationKey = ''kubernetes.io/config.mirror''"

definition DaemonSet_kind :: string where
  "DaemonSet_kind = ''DaemonSet''"

definition getDaemonsetController ::
  "'w kube_iface \<Rightarrow> string \<Rightarrow> owner_reference \<Rightarrow> ('w, DaemonSet) go" where
  "getDaemonsetController kc ns controllerRef =
     (if Kind controllerRef = DaemonSet_kind then go_call (ds_Get kc ns (OwnerName controllerRef))
      else (\<lambda>w. (w, Err (Errorf ''Unknown controller kind %q'' [Kind controllerRef] []))))"

fun owner_loop :: "'w kube_iface \<Rightarrow> pod \<Rightarrow> owner_reference list \<Rightarrow> ('w, DaemonSet) go" where
  "owner_loop kc p [] w = (w, Err (Errorf ''pod %q has no existing damonset owner'' [PodName p] []))"
| "owner_loop kc p (ownerRef # refs) w =
     (if Kind ownerRef = DaemonSet_kind then
        (case getDaemonsetController kc (Namespace p) ownerRef w of
           (w', OK ds) \<Rightarrow> (w', OK ds)
         | (w', Err err) \<Rightarrow>
             if \<not> IsNotFound err
             then (w', Err (Errorf ''failed to get controller of pod %q: %v'' [PodName p] [err]))
             else owner_loop kc p refs w'
         | (w', Panic pn) \<Rightarrow> (w', Panic pn))
      else owner_loop kc p refs w)"

definition getOwnerDaemonset :: "'w kube_iface \<Rightarrow> pod \<Rightarrow> ('w, DaemonSet) go" where
  "getOwnerDaemonset kc p w =
     (if OwnerReferences p = [] then (w, Err (Errorf ''pod %q has no owner objects'' [PodName p] []))
      else owner_loop kc p (OwnerReferences p) w)"

fun pods_loop :: "'w kube_iface \<Rightarrow> pod list \<Rightarrow> pod list \<Rightarrow> ('w, pod list) go" where
  "pods_loop kc pods [] w = (w, OK pods)"
| "pods_loop kc pods (p # ps) w =
     (if gomap_has (PodAnnotations p) ConfigMirrorAnnotationKey then pods_loop kc pods ps w
      else (case getOwnerDaemonset kc p w of
          (w', OK _) \<Rightarrow> pods_loop kc pods ps w'
        | (w', Err _) \<Rightarrow> pods_loop kc (pods @ [p]) ps w'
        | (w', Panic pn) \<Rightarrow> (w', Panic pn)))"

definition GetPodsForDeletion :: "'w kube_iface \<Rightarrow> string \<Rightarrow> ('w, pod list) go" where
  "GetPodsForDeletion kc node =
     go_bind (go_call (pods_List kc [] (selector_String (SelectorFromSet (Some [(''spec.nodeName'', node)])))))
       (\<lambda>podList. pods_loop kc [] podList)"

section \<open>The specification\<close>

text \<open>The first reference to a daemon set that is not known to be gone decides.\<close>

fun owner_exists :: "(string \<Rightarrow> string \<Rightarrow> goerr + DaemonSet) \<Rightarrow> string \<Rightarrow> owner_reference list \<Rightarrow> bool" where
  "owner_exists get ns [] = False"
| "owner_exists get ns (ref # refs) =
     (if Kind ref \<noteq> DaemonSet_kind then owner_exists get ns refs
      else (case get ns (OwnerName ref) of
          Inr ds \<Rightarrow> True
        | Inl err \<Rightarrow> IsNotFound err \<and> owner_exists get ns refs))"

definition drained :: "(string \<Rightarrow> string \<Rightarrow> goerr + DaemonSet) \<Rightarrow> pod \<Rightarrow> bool" where
  "drained get p \<longleftrightarrow> \<not> gomap_has (PodAnnotations p) ConfigMirrorAnnotationKey \<and>
     \<not> owner_exists get (Namespace p) (OwnerReferences p)"

locale daemonset_lookup =
  fixes kc :: "'w kube_iface" and get :: "string \<Rightarrow> string \<Rightarrow> goerr + DaemonSet" and ok :: "'w \<Rightarrow> bool"
  assumes get_law: "ok w \<Longrightarrow> \<exists>w'. ds_Get kc ns name w = (w', get ns name) \<and> ok w'"
begin

lemma owner_loop_eq:
  "ok w \<Longrightarrow> \<exists>w' r. owner_loop kc p refs w = (w', r) \<and> ok w' \<and> (\<forall>pn. r \<noteq> Panic pn) \<and>
     (is_OK r \<longleftrightarrow> owner_exists get (Namespace p) refs)"
proof (induction refs arbitrary: w)
  case (Cons ref refs)
  obtain w1 where w1: "ds_Get kc (Namespace p) (OwnerName ref) w = (w1, get (Namespace p) (OwnerName ref))" "ok w1"
    using get_law [OF Cons.prems] by blast
  from w1(1) have c: "getDaemonsetController kc (Namespace p) ref w =
      (case get (Namespace p) (OwnerName ref) of Inl e \<Rightarrow> (w1, Err e) | Inr d \<Rightarrow> (w1, OK d))"
    if "Kind ref = DaemonSet_kind"
    using that by (simp add: getDaemonsetController_def go_call_def)
  show ?case
    using Cons.IH [OF Cons.prems] Cons.IH [OF w1(2)] c w1(2)
    by (cases "get (Namespace p) (OwnerName ref)") auto
qed simp

lemma getOwnerDaemonset_eq:
  "ok w \<Longrightarrow> \<exists>w' r. getOwnerDaemonset kc p w = (w', r) \<and> ok w' \<and> (\<forall>pn. r \<noteq> Panic pn) \<and>
     (is_OK r \<longleftrightarrow> owner_exists get (Namespace p) (OwnerReferences p))"
  using owner_loop_eq [of w p "OwnerReferences p"] by (auto simp: getOwnerDaemonset_def)

lemma pods_loop_eq: "ok w \<Longrightarrow> \<exists>w'. pods_loop kc pods ps w = (w', OK (pods @ filter (drained get) ps)) \<and> ok w'"
proof (induction ps arbitrary: pods w)
  case (Cons p ps)
  obtain w1 r where r: "getOwnerDaemonset kc p w = (w1, r)" "ok w1" "\<forall>pn. r \<noteq> Panic pn"
    "is_OK r \<longleftrightarrow> owner_exists get (Namespace p) (OwnerReferences p)"
    using getOwnerDaemonset_eq [OF Cons.prems] by blast
  show ?case
    using Cons.IH [OF Cons.prems, of pods] Cons.IH [OF r(2), of pods] Cons.IH [OF r(2), of "pods @ [p]"] r
    by (cases r) (auto simp: drained_def)
qed simp

lemma GetPodsForDeletion_OK:
  assumes "pods_List kc [] (''spec.nodeName='' @ EscapeValue node) w = (w1, Inr ps)" "ok w1"
  shows "\<exists>w'. GetPodsForDeletion kc node w = (w', OK (filter (drained get) ps))"
proof -
  have sel: "selector_String (SelectorFromSet (Some [(''spec.nodeName'', node)])) = ''spec.nodeName='' @ EscapeValue node"
    by (simp add: SelectorFromSet_def)
  from pods_loop_eq [OF assms(2), of "[]" ps] show ?thesis
    unfolding GetPodsForDeletion_def sel using assms(1) by (auto simp: go_bind_def go_call_def)
qed

end

text \<open>An API that answers from tables.\<close>

definition table_kube ::
  "(string \<Rightarrow> goerr + pod list) \<Rightarrow> (string \<Rightarrow> string \<Rightarrow> goerr + DaemonSet) \<Rightarrow> unit kube_iface" where
  "table_kube pods get = \<lparr>ds_List = (\<lambda>_ _ w. (w, Inr [])), ds_Get = (\<lambda>ns name w. (w, get ns name)),
     ds_Create = (\<lambda>_ _ w. (w, None)), ds_Delete = (\<lambda>_ _ w. (w, None)),
     pods_List = (\<lambda>_ sel w. (w, pods sel)),
     pods_Get = (\<lambda>_ name w. (w, zero_pod, Some (StatusError StatusReasonNotFound name))),
     pods_Delete = (\<lambda>_ _ w. (w, None))\<rparr>"

interpretation tables: daemonset_lookup "table_kube pods get" get "\<lambda>_. True"
  by unfold_locales (simp add: table_kube_def)

section \<open>Properties\<close>

text \<open>
  C20: The pods to delete are exactly the pods of the node that are neither mirror pods nor kept by a
  daemon set, in the order of the list and without any being dropped or repeated. A daemon set keeps
  a pod if it is the first owner of that kind that is not reported missing, and its look-up succeeds.
\<close>

theorem pods_for_deletion_exact:
  assumes "daemonset_lookup kube get ok"
    and "pods_List kube [] (''spec.nodeName='' @ EscapeValue node) w = (w1, Inr ps)" "ok w1"
  shows "\<exists>w'. GetPodsForDeletion kube node w = (w', OK (filter (drained get) ps))"
  by (rule daemonset_lookup.GetPodsForDeletion_OK [OF assms])

definition owned_pod :: "string \<Rightarrow> string \<Rightarrow> string list \<Rightarrow> pod" where
  "owned_pod name ns owners =
     \<lparr>PodName = name, Namespace = ns, UID = ''uid-'' @ name, PodAnnotations = None,
      OwnerReferences = map (\<lambda>o'. \<lparr>Kind = DaemonSet_kind, OwnerName = o'\<rparr>) owners\<rparr>"

definition mirror_pod :: pod where
  "mirror_pod = (owned_pod ''m'' ''default'' [])\<lparr>PodAnnotations := Some [ConfigMirrorAnnotationKey \<mapsto> ''x'']\<rparr>"

text \<open>Daemon set \<open>here\<close> exists, \<open>gone\<close> does not, and asking for any other fails.\<close>

definition some_daemonset :: DaemonSet where
  "some_daemonset = \<lparr>ds_Name = ''here'', ds_Labels = None, ds_Annotations = None, ds_MatchLabels = None,
     ds_Template = \<lparr>tmpl_Name = [], tmpl_Labels = None, tmpl_Annotations = None, tmpl_Tolerations = [],
       tmpl_Containers = [], tmpl_Volumes = []\<rparr>\<rparr>"

definition daemonset_table :: "string \<Rightarrow> string \<Rightarrow> goerr + DaemonSet" where
  "daemonset_table ns name =
     (if name = ''here'' then Inr some_daemonset
      else if name = ''gone'' then Inl (StatusError StatusReasonNotFound name)
      else Inl (StatusError ''Timeout'' name))"

definition example_pods :: "pod list" where
  "example_pods = [owned_pod ''lone'' ''default'' [], mirror_pod, owned_pod ''kept'' ''default'' [''gone'', ''here''],
     owned_pod ''orphan'' ''default'' [''gone'']]"

theorem pods_for_deletion_exact_witness:
  "\<exists>w'. GetPodsForDeletion (table_kube (\<lambda>_. Inr example_pods) daemonset_table) ''n1'' () =
     (w', OK [owned_pod ''lone'' ''default'' [], owned_pod ''orphan'' ''default'' [''gone'']])"
proof -
  let ?kube = "table_kube (\<lambda>_. Inr example_pods) daemonset_table"
  have "pods_List ?kube [] (''spec.nodeName='' @ EscapeValue ''n1'') () = ((), Inr example_pods)"
    by (simp add: table_kube_def)
  from pods_for_deletion_exact [OF tables.daemonset_lookup_axioms this]
  have "\<exists>w'. GetPodsForDeletion ?kube ''n1'' () = (w', OK (filter (drained daemonset_table) example_pods))" by simp
  moreover have "filter (drained daemonset_table) example_pods =
      [owned_pod ''lone'' ''default'' [], owned_pod ''orphan'' ''default'' [''gone'']]"
    by (simp add: example_pods_def mirror_pod_def owned_pod_def drained_def daemonset_table_def DaemonSet_kind_def
        IsNotFound_def StatusReasonNotFound_def)
  ultimately show ?thesis by simp
qed

text \<open>
  C40: A daemon set that cannot be looked up counts as missing. If the look-up of the first daemon-set
  owner of a pod fails with any error, also one that says nothing about its existence, the pod is a
  candidate for deletion.
\<close>

theorem failed_lookup_deletes_pod:
  assumes "daemonset_lookup kube get ok"
    and "pods_List kube [] (''spec.nodeName='' @ EscapeValue node) w = (w1, Inr ps)" "ok w1"
    and "p \<in> set ps" "\<not> gomap_has (PodAnnotations p) ConfigMirrorAnnotationKey"
    and "OwnerReferences p = ref # refs" "Kind ref = DaemonSet_kind"
    and "get (Namespace p) (OwnerName ref) = Inl e" "\<not> IsNotFound e"
  shows "\<exists>w' pods. GetPodsForDeletion kube node w = (w', OK pods) \<and> p \<in> set pods"
proof -
  have "drained get p" using assms(5-9) by (simp add: drained_def)
  with daemonset_lookup.GetPodsForDeletion_OK [OF assms(1-3)] assms(4) show ?thesis by auto
qed

theorem failed_lookup_deletes_pod_witness:
  "\<exists>w' pods. GetPodsForDeletion
     (table_kube (\<lambda>_. Inr [owned_pod ''d'' ''default'' [''slow'', ''here'']]) daemonset_table) ''n1'' () = (w', OK pods) \<and>
     owned_pod ''d'' ''default'' [''slow'', ''here''] \<in> set pods"
proof -
  let ?p = "owned_pod ''d'' ''default'' [''slow'', ''here'']"
  let ?kube = "table_kube (\<lambda>_. Inr [?p]) daemonset_table"
  have "pods_List ?kube [] (''spec.nodeName='' @ EscapeValue ''n1'') () = ((), Inr [?p])"
    by (simp add: table_kube_def)
  from failed_lookup_deletes_pod [OF tables.daemonset_lookup_axioms this TrueI, of ?p
      "\<lparr>Kind = DaemonSet_kind, OwnerName = ''slow''\<rparr>" "[\<lparr>Kind = DaemonSet_kind, OwnerName = ''here''\<rparr>]"
      "StatusError ''Timeout'' ''slow''"]
  show ?thesis
    by (simp add: owned_pod_def daemonset_table_def IsNotFound_def StatusReasonNotFound_def)
qed

end
