(* ===== verification/Version_Info.thy ===== *)
theory Version_Info
  imports Prelude
begin

text \<open>
  The version of the operating system, read from configuration files: the second half of
  \<open>src/pkg/k8sutil/metadata.go\<close>. A file is what opening and reading it gives
  (\<open>file_outcome\<close>); the file system is a parameter.

  \<open>bufio.Scanner\<close> with its default split function yields the lines of the text without their
  ends (a trailing carriage return included) and gives up at the first line of
  \<open>bufio.MaxScanTokenSize\<close> bytes or more. \<open>splitNewlineEnv_lines\<close> shows that what is written
  line by line is read back, with later lines taking precedence.
\<close>

section \<open>Definitions\<close>

datatype file_outcome =
    OpenError goerr
  | ReadError goerr
  | Contents string

type_synonym file_system = "string \<Rightarrow> file_outcome"

definition updateConfPath :: string where
  "updateConfPath = ''/usr/share/coreos/update.conf''"

definition updateConfOverridePath :: string where
  "updateConfOverridePath = ''/etc/coreos/update.conf''"

definition osReleasePath :: string where
  "osReleasePath = ''/etc/os-release''"

definition newline :: char where
  "newline = CHR 0x0A"

definition MaxScanTokenSize :: int where
  "MaxScanTokenSize = 65536"

definition dropCR :: "string \<Rightarrow> string" where
  "dropCR s = (if s \<noteq> [] \<and> last s = CHR 0x0D then butlast s else s)"

text \<open>The texts a scanner yields.\<close>

definition scan_lines :: "string \<Rightarrow> string list" where
  "scan_lines s =
     (let pieces = Split newline s;
          lines = (if last pieces = [] then butlast pieces else pieces)
      in map dropCR (takeWhile (\<lambda>l. int (length l) < MaxScanTokenSize) lines))"

definition env_line :: "(string \<rightharpoonup> string) \<Rightarrow> string \<Rightarrow> (string \<rightharpoonup> string)" where
  "env_line m text = (case SplitN (CHR ''='') 2 text of
      [k, v] \<Rightarrow> m(k \<mapsto> v)
    | _ \<Rightarrow> m)"

definition splitNewlineEnv :: "(string \<rightharpoonup> string) \<Rightarrow> string \<Rightarrow> (string \<rightharpoonup> string)" where
  "splitNewlineEnv m envs = foldl env_line m (scan_lines envs)"

record VersionInfo =
  vi_Name :: string
  vi_ID :: string
  vi_Group :: string
  vi_Version :: string

text \<open>
  \<open>getUpdateMap\<close>. When the override cannot be opened the code goes on with a nil file; reading
  it fails, so the override is skipped, as it is when reading fails.
\<close>

definition getUpdateMap :: "file_system \<Rightarrow> goerr + (string \<rightharpoonup> string)" where
  "getUpdateMap fs = (case fs updateConfPath of
      OpenError err \<Rightarrow> Inl err
    | ReadError err \<Rightarrow> Inl err
    | Contents b \<Rightarrow>
        (let infomap = splitNewlineEnv Map.empty b
         in case fs updateConfOverridePath of
              Contents b' \<Rightarrow> Inr (splitNewlineEnv infomap b')
            | _ \<Rightarrow> Inr infomap))"

definition getReleaseMap :: "file_system \<Rightarrow> goerr + (string \<rightharpoonup> string)" where
  "getReleaseMap fs = (case fs osReleasePath of
      OpenError err \<Rightarrow> Inl err
    | ReadError err \<Rightarrow> Inl err
    | Contents b \<Rightarrow> Inr (splitNewlineEnv Map.empty b))"

definition GetVersionInfo :: "file_system \<Rightarrow> goerr + VersionInfo" where
  "GetVersionInfo fs = (case getUpdateMap fs of
      Inl err \<Rightarrow> Inl (Errorf ''unable to get update configuration: %v'' [] [err])
    | Inr updateconf \<Rightarrow> (case getReleaseMap fs of
          Inl err \<Rightarrow> Inl (Errorf ''unable to get os release info: %v'' [] [err])
        | Inr osrelease \<Rightarrow>
            Inr \<lparr>vi_Name = gomap_get (Some osrelease) ''NAME'',
                 vi_ID = gomap_get (Some osrelease) ''ID'',
                 vi_Group = gomap_get (Some updateconf) ''GROUP'',
                 vi_Version = gomap_get (Some osrelease) ''VERSION''\<rparr>))"

section \<open>Reading back what was written\<close>

text \<open>A pair that fits on one line, and the text that has one pair per line.\<close>

definition env_pair :: "string \<times> string \<Rightarrow> bool" where
  "env_pair kv \<longleftrightarrow> newline \<notin> set (fst kv) \<and> CHR ''='' \<notin> set (fst kv) \<and> newline \<notin> set (snd kv) \<and>
     (snd kv = [] \<or> last (snd kv) \<noteq> CHR 0x0D) \<and>
     int (length (fst kv) + length (snd kv) + 1) < MaxScanTokenSize"

definition env_text :: "(string \<times> string) list \<Rightarrow> string" where
  "env_text kvs = concat (map (\<lambda>(k, v). k @ ''='' @ v @ [newline]) kvs)"

lemma dropCR_pair: "env_pair (k, v) \<Longrightarrow> dropCR (k @ ''='' @ v) = k @ ''='' @ v"
  by (auto simp: dropCR_def env_pair_def)

lemma Split_env_text:
  assumes "list_all env_pair kvs"
  shows "Split newline (env_text kvs) = map (\<lambda>(k, v). k @ ''='' @ v) kvs @ [[]]"
  using assms
proof (induction kvs)
  case (Cons kv kvs)
  obtain k v where [simp]: "kv = (k, v)" by fastforce
  have "newline \<notin> set (k @ ''='' @ v)" using Cons.prems by (auto simp: env_pair_def newline_def)
  from Split_Cons_plain [OF this, of "env_text kvs"] Cons show ?case
    by (simp add: env_text_def)
qed (simp add: env_text_def)

lemma scan_env_text:
  assumes "list_all env_pair kvs"
  shows "scan_lines (env_text kvs) = map (\<lambda>(k, v). k @ ''='' @ v) kvs"
proof -
  let ?ls = "map (\<lambda>(k, v). k @ ''='' @ v) kvs"
  have "takeWhile (\<lambda>l. int (length l) < MaxScanTokenSize) ?ls = ?ls"
    using assms by (auto simp: takeWhile_eq_all_conv list_all_iff env_pair_def)
  moreover have "map dropCR ?ls = ?ls"
    using assms dropCR_pair by (fastforce simp: list_all_iff)
  ultimately have "map dropCR (takeWhile (\<lambda>l. int (length l) < MaxScanTokenSize) ?ls) = ?ls" by metis
  then show ?thesis
    unfolding scan_lines_def Split_env_text [OF assms] Let_def by simp
qed

lemma splitNewlineEnv_lines:
  assumes "list_all env_pair kvs"
  shows "splitNewlineEnv m (env_text kvs) = m ++ map_of (rev kvs)"
proof -
  have "foldl env_line m (map (\<lambda>(k, v). k @ ''='' @ v) kvs) = m ++ map_of (rev kvs)"
    using assms
  proof (induction kvs arbitrary: m)
    case (Cons kv kvs)
    obtain k v where [simp]: "kv = (k, v)" by fastforce
    from Cons.prems have "SplitN (CHR ''='') 2 (k @ CHR ''='' # v) = [k, v]"
      by (intro SplitN_pair) (simp add: env_pair_def)
    then show ?case using Cons by (simp add: env_line_def map_add_def fun_eq_iff split: option.split)
  qed simp
  with scan_env_text [OF assms] show ?thesis by (simp add: splitNewlineEnv_def)
qed

lemma splitNewlineEnv_add: "splitNewlineEnv m s = m ++ splitNewlineEnv Map.empty s"
proof -
  have "foldl env_line m ls = m ++ foldl env_line Map.empty ls" for ls
  proof (induction ls rule: rev_induct)
    case (snoc l ls)
    then show ?case by (auto simp: env_line_def split: list.split)
  qed simp
  then show ?thesis by (simp add: splitNewlineEnv_def)
qed

section \<open>Properties\<close>

text \<open>
  C33: Reading an environment file undoes writing it: a text with one \<open>KEY=VALUE\<close> pair per line, read over
  a map \<open>m\<close>, gives \<open>m\<close> overridden by the pairs, where of several lines with one key the last counts.
\<close>

theorem env_file_roundtrip:
  assumes "list_all env_pair kvs"
  shows "splitNewlineEnv m (env_text kvs) = m ++ map_of (rev kvs)"
  by (rule splitNewlineEnv_lines [OF assms])

theorem env_file_roundtrip_witness:
  "splitNewlineEnv Map.empty (env_text [(''ID'', ''coreos''), (''ID'', ''a=b'')]) ''ID'' = Some ''a=b''"
proof -
  have "list_all env_pair [(''ID'', ''coreos''), (''ID'', ''a=b'')]"
    by (simp add: env_pair_def newline_def MaxScanTokenSize_def)
  from env_file_roundtrip [OF this] show ?thesis by simp
qed

text \<open>
  The version information. It is read when \<open>update.conf\<close> and \<open>os-release\<close> are readable, the group
  from the override if that is readable and sets it and from \<open>update.conf\<close> otherwise; an unreadable
  override is skipped. If one of the other two files cannot be read there is an error and no
  information.
\<close>

lemma version_info_sources:
  "(case GetVersionInfo fs of
      Inl _ \<Rightarrow> (\<forall>u r. \<not> (fs updateConfPath = Contents u \<and> fs osReleasePath = Contents r))
    | Inr vi \<Rightarrow> (\<exists>u r. fs updateConfPath = Contents u \<and> fs osReleasePath = Contents r \<and>
        vi_ID vi = gomap_get (Some (splitNewlineEnv Map.empty r)) ''ID'' \<and>
        vi_Version vi = gomap_get (Some (splitNewlineEnv Map.empty r)) ''VERSION'' \<and>
        vi_Group vi = (case fs updateConfOverridePath of
            Contents v \<Rightarrow> (case splitNewlineEnv Map.empty v ''GROUP'' of
                Some g \<Rightarrow> g | None \<Rightarrow> gomap_get (Some (splitNewlineEnv Map.empty u)) ''GROUP'')
          | _ \<Rightarrow> gomap_get (Some (splitNewlineEnv Map.empty u)) ''GROUP'')))"
proof -
  have over: "splitNewlineEnv (splitNewlineEnv Map.empty u) v k =
      (case splitNewlineEnv Map.empty v k of Some g \<Rightarrow> Some g | None \<Rightarrow> splitNewlineEnv Map.empty u k)" for u v k
    by (subst splitNewlineEnv_add) (simp add: map_add_def split: option.split)
  show ?thesis
    by (cases "fs updateConfPath"; cases "fs osReleasePath"; cases "fs updateConfOverridePath")
       (auto simp: GetVersionInfo_def getUpdateMap_def getReleaseMap_def Let_def over split: option.split)
qed

end
