(* ===== verification/Update_Engine.thy ===== *)
theory Update_Engine
  imports Prelude "HOL-Library.Word"
begin

text \<open>
  The D-Bus client of update_engine, \<open>src/pkg/updateengine\<close>. The bus is not part of the
  repository: the answer to \<open>GetStatus\<close> and the signals that arrive are inputs, and the operations on a
  connection are parameters (\<open>dbus_lib\<close>). A message body
  is a list of values of any D-Bus type; \<open>NewStatus\<close> reads it by position and asserts the types,
  so a body of another shape panics. A float64 is kept as its 64 bits.

  The goroutine \<open>ReceiveStatuses\<close> is the list of the statuses it puts on its channel together
  with the panic that ends it, if any. The watcher of \<open>src/pkg/agent/agent.go\<close> that reads the
  channel is in \<open>Agent\<close>.
\<close>

section \<open>Definitions\<close>

datatype dbus_value =
    DInt64 "64 word"
  | DFloat64 "64 word"
  | DString string
  | DOther string

record Status =
  LastCheckedTime :: "64 word"
  Progress :: "64 word"
  CurrentOperation :: string
  NewVersion :: string
  NewSize :: "64 word"

definition zero_Status :: Status where
  "zero_Status = \<lparr>LastCheckedTime = 0, Progress = 0, CurrentOperation = [], NewVersion = [], NewSize = 0\<rparr>"

definition UpdateStatusIdle :: string where
  "UpdateStatusIdle = ''UPDATE_STATUS_IDLE''"

definition UpdateStatusCheckingForUpdate :: string where
  "UpdateStatusCheckingForUpdate = ''UPDATE_STATUS_CHECKING_FOR_UPDATE''"

definition UpdateStatusUpdateAvailable :: string where
  "UpdateStatusUpdateAvailable = ''UPDATE_STATUS_UPDATE_AVAILABLE''"

definition UpdateStatusDownloading :: string where
  "UpdateStatusDownloading = ''UPDATE_STATUS_DOWNLOADING''"

definition UpdateStatusVerifying :: string where
  "UpdateStatusVerifying = ''UPDATE_STATUS_VERIFYING''"

definition UpdateStatusFinalizing :: string where
  "UpdateStatusFinalizing = ''UPDATE_STATUS_FINALIZING''"

definition UpdateStatusUpdatedNeedReboot :: string where
  "UpdateStatusUpdatedNeedReboot = ''UPDATE_STATUS_UPDATED_NEED_REBOOT''"

definition UpdateStatusReportingErrorEvent :: string where
  "UpdateStatusReportingErrorEvent = ''UPDATE_STATUS_REPORTING_ERROR_EVENT''"

text \<open>\<open>body[i].(T)\<close>: the index is checked first, then the type.\<close>

definition body_at :: "dbus_value list \<Rightarrow> nat \<Rightarrow> gopanic + dbus_value" where
  "body_at body i = (if i < length body then Inr (body ! i) else Inl IndexOutOfRange)"

definition as_int64 :: "gopanic + dbus_value \<Rightarrow> gopanic + 64 word" where
  "as_int64 v = (case v of Inl p \<Rightarrow> Inl p | Inr (DInt64 i) \<Rightarrow> Inr i | Inr _ \<Rightarrow> Inl TypeAssertion)"

definition as_float64 :: "gopanic + dbus_value \<Rightarrow> gopanic + 64 word" where
  "as_float64 v = (case v of Inl p \<Rightarrow> Inl p | Inr (DFloat64 x) \<Rightarrow> Inr x | Inr _ \<Rightarrow> Inl TypeAssertion)"

definition as_string :: "gopanic + dbus_value \<Rightarrow> gopanic + string" where
  "as_string v = (case v of Inl p \<Rightarrow> Inl p | Inr (DString s) \<Rightarrow> Inr s | Inr _ \<Rightarrow> Inl TypeAssertion)"

definition NewStatus :: "dbus_value list \<Rightarrow> gopanic + Status" where
  "NewStatus body =
     (case as_int64 (body_at body 0) of Inl p \<Rightarrow> Inl p | Inr checked \<Rightarrow>
      (case as_float64 (body_at body 1) of Inl p \<Rightarrow> Inl p | Inr progress \<Rightarrow>
       (case as_string (body_at body 2) of Inl p \<Rightarrow> Inl p | Inr operation \<Rightarrow>
        (case as_string (body_at body 3) of Inl p \<Rightarrow> Inl p | Inr version \<Rightarrow>
         (case as_int64 (body_at body 4) of Inl p \<Rightarrow> Inl p | Inr nsize \<Rightarrow>
            Inr \<lparr>LastCheckedTime = checked, Progress = progress, CurrentOperation = operation,
                 NewVersion = version, NewSize = nsize\<rparr>)))))"

text \<open>\<open>GetStatus\<close>: an error of the call comes with the zero status.\<close>

definition GetStatus :: "goerr + dbus_value list \<Rightarrow> gopanic + Status \<times> goerr option" where
  "GetStatus call = (case call of
      Inl err \<Rightarrow> Inr (zero_Status, Some err)
    | Inr body \<Rightarrow> (case NewStatus body of Inl p \<Rightarrow> Inl p | Inr st \<Rightarrow> Inr (st, None)))"

text \<open>The statuses sent for a sequence of signals, up to the stop or a panic.\<close>

fun receive_loop :: "(Status \<Rightarrow> bool) \<Rightarrow> dbus_value list list \<Rightarrow> Status list \<times> gopanic option" where
  "receive_loop send [] = ([], None)"
| "receive_loop send (body # signals) = (case NewStatus body of
      Inl p \<Rightarrow> ([], Some p)
    | Inr st \<Rightarrow> (case receive_loop send signals of
          (sent, p) \<Rightarrow> (if send st then st # sent else sent, p)))"

definition ReceiveStatuses ::
  "goerr + dbus_value list \<Rightarrow> dbus_value list list \<Rightarrow> Status list \<times> gopanic option" where
  "ReceiveStatuses call signals = (case GetStatus call of
      Inl p \<Rightarrow> ([], Some p)
    | Inr (st, _) \<Rightarrow> (case receive_loop (\<lambda>_. True) signals of (sent, p) \<Rightarrow> (st # sent, p)))"

definition RebootNeededSignal :: "dbus_value list list \<Rightarrow> Status list \<times> gopanic option" where
  "RebootNeededSignal signals =
     receive_loop (\<lambda>s. CurrentOperation s = UpdateStatusUpdatedNeedReboot) signals"

section \<open>Bodies and statuses\<close>

text \<open>The body update_engine sends for a status.\<close>

definition status_body :: "Status \<Rightarrow> dbus_value list" where
  "status_body s = [DInt64 (LastCheckedTime s), DFloat64 (Progress s), DString (CurrentOperation s),
     DString (NewVersion s), DInt64 (NewSize s)]"

lemma NewStatus_status_body: "NewStatus (status_body s @ rest) = Inr s"
  by (simp add: NewStatus_def status_body_def body_at_def as_int64_def as_float64_def as_string_def)

lemmas as_Inr_iff = as_int64_def as_float64_def as_string_def

lemma body_at_Inr: "body_at body i = Inr v \<longleftrightarrow> i < length body \<and> body ! i = v"
  by (auto simp: body_at_def)

lemma NewStatus_Inr_iff: "NewStatus body = Inr s \<longleftrightarrow> (\<exists>rest. body = status_body s @ rest)"
proof
  assume ok: "NewStatus body = Inr s"
  from ok have len: "4 < length body"
    by (auto simp: NewStatus_def as_Inr_iff body_at_Inr split: sum.splits dbus_value.splits)
  then obtain a b c d e rest where "body = a # b # c # d # e # rest"
    by (auto simp: numeral_eq_Suc Suc_le_eq [symmetric] Suc_le_length_iff)
  with ok show "\<exists>rest. body = status_body s @ rest"
    by (auto simp: NewStatus_def as_Inr_iff body_at_def status_body_def split: dbus_value.splits)
qed (auto simp: NewStatus_status_body)

lemma receive_loop_bodies:
  "receive_loop send (map status_body ss) = (filter send ss, None)"
  using NewStatus_status_body [of _ "[]"] by (induction ss) auto

lemma receive_loop_prefix:
  assumes "NewStatus bad = Inl p"
  shows "receive_loop send (map status_body ss @ bad # rest) = (filter send ss, Some p)"
  using assms NewStatus_status_body [of _ "[]"] by (induction ss) auto

section \<open>The connection to the bus\<close>

text \<open>
  The operations of \<open>github.com/godbus/dbus\<close> that the client uses. A connection is a number; the
  calls of an object are given by the connection, the path of the object and the method.
\<close>

record 'w dbus_lib =
  SystemBusPrivate :: "'w \<Rightarrow> 'w \<times> (goerr + nat)"
  conn_Auth :: "nat \<Rightarrow> 'w \<Rightarrow> 'w \<times> goerr option"
  conn_Hello :: "nat \<Rightarrow> 'w \<Rightarrow> 'w \<times> goerr option"
  conn_AddMatch :: "nat \<Rightarrow> string \<Rightarrow> 'w \<Rightarrow> 'w \<times> goerr option"
  conn_Signal :: "nat \<Rightarrow> 'w \<Rightarrow> 'w"
  conn_Close :: "nat \<Rightarrow> 'w \<Rightarrow> 'w \<times> goerr option"
  object_Call :: "nat \<Rightarrow> string \<Rightarrow> string \<Rightarrow> 'w \<Rightarrow> 'w \<times> (goerr + dbus_value list)"

definition dbusPath :: string where
  "dbusPath = ''/com/coreos/update1''"

definition dbusInterface :: string where
  "dbusInterface = ''com.coreos.update1.Manager''"

definition dbusMember :: string where
  "dbusMember = ''StatusUpdate''"

record Client =
  client_conn :: "nat option"
  client_object :: string

text \<open>A single quote, and the rule for the signals the client wants.\<close>

definition signal_match :: string where
  "signal_match =
     (let q = [CHR 0x27] in ''type='' @ q @ ''signal'' @ q @ '',interface='' @ q @ dbusInterface @ q @
        '',member='' @ q @ dbusMember @ q)"

definition updateengine_New :: "'w dbus_lib \<Rightarrow> 'w \<Rightarrow> 'w \<times> (goerr + Client)" where
  "updateengine_New lib w = (case SystemBusPrivate lib w of
      (w1, Inl err) \<Rightarrow> (w1, Inl err)
    | (w1, Inr conn) \<Rightarrow> (case conn_Auth lib conn w1 of
          (w2, Some err) \<Rightarrow> (fst (conn_Close lib conn w2), Inl err)
        | (w2, None) \<Rightarrow> (case conn_Hello lib conn w2 of
              (w3, Some err) \<Rightarrow> (fst (conn_Close lib conn w3), Inl err)
            | (w3, None) \<Rightarrow> (case conn_AddMatch lib conn signal_match w3 of
                  (w4, Some err) \<Rightarrow> (w4, Inl err)
                | (w4, None) \<Rightarrow>
                    (conn_Signal lib conn w4, Inr \<lparr>client_conn = Some conn, client_object = dbusPath\<rparr>)))))"

definition Client_Close :: "'w dbus_lib \<Rightarrow> Client \<Rightarrow> 'w \<Rightarrow> 'w \<times> goerr option" where
  "Client_Close lib c w = (case client_conn c of Some conn \<Rightarrow> conn_Close lib conn w | None \<Rightarrow> (w, None))"

text \<open>A call on a client without a connection dereferences a nil pointer.\<close>

definition client_call :: "'w dbus_lib \<Rightarrow> Client \<Rightarrow> string \<Rightarrow> ('w, dbus_value list) go" where
  "client_call lib c method w = (case client_conn c of
      None \<Rightarrow> (w, Panic NilDeref)
    | Some conn \<Rightarrow> (case object_Call lib conn (client_object c) (dbusInterface @ method) w of
          (w', Inl err) \<Rightarrow> (w', Err err)
        | (w', Inr body) \<Rightarrow> (w', OK body)))"

definition AttemptUpdate :: "'w dbus_lib \<Rightarrow> Client \<Rightarrow> ('w, unit) go" where
  "AttemptUpdate lib c = go_bind (client_call lib c ''.AttemptUpdate'') (\<lambda>_. go_return ())"

text \<open>What the client relies on: which connections are open, and who opens and closes them.\<close>

locale bus =
  fixes lib :: "'w dbus_lib" and conns :: "'w \<Rightarrow> nat set"
  assumes bus_open: "SystemBusPrivate lib w = (w', r) \<Longrightarrow>
      (case r of Inl e \<Rightarrow> conns w' = conns w | Inr c \<Rightarrow> c \<notin> conns w \<and> conns w' = insert c (conns w))"
    and bus_auth: "conns (fst (conn_Auth lib c w)) = conns w"
    and bus_hello: "conns (fst (conn_Hello lib c w)) = conns w"
    and bus_match: "conns (fst (conn_AddMatch lib c rule w)) = conns w"
    and bus_signal: "conns (conn_Signal lib c w) = conns w"
    and bus_close: "conns (fst (conn_Close lib c w)) = conns w - {c}"
begin

lemma New_conns:
  assumes "updateengine_New lib w = (w', r)"
  shows "case r of
      Inr c \<Rightarrow> (\<exists>conn. client_conn c = Some conn \<and> conn \<notin> conns w \<and> conns w' = insert conn (conns w))
    | Inl e \<Rightarrow> conns w' = conns w \<or>
        (\<exists>conn w1. conn_AddMatch lib conn signal_match w1 = (w', Some e) \<and> conns w' = insert conn (conns w))"
proof -
  obtain w1 s where open': "SystemBusPrivate lib w = (w1, s)" by fastforce
  show ?thesis
  proof (cases s)
    case (Inl e)
    with open' bus_open [OF open'] assms show ?thesis by (auto simp: updateengine_New_def)
  next
    case (Inr conn)
    with bus_open [OF open'] have c: "conn \<notin> conns w" "conns w1 = insert conn (conns w)" by simp_all
    obtain w2 a where a: "conn_Auth lib conn w1 = (w2, a)" by fastforce
    obtain w3 h where h: "conn_Hello lib conn w2 = (w3, h)" by fastforce
    obtain w4 m where m: "conn_AddMatch lib conn signal_match w3 = (w4, m)" by fastforce
    have "conns w2 = insert conn (conns w)" "conns w3 = insert conn (conns w)" "conns w4 = insert conn (conns w)"
      using bus_auth [of conn w1] bus_hello [of conn w2] bus_match [of conn signal_match w3] c a h m by simp_all
    note w = this
    show ?thesis
    proof (cases "a = None \<and> h = None")
      case False
      with assms open' Inr a h have "\<exists>e v. r = Inl e \<and> w' = fst (conn_Close lib conn v) \<and> v \<in> {w2, w3}"
        by (cases a; cases h) (auto simp: updateengine_New_def)
      with w c bus_close show ?thesis by fastforce
    next
      case True
      with assms open' Inr a h m have *: "(w', r) = (case m of Some err \<Rightarrow> (w4, Inl err)
          | None \<Rightarrow> (conn_Signal lib conn w4, Inr \<lparr>client_conn = Some conn, client_object = dbusPath\<rparr>))"
        by (auto simp: updateengine_New_def split: option.split)
      show ?thesis
      proof (cases m)
        case None
        with * w c bus_signal [of conn w4] show ?thesis by simp
      next
        case (Some e)
        with m * w have "conn_AddMatch lib conn signal_match w3 = (w', Some e)" "conns w' = insert conn (conns w)" "r = Inl e"
          by simp_all
        then show ?thesis by auto
      qed
    qed
  qed
qed

lemma New_Close:
  assumes "updateengine_New lib w = (w', Inr c)"
  shows "conns (fst (Client_Close lib c w')) = conns w"
  using New_conns [OF assms] bus_close by (auto simp: Client_Close_def)

end

text \<open>A bus that numbers its connections and fails as its script says.\<close>

record bus_store =
  bs_conns :: "nat list"
  bs_faults :: "goerr option list"
  bs_calls :: "string list"

definition bs_next :: "bus_store \<Rightarrow> bus_store \<times> goerr option" where
  "bs_next w = (case bs_faults w of [] \<Rightarrow> (w, None) | f # fs \<Rightarrow> (w\<lparr>bs_faults := fs\<rparr>, f))"

definition bus_lib :: "bus_store dbus_lib" where
  "bus_lib = \<lparr>
     SystemBusPrivate = (\<lambda>w. case bs_next w of
        (w', Some e) \<Rightarrow> (w', Inl e)
      | (w', None) \<Rightarrow> (let c = Suc (fold max (bs_conns w') 0) in (w'\<lparr>bs_conns := c # bs_conns w'\<rparr>, Inr c))),
     conn_Auth = (\<lambda>_. bs_next), conn_Hello = (\<lambda>_. bs_next), conn_AddMatch = (\<lambda>_ _. bs_next),
     conn_Signal = (\<lambda>_ w. w),
     conn_Close = (\<lambda>c w. (w\<lparr>bs_conns := removeAll c (bs_conns w)\<rparr>, None)),
     object_Call = (\<lambda>_ path method w. case bs_next w of
        (w', Some e) \<Rightarrow> (w', Inl e)
      | (w', None) \<Rightarrow> (w'\<lparr>bs_calls := bs_calls w' @ [method]\<rparr>, Inr []))\<rparr>"

lemma fold_max_ge: "m \<le> fold max xs (m :: nat)"
  by (induction xs arbitrary: m) (auto intro: order_trans [OF max.cobounded2])

lemma fold_max_fresh: "Suc (fold max xs 0) \<notin> set (xs :: nat list)"
proof -
  have "x \<in> set xs \<Longrightarrow> x \<le> fold max xs m" for x m and xs :: "nat list"
    by (induction xs arbitrary: m) (auto intro: order_trans [OF _ fold_max_ge])
  from this [of "Suc (fold max xs 0)" xs 0] show ?thesis by auto
qed

interpretation bus_store: bus bus_lib "\<lambda>w. set (bs_conns w)"
  by unfold_locales
     (auto simp: bus_lib_def bs_next_def Let_def fold_max_fresh split: list.splits option.splits prod.splits)

section \<open>Properties\<close>

text \<open>
  C31: \<open>NewStatus\<close> reads back what update_engine sends, and nothing else: it yields the status \<open>s\<close> exactly
  for the bodies that begin with the five values of \<open>s\<close>; every other body panics.
\<close>

theorem status_body_roundtrip:
  "(NewStatus body = Inr s) = (\<exists>rest. body = status_body s @ rest)"
  by (rule NewStatus_Inr_iff)

text \<open>
  The status channel. After an answered \<open>GetStatus\<close> and well-formed signals, \<open>ReceiveStatuses\<close> has
  sent the initial status and then every signalled one in order; a malformed signal ends the
  goroutine with a panic after the statuses before it. A failed \<open>GetStatus\<close> sends the zero status first.
\<close>

lemma receive_statuses_sequence:
  "ReceiveStatuses (Inr (status_body s)) (map status_body ss) = (s # ss, None) \<and>
   ReceiveStatuses (Inl err) (map status_body ss) = (zero_Status # ss, None) \<and>
   (NewStatus bad = Inl p \<longrightarrow>
     ReceiveStatuses (Inr (status_body s)) (map status_body ss @ bad # rest) = (s # ss, Some p))"
  using NewStatus_status_body [of s "[]"] receive_loop_prefix [of bad p "\<lambda>_. True" ss rest]
  by (simp add: ReceiveStatuses_def GetStatus_def receive_loop_bodies)

text \<open>
  C32: Connections. \<open>New\<close> opens one connection, which \<open>Close\<close> releases; when authentication or the hello
  fails it is closed again. The one exception: if the match rule cannot be added, the error is
  returned with the connection left open.
\<close>

theorem engine_connections:
  assumes "bus lib conns" "updateengine_New lib w = (w', r)"
  shows "case r of
      Inr c \<Rightarrow> conns (fst (Client_Close lib c w')) = conns w
    | Inl e \<Rightarrow> conns w' = conns w \<or>
        (\<exists>conn w1. conn_AddMatch lib conn signal_match w1 = (w', Some e) \<and> conns w' = insert conn (conns w))"
  using bus.New_conns [OF assms] bus.New_Close [OF assms(1), of w w'] assms(2) by (cases r) auto

definition unmatched_bus :: bus_store where
  "unmatched_bus = \<lparr>bs_conns = [4], bs_faults = [None, None, None, Some (ErrorString ''denied'')], bs_calls = []\<rparr>"

theorem engine_connections_witness:
  "bs_conns (fst (updateengine_New bus_lib unmatched_bus)) = [5, 4] \<and>
   (\<exists>conn w1. conn_AddMatch bus_lib conn signal_match w1 =
      (fst (updateengine_New bus_lib unmatched_bus), Some (ErrorString ''denied'')))"
proof -
  have r: "updateengine_New bus_lib unmatched_bus =
      (fst (updateengine_New bus_lib unmatched_bus), Inl (ErrorString ''denied''))"
    and c: "bs_conns (fst (updateengine_New bus_lib unmatched_bus)) = [5, 4]"
    by (simp_all add: updateengine_New_def unmatched_bus_def bus_lib_def bs_next_def)
  from engine_connections [OF bus_store.bus_axioms r] c show ?thesis
    by (auto simp: unmatched_bus_def)
qed

end
