(* ===== verification/Agent.thy ===== *)
theory Agent
  imports Node_Updates Drain Version_Info Update_Engine
begin

text \<open>
  The update-agent, \<open>src/pkg/agent/agent.go\<close>: it tells the operator that its node needs a
  reboot, waits for the permission, drains the node and reboots it.

  A run may wait forever (for the operator, for the API server, for a pod without a grace
  period), so the loops take fuel and a run is an option: \<open>None\<close> says that the fuel was not
  enough. \<open>Until\<close> and \<open>WaitFor\<close> are the loops of \<open>watch/until.go\<close> and \<open>wait/wait.go\<close> in
  \<open>src/vendor/k8s.io/apimachinery/pkg\<close>.

  Outside of the repository, and parameters: the API server, the files, the ticks of a poller
  (\<open>ag_poller\<close>, within \<open>poller_ticks\<close>), the start of the goroutine \<open>watchUpdateStatus\<close> (its body is modelled on its own; beside \<open>process\<close> it is one of
  the parties that change the cluster), the request to reboot and the sleep after it. The pods
  that are being deleted are waited for in parallel; the waits only read, and they are modelled
  one after the other.
\<close>

section \<open>Runs\<close>

type_synonym ('w, 'a) run = "'w \<Rightarrow> ('w \<times> 'a result) option"

definition run_go :: "('w, 'a) go \<Rightarrow> ('w, 'a) run" where
  "run_go m w = Some (m w)"

definition run_bind :: "('w, 'a) run \<Rightarrow> ('a \<Rightarrow> ('w, 'b) run) \<Rightarrow> ('w, 'b) run" where
  "run_bind m f w = (case m w of
      None \<Rightarrow> None
    | Some (w', OK a) \<Rightarrow> f a w'
    | Some (w', Err e) \<Rightarrow> Some (w', Err e)
    | Some (w', Panic p) \<Rightarrow> Some (w', Panic p))"

definition run_wrap :: "(goerr \<Rightarrow> goerr) \<Rightarrow> ('w, 'a) run \<Rightarrow> ('w, 'a) run" where
  "run_wrap g m w = map_option (\<lambda>(w', r). (w', case r of Err e \<Rightarrow> Err (g e) | _ \<Rightarrow> r)) (m w)"

text \<open>A step whose error is only logged.\<close>

definition run_logged :: "('w, unit) run \<Rightarrow> ('w, unit) run" where
  "run_logged m w = map_option (\<lambda>(w', r). (w', case r of Err e \<Rightarrow> OK () | _ \<Rightarrow> r)) (m w)"

fun run_each :: "('a \<Rightarrow> ('w, unit) run) \<Rightarrow> 'a list \<Rightarrow> ('w, unit) run" where
  "run_each f [] w = Some (w, OK ())"
| "run_each f (x # xs) w = run_bind (f x) (\<lambda>_. run_each f xs) w"

section \<open>Waiting\<close>

text \<open>\<open>watch.Until\<close> with one condition. The world knows when the timer fires.\<close>

fun Until :: "nat \<Rightarrow> 'w node_iface \<Rightarrow> nat \<Rightarrow> (watch_event \<Rightarrow> bool result) \<Rightarrow> ('w, watch_event) run" where
  "Until 0 nc watcher condition w = None"
| "Until (Suc fuel) nc watcher condition w = (case nc_Next nc watcher w of
      (w', Closed) \<Rightarrow> Some (w', Err ErrWatchClosed)
    | (w', TimedOut) \<Rightarrow> Some (w', Err ErrWaitTimeout)
    | (w', Received event) \<Rightarrow> (case condition event of
          Err err \<Rightarrow> Some (w', Err err)
        | Panic p \<Rightarrow> Some (w', Panic p)
        | OK done \<Rightarrow> if done then Some (w', OK event) else Until fuel nc watcher condition w'))"

text \<open>
  How often \<open>poller(interval, timeout)\<close> can tick before its timeout: for ever if the timeout is 0,
  otherwise at most once per interval (a tick is dropped when the receiver is not ready). The
  timeout is an int64, in nanoseconds.
\<close>

definition poller_ticks :: "int \<Rightarrow> 64 word \<Rightarrow> nat option \<Rightarrow> bool" where
  "poller_ticks interval timeout ticks \<longleftrightarrow> (case ticks of
      None \<Rightarrow> timeout = 0
    | Some n \<Rightarrow> timeout \<noteq> 0 \<and> int n * interval \<le> max 0 (sint timeout))"

text \<open>
  \<open>WaitFor\<close> driven by a poller that ticks \<open>n\<close> times before its timeout (\<open>Some n\<close>), or for ever
  (\<open>None\<close>, a timeout of 0). The condition is tried at each tick and once more at the timeout.
\<close>

fun WaitFor :: "nat \<Rightarrow> nat option \<Rightarrow> ('w, bool) go \<Rightarrow> ('w, unit) run" where
  "WaitFor 0 ticks fn w = None"
| "WaitFor (Suc fuel) ticks fn w = (case fn w of
      (w', Err err) \<Rightarrow> Some (w', Err err)
    | (w', Panic p) \<Rightarrow> Some (w', Panic p)
    | (w', OK ok) \<Rightarrow>
        if ok then Some (w', OK ())
        else (case ticks of
            None \<Rightarrow> WaitFor fuel None fn w'
          | Some 0 \<Rightarrow> Some (w', Err ErrWaitTimeout)
          | Some (Suc n) \<Rightarrow> WaitFor fuel (Some n) fn w'))"

definition PollImmediate :: "nat \<Rightarrow> nat option \<Rightarrow> ('w, bool) go \<Rightarrow> ('w, unit) run" where
  "PollImmediate fuel ticks condition w = (case condition w of
      (w', Err err) \<Rightarrow> Some (w', Err err)
    | (w', Panic p) \<Rightarrow> Some (w', Panic p)
    | (w', OK done) \<Rightarrow> if done then Some (w', OK ()) else WaitFor fuel ticks condition w')"

definition PollUntil :: "nat \<Rightarrow> ('w, bool) go \<Rightarrow> ('w, unit) run" where
  "PollUntil fuel condition = WaitFor fuel None condition"

section \<open>The agent\<close>

record 'w Klocksmith =
  ag_node :: string
  ag_kc :: "'w kube_iface"
  ag_nc :: "'w node_iface"
  ag_reapTimeout :: "64 word"
  ag_files :: file_system
  ag_poller :: "64 word \<Rightarrow> nat option"
  ag_spawn :: "'w \<Rightarrow> 'w"
  ag_Reboot :: "'w \<Rightarrow> 'w"
  ag_sleep :: "'w \<Rightarrow> 'w"

definition defaultPollInterval :: int where
  "defaultPollInterval = 10000000000"

definition shouldRebootSelector :: Selector where
  "shouldRebootSelector = SelectorFromSet (Some
     [(AnnotationOkToReboot, constTrue), (AnnotationRebootNeeded, constTrue)])"

definition info_labels :: "VersionInfo \<Rightarrow> (string \<times> string) list" where
  "info_labels vi = [(LabelID, vi_ID vi), (LabelGroup, vi_Group vi), (LabelVersion, vi_Version vi)]"

definition setInfoLabels :: "'w Klocksmith \<Rightarrow> ('w, unit) go" where
  "setInfoLabels k w = (case GetVersionInfo (ag_files k) of
      Inl err \<Rightarrow> (w, Err (Errorf ''failed to get version info: %v'' [] [err]))
    | Inr vi \<Rightarrow> SetNodeLabels (ag_nc k) (ag_node k) (info_labels vi) w)"

definition watch_selector :: "string \<Rightarrow> string" where
  "watch_selector name = selector_String (OneTermEqualSelector ''metadata.name'' name)"

text \<open>The part \<open>waitForOkToReboot\<close> and \<open>waitForNotOkToReboot\<close> have in common.\<close>

definition wait_for_node ::
  "nat \<Rightarrow> 'w Klocksmith \<Rightarrow> (node \<Rightarrow> bool) \<Rightarrow> (watch_event \<Rightarrow> bool result) \<Rightarrow>
   (watch_event \<Rightarrow> gopanic option) \<Rightarrow> ('w, unit) run" where
  "wait_for_node fuel k ready condition sanity w = (case nc_Get (ag_nc k) (ag_node k) w of
      (w1, Inl err) \<Rightarrow> Some (w1, Err (Errorf ''failed to get self node (%q): %v'' [ag_node k] [err]))
    | (w1, Inr n) \<Rightarrow>
        if ready n then Some (w1, OK ())
        else (case nc_Watch (ag_nc k) (watch_selector (Name n)) (ResourceVersion n) w1 of
            (w2, Inl err) \<Rightarrow> Some (w2, Err (Errorf ''failed to watch self node (%q): %v'' [ag_node k] [err]))
          | (w2, Inr watcher) \<Rightarrow>
              run_bind
                (run_wrap (\<lambda>err. Errorf ''waiting for annotation %q failed: %v'' [AnnotationOkToReboot] [err])
                   (Until fuel (ag_nc k) watcher condition))
                (\<lambda>ev w3. case sanity ev of Some p \<Rightarrow> Some (w3, Panic p) | None \<Rightarrow> Some (w3, OK ())) w2))"

definition ok_sanity :: "watch_event \<Rightarrow> gopanic option" where
  "ok_sanity ev = (case ev_Object ev of
      OtherObject _ \<Rightarrow> Some (PanicMsg ''event contains a non-*api.Node object'')
    | NodeObject no \<Rightarrow>
        if gomap_get (Annotations no) AnnotationOkToReboot \<noteq> constTrue
        then Some (PanicMsg ''event did not contain annotation expected'') else None)"

definition waitForOkToReboot :: "nat \<Rightarrow> 'w Klocksmith \<Rightarrow> ('w, unit) run" where
  "waitForOkToReboot fuel k = wait_for_node fuel k
     (\<lambda>n. gomap_get (Annotations n) AnnotationOkToReboot = constTrue \<and>
          gomap_get (Annotations n) AnnotationRebootNeeded = constTrue)
     (NodeAnnotationCondition shouldRebootSelector) ok_sanity"

definition not_ok_condition :: "watch_event \<Rightarrow> bool result" where
  "not_ok_condition event = (case ev_Type event of
      WatchError \<Rightarrow> Err (Errorf ''error watching node: %v'' [] [])
    | Deleted \<Rightarrow> Err (ErrorString ''our node was deleted while we were waiting for ready'')
    | _ \<Rightarrow> (case ev_Object event of
          OtherObject _ \<Rightarrow> Panic TypeAssertion
        | NodeObject no \<Rightarrow> OK (gomap_get (Annotations no) AnnotationOkToReboot \<noteq> constTrue)))"

definition not_ok_sanity :: "watch_event \<Rightarrow> gopanic option" where
  "not_ok_sanity ev = (case ev_Object ev of
      OtherObject _ \<Rightarrow> Some TypeAssertion
    | NodeObject no \<Rightarrow>
        if gomap_get (Annotations no) AnnotationOkToReboot = constTrue
        then Some (PanicMsg ''event did not contain annotation expected'') else None)"

definition waitForNotOkToReboot :: "nat \<Rightarrow> 'w Klocksmith \<Rightarrow> ('w, unit) run" where
  "waitForNotOkToReboot fuel k = wait_for_node fuel k
     (\<lambda>n. gomap_get (Annotations n) AnnotationOkToReboot \<noteq> constTrue) not_ok_condition not_ok_sanity"

text \<open>\<open>for { err := k.waitForOkToReboot(); if err == nil { break } }\<close>; every attempt has fuel.\<close>

fun await_ok :: "nat \<Rightarrow> nat \<Rightarrow> 'w Klocksmith \<Rightarrow> ('w, unit) run" where
  "await_ok 0 fuel k w = None"
| "await_ok (Suc attempts) fuel k w = (case waitForOkToReboot fuel k w of
      None \<Rightarrow> None
    | Some (w', OK _) \<Rightarrow> Some (w', OK ())
    | Some (w', Err _) \<Rightarrow> await_ok attempts fuel k w'
    | Some (w', Panic p) \<Rightarrow> Some (w', Panic p))"

section \<open>Draining\<close>

definition kube_system :: string where
  "kube_system = ''kube-system''"

definition getPodsForDeletion :: "'w Klocksmith \<Rightarrow> ('w, pod list) go" where
  "getPodsForDeletion k =
     go_bind (go_wrap (\<lambda>err. Errorf ''failed to get list of pods for deletion: %v'' [] [err])
               (GetPodsForDeletion (ag_kc k) (ag_node k)))
       (\<lambda>pods. go_return (FilterPods pods (\<lambda>p. if Namespace p = kube_system then False else True)))"

definition delete_pod :: "'w Klocksmith \<Rightarrow> pod \<Rightarrow> ('w, unit) run" where
  "delete_pod k p = run_logged (run_go (go_error (pods_Delete (ag_kc k) (Namespace p) (PodName p))))"

text \<open>
  The condition of \<open>waitForPodDeletion\<close>: \<open>p != nil\<close> always holds, because \<open>Get\<close> returns a
  pod beside an error, too.
\<close>

definition pod_gone :: "'w Klocksmith \<Rightarrow> pod \<Rightarrow> ('w, bool) go" where
  "pod_gone k p w = (case pods_Get (ag_kc k) (Namespace p) (PodName p) w of
      (w', q, err) \<Rightarrow>
        (w', OK ((case err of Some e \<Rightarrow> IsNotFound e | None \<Rightarrow> False) \<or> UID q \<noteq> UID p)))"

definition waitForPodDeletion :: "nat \<Rightarrow> 'w Klocksmith \<Rightarrow> pod \<Rightarrow> ('w, unit) run" where
  "waitForPodDeletion fuel k p = PollImmediate fuel (ag_poller k (ag_reapTimeout k)) (pod_gone k p)"

section \<open>The whole run\<close>

definition start_annotations :: "(string \<times> string) list" where
  "start_annotations = [(AnnotationRebootInProgress, constFalse), (AnnotationRebootNeeded, constFalse)]"

definition start_labels :: "(string \<times> string) list" where
  "start_labels = [(LabelRebootNeeded, constFalse)]"

text \<open>A node pointer that is dereferenced.\<close>

definition deref :: "node option \<Rightarrow> ('w, node) go" where
  "deref n w = (w, case n of None \<Rightarrow> Panic NilDeref | Some x \<Rightarrow> OK x)"

definition get_node :: "'w Klocksmith \<Rightarrow> ('w, node) run" where
  "get_node k = run_bind (run_go (GetNodeRetry (ag_nc k) (ag_node k))) (\<lambda>n. run_go (deref n))"

definition make_schedulable :: "'w Klocksmith \<Rightarrow> ('w, unit) run" where
  "make_schedulable k =
     run_bind (run_go (Unschedulable (ag_nc k) (ag_node k) False)) (\<lambda>_.
     run_go (SetNodeAnnotations (ag_nc k) (ag_node k) [(AnnotationAgentMadeUnschedulable, constFalse)]))"

definition progress_annotations :: "bool \<Rightarrow> (string \<times> string) list" where
  "progress_annotations alreadyUnschedulable =
     (AnnotationRebootInProgress, constTrue) #
     (if alreadyUnschedulable then [] else [(AnnotationAgentMadeUnschedulable, constTrue)])"

definition drain_node :: "nat \<Rightarrow> 'w Klocksmith \<Rightarrow> ('w, unit) run" where
  "drain_node fuel k =
     run_bind (get_node k) (\<lambda>node.
     let alreadyUnschedulable = SpecUnschedulable node in
     run_bind (run_go (SetNodeAnnotations (ag_nc k) (ag_node k) (progress_annotations alreadyUnschedulable))) (\<lambda>_.
     run_bind (if \<not> alreadyUnschedulable then run_go (Unschedulable (ag_nc k) (ag_node k) True)
               else run_go (go_return ())) (\<lambda>_.
     run_bind (run_go (getPodsForDeletion k)) (\<lambda>pods.
     run_bind (run_each (delete_pod k) pods) (\<lambda>_.
     run_each (\<lambda>p. run_logged (waitForPodDeletion fuel k p)) pods)))))"

definition agent_start :: "nat \<Rightarrow> 'w Klocksmith \<Rightarrow> ('w, unit) run" where
  "agent_start fuel k =
     run_bind (run_wrap (\<lambda>err. Errorf ''failed to set node info: %v'' [] [err]) (run_go (setInfoLabels k))) (\<lambda>_.
     run_bind (get_node k) (\<lambda>node.
     let makeSchedulable = gomap_get (Annotations node) AnnotationAgentMadeUnschedulable = constTrue in
     run_bind (run_go (SetNodeAnnotationsLabels (ag_nc k) (ag_node k) start_annotations start_labels)) (\<lambda>_.
     run_bind (waitForNotOkToReboot fuel k) (\<lambda>_.
     if makeSchedulable then make_schedulable k else run_go (go_return ())))))"

definition agent_process :: "nat \<Rightarrow> 'w Klocksmith \<Rightarrow> ('w, unit) run" where
  "agent_process fuel k =
     run_bind (agent_start fuel k) (\<lambda>_ w.
     run_bind (await_ok fuel fuel k) (\<lambda>_.
     run_bind (drain_node fuel k) (\<lambda>_ w'. Some (ag_sleep k (ag_Reboot k w'), OK ()))) (ag_spawn k w))"

definition agent_Run :: "nat \<Rightarrow> 'w Klocksmith \<Rightarrow> ('w, unit) run" where
  "agent_Run fuel k = run_logged (agent_process fuel k)"

section \<open>Status updates\<close>

definition print_int :: "int \<Rightarrow> string" where
  "print_int i = (if i < 0 then ''-'' @ print_nat (nat (- i)) else print_nat (nat i))"

definition status_annotations :: "Status \<Rightarrow> (string \<times> string) list" where
  "status_annotations s =
     [(AnnotationStatus, CurrentOperation s),
      (AnnotationLastCheckedTime, print_int (sint (LastCheckedTime s))),
      (AnnotationNewVersion, NewVersion s)] @
     (if CurrentOperation s = UpdateStatusUpdatedNeedReboot then [(AnnotationRebootNeeded, constTrue)] else [])"

definition status_labels :: "Status \<Rightarrow> (string \<times> string) list" where
  "status_labels s =
     (if CurrentOperation s = UpdateStatusUpdatedNeedReboot then [(LabelRebootNeeded, constTrue)] else [])"

definition status_attempt :: "'w Klocksmith \<Rightarrow> Status \<Rightarrow> ('w, bool) go" where
  "status_attempt k s w =
     (case SetNodeAnnotationsLabels (ag_nc k) (ag_node k) (status_annotations s) (status_labels s) w of
        (w', OK _) \<Rightarrow> (w', OK True)
      | (w', Err _) \<Rightarrow> (w', OK False)
      | (w', Panic p) \<Rightarrow> (w', Panic p))"

definition updateStatusCallback :: "nat \<Rightarrow> 'w Klocksmith \<Rightarrow> Status \<Rightarrow> ('w, unit) run" where
  "updateStatusCallback fuel k s = PollUntil fuel (status_attempt k s)"

text \<open>The loop of \<open>watchUpdateStatus\<close> over the statuses it receives.\<close>

fun watch_loop :: "(Status \<Rightarrow> ('w, unit) run) \<Rightarrow> string \<Rightarrow> Status list \<Rightarrow> ('w, unit) run" where
  "watch_loop update oldOperation [] w = Some (w, OK ())"
| "watch_loop update oldOperation (status # ss) w =
     (if CurrentOperation status \<noteq> oldOperation
      then run_bind (update status) (\<lambda>_. watch_loop update (CurrentOperation status) ss) w
      else watch_loop update oldOperation ss w)"

definition watchUpdateStatus ::
  "(Status \<Rightarrow> ('w, unit) run) \<Rightarrow> goerr + dbus_value list \<Rightarrow> dbus_value list list \<Rightarrow> ('w, unit) run" where
  "watchUpdateStatus update call signals w =
     (case ReceiveStatuses call signals of
        (ss, None) \<Rightarrow> watch_loop update [] ss w
      | (ss, Some p) \<Rightarrow> run_bind (watch_loop update [] ss) (\<lambda>_ w'. Some (w', Panic p)) w)"

section \<open>Lemmas\<close>

lemma run_bind_OK_iff:
  "run_bind m f w = Some (w'', OK b) \<longleftrightarrow> (\<exists>w' a. m w = Some (w', OK a) \<and> f a w' = Some (w'', OK b))"
  by (auto simp: run_bind_def split: option.splits prod.splits result.splits)

lemma run_wrap_OK_iff: "run_wrap g m w = Some (w', OK a) \<longleftrightarrow> m w = Some (w', OK a)"
proof (cases "m w")
  case (Some x)
  then show ?thesis by (cases x; cases "snd x") (auto simp: run_wrap_def)
qed (simp add: run_wrap_def)

lemma run_bind_return: "run_bind (\<lambda>w. Some (w, OK a)) f w = f a w"
  by (simp add: run_bind_def)

lemma run_bind_assoc: "run_bind (run_bind m f) g w = run_bind m (\<lambda>a. run_bind (f a) g) w"
  by (simp add: run_bind_def split: option.split prod.split result.split)

text \<open>How a successful end is read off an evaluated run.\<close>

lemma ended_OK:
  fixes m :: "('w \<times> unit result) option"
  assumes "map_option (\<lambda>(w, r). (is_OK r, f w)) m = Some (True, z)"
  shows "\<exists>w. m = Some (w, OK ()) \<and> f w = z"
  using assms by (auto simp: is_OK_unit)

subsection \<open>Loops\<close>

text \<open>A poller with a timeout ends, and more fuel changes nothing.\<close>

lemma WaitFor_returns: "n < fuel \<Longrightarrow> \<exists>w' r. WaitFor fuel (Some n) fn w = Some (w', r)"
proof (induction fuel arbitrary: n w)
  case (Suc fuel)
  obtain w' r where "fn w = (w', r)" by fastforce
  with Suc show ?case by (cases r; cases n) auto
qed simp

lemma WaitFor_mono: "WaitFor fuel ticks fn w = Some x \<Longrightarrow> WaitFor (fuel + d) ticks fn w = Some x"
proof (induction fuel arbitrary: ticks w)
  case (Suc fuel)
  then show ?case
    by (auto split: prod.splits result.splits if_splits option.splits nat.splits)
qed simp

lemma waitForPodDeletion_returns:
  assumes "ag_poller k (ag_reapTimeout k) = Some n" and "n < fuel"
  shows "\<exists>w' r. waitForPodDeletion fuel k p w = Some (w', r)"
  using WaitFor_returns [OF assms(2), of "pod_gone k p"] assms(1)
  by (auto simp: waitForPodDeletion_def PollImmediate_def split: prod.split result.split)

lemma Until_OK:
  "Until fuel nc watcher condition w = Some (w', OK ev) \<Longrightarrow>
     condition ev = OK True \<and> (\<exists>w1. nc_Next nc watcher w1 = (w', Received ev))"
  by (induction fuel arbitrary: w)
     (auto split: prod.splits watch_signal.splits result.splits if_splits)

lemma Until_returns:
  fixes m :: "'w \<Rightarrow> nat"
  assumes "\<And>w w' ev. nc_Next nc watcher w = (w', Received ev) \<Longrightarrow> m w' < m w"
  shows "n < fuel \<Longrightarrow> m w \<le> n \<Longrightarrow> \<exists>w' r. Until fuel nc watcher condition w = Some (w', r)"
proof (induction fuel arbitrary: w n)
  case (Suc fuel)
  obtain w' sig where next': "nc_Next nc watcher w = (w', sig)" by fastforce
  show ?case
  proof (cases sig)
    case (Received ev)
    with next' assms have "m w' < m w" by blast
    with Suc.prems have "m w' \<le> n - 1" "n - 1 < fuel" by auto
    with Suc.IH have "\<exists>w'' r. Until fuel nc watcher condition w' = Some (w'', r)" by blast
    with next' Received show ?thesis by (auto split: result.split)
  qed (use next' in auto)
qed simp

subsection \<open>The permission to reboot\<close>

definition may_reboot :: "node \<Rightarrow> bool" where
  "may_reboot n \<longleftrightarrow> gomap_get (Annotations n) AnnotationOkToReboot = constTrue \<and>
     gomap_get (Annotations n) AnnotationRebootNeeded = constTrue"

lemma shouldRebootSelector_matches [sel_simps]:
  "Matches shouldRebootSelector (Annotations n) \<longleftrightarrow> may_reboot n"
  by (simp add: shouldRebootSelector_def SelectorFromSet_def may_reboot_def)

text \<open>The last call before \<open>w\<close> showed the agent a node that satisfies \<open>P\<close>: an answer to \<open>Get\<close> or an event.\<close>

definition seen :: "'w Klocksmith \<Rightarrow> (node \<Rightarrow> bool) \<Rightarrow> 'w \<Rightarrow> bool" where
  "seen k P w \<longleftrightarrow>
     (\<exists>v n. nc_Get (ag_nc k) (ag_node k) v = (w, Inr n) \<and> P n) \<or>
     (\<exists>watcher v ev n. nc_Next (ag_nc k) watcher v = (w, Received ev) \<and> ev_Object ev = NodeObject n \<and> P n)"

lemma NodeAnnotationCondition_OK:
  "NodeAnnotationCondition sel ev = OK True \<Longrightarrow>
     ev_Type ev = Modified \<and> (\<exists>n. ev_Object ev = NodeObject n \<and> Matches sel (Annotations n))"
  by (auto simp: NodeAnnotationCondition_def split: event_type.splits runtime_object.splits)

lemma wait_for_node_OK:
  assumes "wait_for_node fuel k ready condition sanity w = Some (w', OK u)"
    and "\<And>ev. condition ev = OK True \<Longrightarrow> \<exists>n. ev_Object ev = NodeObject n \<and> ready n"
  shows "seen k ready w'"
  using assms(1)
  by (auto simp: wait_for_node_def run_bind_OK_iff run_wrap_OK_iff seen_def
      split: prod.splits sum.splits if_splits option.splits dest!: Until_OK assms(2))

lemma waitForOkToReboot_OK: "waitForOkToReboot fuel k w = Some (w', OK u) \<Longrightarrow> seen k may_reboot w'"
  unfolding waitForOkToReboot_def may_reboot_def [symmetric]
  by (erule wait_for_node_OK) (auto dest!: NodeAnnotationCondition_OK simp: shouldRebootSelector_matches)

lemma await_ok_OK: "await_ok attempts fuel k w = Some (w', OK u) \<Longrightarrow> seen k may_reboot w'"
  by (induction attempts arbitrary: w)
     (auto split: option.splits prod.splits result.splits dest: waitForOkToReboot_OK)

text \<open>The sanity checks after \<open>Until\<close> never panic.\<close>

lemma wait_for_node_Panic:
  assumes "wait_for_node fuel k ready condition sanity w = Some (w', Panic p)"
    and "\<And>ev. condition ev = OK True \<Longrightarrow> sanity ev = None"
  shows "\<exists>w1 watcher. Until fuel (ag_nc k) watcher condition w1 = Some (w', Panic p)"
  using assms(1)
  by (auto simp: wait_for_node_def run_bind_def run_wrap_def
      split: prod.splits sum.splits if_splits option.splits result.splits dest!: Until_OK assms(2))

lemma Until_Panic:
  "Until fuel nc watcher condition w = Some (w', Panic p) \<Longrightarrow> \<exists>ev. condition ev = Panic p"
  by (induction fuel arbitrary: w)
     (auto split: prod.splits watch_signal.splits result.splits if_splits)

lemma ok_sanity_None: "NodeAnnotationCondition shouldRebootSelector ev = OK True \<Longrightarrow> ok_sanity ev = None"
  by (auto simp: ok_sanity_def shouldRebootSelector_matches may_reboot_def dest!: NodeAnnotationCondition_OK)

lemma not_ok_sanity_None: "not_ok_condition ev = OK True \<Longrightarrow> not_ok_sanity ev = None"
  by (auto simp: not_ok_condition_def not_ok_sanity_def split: event_type.splits runtime_object.splits)

subsection \<open>A failed run does not reboot\<close>

text \<open>The steps before the reboot do not depend on what the reboot does.\<close>

lemma wait_for_node_indep: "wait_for_node fuel (k\<lparr>ag_Reboot := r\<rparr>) = wait_for_node fuel k"
  by (simp add: wait_for_node_def fun_eq_iff split: prod.split sum.split)

lemma get_node_indep: "get_node (k\<lparr>ag_Reboot := r\<rparr>) = get_node k"
  by (simp add: get_node_def)

lemma agent_start_indep [simp]: "agent_start fuel (k\<lparr>ag_Reboot := r\<rparr>) = agent_start fuel k"
proof -
  have "setInfoLabels (k\<lparr>ag_Reboot := r\<rparr>) = setInfoLabels k" "make_schedulable (k\<lparr>ag_Reboot := r\<rparr>) = make_schedulable k"
    by (simp_all add: setInfoLabels_def make_schedulable_def fun_eq_iff cong del: sum.case_cong_weak)
  then show ?thesis
    by (simp add: agent_start_def waitForNotOkToReboot_def wait_for_node_indep get_node_indep cong: if_cong)
qed

lemma waitForOkToReboot_indep [simp]: "waitForOkToReboot fuel (k\<lparr>ag_Reboot := r\<rparr>) = waitForOkToReboot fuel k"
  by (simp add: waitForOkToReboot_def wait_for_node_indep)

lemma await_ok_indep [simp]: "await_ok n fuel (k\<lparr>ag_Reboot := r\<rparr>) w = await_ok n fuel k w"
  by (induction n arbitrary: w) (simp_all split: option.split prod.split result.split)

lemma drain_node_indep [simp]: "drain_node fuel (k\<lparr>ag_Reboot := r\<rparr>) = drain_node fuel k"
proof -
  have "delete_pod (k\<lparr>ag_Reboot := r\<rparr>) = delete_pod k"
    "getPodsForDeletion (k\<lparr>ag_Reboot := r\<rparr>) = getPodsForDeletion k"
    "pod_gone (k\<lparr>ag_Reboot := r\<rparr>) = pod_gone k"
    by (simp_all add: delete_pod_def getPodsForDeletion_def pod_gone_def fun_eq_iff)
  then show ?thesis by (simp add: drain_node_def waitForPodDeletion_def get_node_indep cong: if_cong)
qed

lemma agent_process_no_reboot:
  assumes "agent_process fuel k w = Some (w', r)" and "\<not> is_OK r"
  shows "agent_process fuel (k\<lparr>ag_Reboot := f\<rparr>) w = Some (w', r)"
  using assms
  by (auto simp: agent_process_def run_bind_def split: option.splits prod.splits result.splits)

lemma agent_process_OK:
  assumes "agent_process fuel k w = Some (w', OK u)"
  shows "\<exists>w1 w2 w3. agent_start fuel k w = Some (w1, OK ()) \<and>
      await_ok fuel fuel k (ag_spawn k w1) = Some (w2, OK ()) \<and>
      drain_node fuel k w2 = Some (w3, OK ()) \<and> w' = ag_sleep k (ag_Reboot k w3)"
  using assms by (auto simp: agent_process_def run_bind_OK_iff)

subsection \<open>Status updates\<close>

text \<open>
  The specification of the watcher: the statuses whose operation differs from the one before
  (from \<open>old\<close> for the first).
\<close>

definition changed_statuses :: "string \<Rightarrow> Status list \<Rightarrow> Status list" where
  "changed_statuses old ss =
     map snd (filter (\<lambda>(before, s). before \<noteq> CurrentOperation s) (zip (old # map CurrentOperation ss) ss))"

lemma changed_statuses_simps:
  "changed_statuses old [] = []"
  "changed_statuses old (s # ss) =
     (if CurrentOperation s \<noteq> old then s # changed_statuses (CurrentOperation s) ss
      else changed_statuses old ss)"
  by (auto simp: changed_statuses_def)

lemma watch_loop_changed: "watch_loop update old ss w = run_each update (changed_statuses old ss) w"
proof (induction ss arbitrary: old w)
  case (Cons s ss)
  have "watch_loop update (CurrentOperation s) ss = run_each update (changed_statuses (CurrentOperation s) ss)"
    by (rule ext) (rule Cons.IH)
  with Cons.IH [of old w] show ?case by (auto simp: changed_statuses_simps)
qed (simp add: changed_statuses_simps)

section \<open>Properties\<close>

text \<open>
  C6: The agent reboots only with permission. If a run comes to its end, then after the start the last
  answer or event from the API before the drain showed the agent its node with both \<open>reboot-ok\<close>
  and \<open>reboot-needed\<close> true; the drain of the node came next, succeeded, and was followed by the request
  to reboot and the sleep, and by nothing else.
\<close>

theorem reboot_needs_permission:
  assumes "agent_process fuel k w = Some (w', OK u)"
  shows "\<exists>w1 w2 w3. agent_start fuel k w = Some (w1, OK ()) \<and>
     await_ok fuel fuel k (ag_spawn k w1) = Some (w2, OK ()) \<and> seen k may_reboot w2 \<and>
     drain_node fuel k w2 = Some (w3, OK ()) \<and> w' = ag_sleep k (ag_Reboot k w3)"
  using agent_process_OK [OF assms] by (blast dest: await_ok_OK)

text \<open>A node whose API needs no scripts: \<open>reboot-ok\<close> shows up at the third read.\<close>

definition own_node :: "(string \<times> string) list \<Rightarrow> node" where
  "own_node as = zero_node\<lparr>Name := ''a'', Labels := Some (map_of []), Annotations := Some (map_of as)\<rparr>"

definition counting_Get :: "string \<Rightarrow> int \<Rightarrow> int \<times> (goerr + node)" where
  "counting_Get name w =
     (w + 1, Inr (own_node (if w < 4 then [] else [(AnnotationOkToReboot, constTrue), (AnnotationRebootNeeded, constTrue)])))"

definition release_files :: file_system where
  "release_files path = Contents (''ID=coreos'' @ [newline])"

definition counting_agent :: "int Klocksmith" where
  "counting_agent =
     \<lparr>ag_node = ''a'',
      ag_kc = \<lparr>ds_List = (\<lambda>_ _ w. (w, Inr [])), ds_Get = (\<lambda>_ _ w. (w, Inl ErrWaitTimeout)),
        ds_Create = (\<lambda>_ _ w. (w, None)), ds_Delete = (\<lambda>_ _ w. (w, None)), pods_List = (\<lambda>_ _ w. (w, Inr [])),
        pods_Get = (\<lambda>_ _ w. (w, zero_pod, None)), pods_Delete = (\<lambda>_ _ w. (w, None))\<rparr>,
      ag_nc = \<lparr>nc_Get = counting_Get, nc_List = (\<lambda>w. (w, Inr [])), nc_Update = (\<lambda>n w. (w, n, None)),
        nc_Watch = (\<lambda>_ _ w. (w, Inl ErrWaitTimeout)), nc_Next = (\<lambda>_ w. (w, Closed))\<rparr>,
      ag_reapTimeout = 600000000000, ag_files = release_files, ag_poller = (\<lambda>_. Some 60),
      ag_spawn = id, ag_Reboot = (\<lambda>w. 100 + w), ag_sleep = id\<rparr>"

theorem reboot_needs_permission_witness:
  "\<exists>w' w2 w3. agent_process 3 counting_agent 0 = Some (w', OK ()) \<and> 100 < w' \<and> seen counting_agent may_reboot w2 \<and>
     drain_node 3 counting_agent w2 = Some (w3, OK ()) \<and> w' = 100 + w3"
proof -
  have "map_option (\<lambda>(w, r). (w > 100, is_OK r)) (agent_process 3 counting_agent 0) = Some (True, True)" by code_simp
  then obtain w' where w': "agent_process 3 counting_agent 0 = Some (w', OK ())" "100 < w'"
    by (auto simp: is_OK_unit)
  have "ag_sleep counting_agent (ag_Reboot counting_agent v) = 100 + v" for v
    by (simp add: counting_agent_def Let_def)
  with reboot_needs_permission [OF w'(1)] w' show ?thesis by auto
qed

text \<open>
  C15: A run that fails does not reboot. If a run ends with an error or a panic, what a request to reboot
  would do is irrelevant: with any other effect of the request the run is the same.
\<close>

theorem failed_run_does_not_reboot:
  assumes "agent_process fuel k w = Some (w', r)" "\<not> is_OK r"
  shows "agent_process fuel (k\<lparr>ag_Reboot := f\<rparr>) w = Some (w', r)"
  by (rule agent_process_no_reboot [OF assms])

definition fileless_agent :: "int Klocksmith" where
  "fileless_agent = counting_agent\<lparr>ag_files := (\<lambda>_. OpenError (ErrorString ''no such file''))\<rparr>"

theorem failed_run_does_not_reboot_witness:
  "\<exists>e. agent_process 3 (fileless_agent\<lparr>ag_Reboot := (\<lambda>_. 0)\<rparr>) 7 = Some (7, Err e)"
proof -
  have "\<exists>e. agent_process 3 fileless_agent 7 = Some (7, Err e)"
    by (simp add: agent_process_def agent_start_def run_bind_def run_wrap_def run_go_def setInfoLabels_def
        GetVersionInfo_def getUpdateMap_def fileless_agent_def)
  then show ?thesis using failed_run_does_not_reboot [of 3 fileless_agent 7 7 _ "\<lambda>_. 0"] by fastforce
qed

text \<open>
  C36: An unreachable API crashes the agent. If the reads of the node fail, \<open>GetNodeRetry\<close> returns no
  node and no error, and the agent dereferences the nil pointer instead of returning an error.
\<close>

theorem unreachable_api_crashes_agent:
  assumes "\<And>w. \<exists>w' e. nc_Get (ag_nc k) (ag_node k) w = (w', Inl e)"
  shows "\<exists>w'. drain_node fuel k w = Some (w', Panic NilDeref)"
proof -
  have "\<exists>v. ExponentialBackoff_loop n (error_condition (get_attempt (ag_nc k) (ag_node k))) (w, None) =
      ((v, None), Err ErrWaitTimeout)" for n
  proof (induction n arbitrary: w)
    case (Suc n)
    obtain w1 e where "nc_Get (ag_nc k) (ag_node k) w = (w1, Inl e)" using assms by blast
    with Suc [of w1] show ?case by (simp add: error_condition_def get_attempt_def)
  qed simp
  from this [of "nat (Steps DefaultBackoff)"] obtain v where "RetryOnError DefaultBackoff (get_attempt (ag_nc k) (ag_node k)) (w, None) = ((v, None), OK ())"
    using that by (fastforce simp: RetryOnError_def ExponentialBackoff_def)
  then show ?thesis
    by (simp add: drain_node_def get_node_def run_bind_def run_go_def GetNodeRetry_def deref_def)
qed

theorem unreachable_api_crashes_agent_witness:
  "\<exists>w'. drain_node 1 (counting_agent\<lparr>ag_nc := (ag_nc counting_agent)\<lparr>nc_Get := (\<lambda>_ w. (w + 1, Inl (ErrorString ''timeout'')))\<rparr>\<rparr>) 0 =
     Some (w', Panic NilDeref)"
  by (rule unreachable_api_crashes_agent) simp

text \<open>Runs that end.\<close>

definition returns :: "('w, 'a) run \<Rightarrow> bool" where
  "returns m \<longleftrightarrow> (\<forall>w. m w \<noteq> None)"

lemma returns_bind: "returns m \<Longrightarrow> (\<And>a. returns (f a)) \<Longrightarrow> returns (run_bind m f)"
  unfolding returns_def run_bind_def by (auto split: option.split prod.split result.split)

lemma returns_go: "returns (run_go m)"
  by (simp add: returns_def run_go_def)

lemma returns_logged: "returns m \<Longrightarrow> returns (run_logged m)"
  by (simp add: returns_def run_logged_def)

lemma returns_each: "(\<And>x. returns (f x)) \<Longrightarrow> returns (run_each f xs)"
proof (induction xs)
  case (Cons x xs)
  then have "returns (run_bind (f x) (\<lambda>_. run_each f xs))" by (intro returns_bind) auto
  then show ?case by (simp add: returns_def)
qed (simp add: returns_def)

text \<open>
  C16: Draining ends. With a grace period other than 0 the whole drain returns, for any behaviour of the API
  and of the pods: each pod is asked for at most once at the beginning, once per poll interval of
  ten seconds within the grace period, and once at its end.
\<close>

theorem draining_ends:
  assumes "poller_ticks defaultPollInterval (ag_reapTimeout k) (ag_poller k (ag_reapTimeout k))"
    and "ag_reapTimeout k \<noteq> 0" "max 0 (sint (ag_reapTimeout k)) div defaultPollInterval < int fuel"
  shows "\<exists>w' r. drain_node fuel k w = Some (w', r)"
proof -
  obtain n where n: "ag_poller k (ag_reapTimeout k) = Some n"
    "int n * defaultPollInterval \<le> max 0 (sint (ag_reapTimeout k))"
    using assms(1,2) by (auto simp: poller_ticks_def split: option.splits)
  from zdiv_mono1 [OF n(2), of defaultPollInterval] assms(3) have "n < fuel" by (simp add: defaultPollInterval_def)
  have pods: "returns (waitForPodDeletion fuel k p)" for p
    using waitForPodDeletion_returns [OF n(1) \<open>n < fuel\<close>] unfolding returns_def by blast
  have "returns (drain_node fuel k)"
    unfolding drain_node_def get_node_def delete_pod_def Let_def
    by (intro returns_bind returns_each returns_logged returns_go pods) (simp add: returns_go)
  then show ?thesis unfolding returns_def by fastforce
qed

theorem draining_ends_witness:
  "\<exists>w' r. drain_node 61 counting_agent 0 = Some (w', r)"
  by (rule draining_ends)
     (simp_all add: counting_agent_def poller_ticks_def defaultPollInterval_def Let_def)

text \<open>
  A grace period of 0 means for ever. The wait for a pod that stays is then not over after any number
  of polls, so the node is never rebooted.
\<close>

lemma zero_grace_period_never_ends:
  assumes "poller_ticks defaultPollInterval (ag_reapTimeout k) (ag_poller k (ag_reapTimeout k))"
    and "ag_reapTimeout k = 0"
    and "\<And>w. \<exists>w' q. pods_Get (ag_kc k) (Namespace p) (PodName p) w = (w', q, None) \<and> UID q = UID p"
  shows "waitForPodDeletion fuel k p w = None"
proof -
  have none: "ag_poller k (ag_reapTimeout k) = None"
    using assms(1,2) by (auto simp: poller_ticks_def split: option.splits)
  have stays: "\<exists>w'. pod_gone k p w = (w', OK False)" for w
    using assms(3) [of w] by (auto simp: pod_gone_def)
  have wait: "WaitFor n None (pod_gone k p) w = None" for n w
  proof (induction n arbitrary: w)
    case (Suc n)
    obtain w' where "pod_gone k p w = (w', OK False)" using stays by blast
    with Suc show ?case by simp
  qed simp
  obtain w' where "pod_gone k p w = (w', OK False)" using stays by blast
  with none wait show ?thesis by (simp add: waitForPodDeletion_def PollImmediate_def)
qed

text \<open>
  C39: Any error ends the wait for a pod. The client returns an empty pod beside an error; its UID is not
  that of the pod, so the condition takes the pod for deleted, also when the error is transient.
\<close>

theorem any_error_ends_pod_wait:
  assumes "pods_Get (ag_kc k) (Namespace p) (PodName p) w = (w', zero_pod, Some e)" "UID p \<noteq> []"
  shows "waitForPodDeletion fuel k p w = Some (w', OK ())"
  using assms by (simp add: waitForPodDeletion_def PollImmediate_def pod_gone_def zero_pod_def)

theorem any_error_ends_pod_wait_witness:
  "waitForPodDeletion 1 (counting_agent\<lparr>ag_kc := (ag_kc counting_agent)\<lparr>pods_Get :=
      (\<lambda>_ _ w. (w + 1, zero_pod, Some (StatusError ''Timeout'' [])))\<rparr>\<rparr>) (zero_pod\<lparr>UID := ''u''\<rparr>) 0 = Some (1, OK ())"
  by (rule any_error_ends_pod_wait) simp_all

text \<open>
  C27: The watcher reports changes of the operation. The loop of \<open>watchUpdateStatus\<close> calls its callback
  exactly for the statuses whose operation differs from the one before, in order, beginning with
  the initial status if its operation is not empty.
\<close>

theorem watcher_reports_changes:
  "watchUpdateStatus update (Inr (status_body s)) (map status_body ss) w =
     run_each update (changed_statuses [] (s # ss)) w"
  using NewStatus_status_body [of s "[]"]
  by (simp add: watchUpdateStatus_def ReceiveStatuses_def GetStatus_def receive_loop_bodies
      watch_loop_changed del: watch_loop.simps)

end
