(* ===== verification/Reboot_Window.thy ===== *)
theory Reboot_Window
  imports Prelude
begin

text \<open>
  Reboot windows: \<open>src/vendor/github.com/coreos/locksmith/pkg/timeutil/periodic.go\<close>, which
  \<open>markBeforeReboot\<close> asks whether the present moment lies in the configured window.

  An instant is a number of nanoseconds since 1970-01-01 00:00 UTC. The location of an
  instant is a fixed offset \<open>loc\<close> from UTC, also in nanoseconds (the operator runs with the
  zone of its container, UTC unless configured otherwise); zones that change their offset are
  not modelled. The calendar enters only through the day number and the day of the week,
  because \<open>time.Date\<close> normalises a day outside of its month.
\<close>

section \<open>Definitions\<close>

definition ns_second :: int where "ns_second = 1000000000"

definition ns_day :: int where "ns_day = 86400 * ns_second"

record periodicStart =
  dayOfWeek :: int
  hourOfDay :: int
  minuteOfHour :: int
  secondOfMinute :: int

record Periodic =
  pc_start :: periodicStart
  pc_duration :: int

record Period =
  Start :: int
  End :: int

text \<open>The day an instant falls on in its location, and \<open>Time.Weekday\<close> (Sunday is 0).\<close>

definition local_day :: "int \<Rightarrow> int \<Rightarrow> int" where
  "local_day loc t = (t + loc) div ns_day"

definition day_Weekday :: "int \<Rightarrow> int" where
  "day_Weekday d = (d + 4) mod 7"

definition Weekday :: "int \<Rightarrow> int \<Rightarrow> int" where
  "Weekday loc t = day_Weekday (local_day loc t)"

definition time_of_day :: "periodicStart \<Rightarrow> int" where
  "time_of_day ps = (hourOfDay ps * 3600 + minuteOfHour ps * 60 + secondOfMinute ps) * ns_second"

text \<open>\<open>time.Date\<close> for a given day number and time of day.\<close>

definition instant_of :: "int \<Rightarrow> int \<Rightarrow> int \<Rightarrow> int" where
  "instant_of loc d tod = d * ns_day + tod - loc"

definition shiftTimeByDays :: "int \<Rightarrow> Periodic \<Rightarrow> int \<Rightarrow> int \<Rightarrow> int" where
  "shiftTimeByDays loc pc ref daydiff =
     instant_of loc (local_day loc ref + daydiff) (time_of_day (pc_start pc))"

definition cmpDayOfWeek :: "int \<Rightarrow> Periodic \<Rightarrow> int \<Rightarrow> int" where
  "cmpDayOfWeek loc pc ref =
     ref - shiftTimeByDays loc pc ref (- Weekday loc ref + dayOfWeek (pc_start pc))"

definition cmpHourOfDay :: "int \<Rightarrow> Periodic \<Rightarrow> int \<Rightarrow> int" where
  "cmpHourOfDay loc pc ref = ref - shiftTimeByDays loc pc ref 0"

text \<open>\<open>Period{}\<close> is the zero time; \<open>zero_time\<close> is January 1 of year 1.\<close>

definition zero_time :: int where
  "zero_time = - 62135596800 * ns_second"

definition Previous :: "int \<Rightarrow> Periodic \<Rightarrow> int \<Rightarrow> Period" where
  "Previous loc pc ref =
     (let ps = pc_start pc;
          s = (if dayOfWeek ps \<noteq> - 1 then
                 (if cmpDayOfWeek loc pc ref \<ge> 0
                  then shiftTimeByDays loc pc ref (- (Weekday loc ref - dayOfWeek ps))
                  else shiftTimeByDays loc pc ref (- (Weekday loc ref + (7 - dayOfWeek ps))))
               else if hourOfDay ps \<noteq> - 1 then
                 (if cmpHourOfDay loc pc ref \<ge> 0
                  then shiftTimeByDays loc pc ref 0
                  else shiftTimeByDays loc pc ref (- 1))
               else zero_time)
      in \<lparr>Start = s, End = s + pc_duration pc\<rparr>)"

definition Next :: "int \<Rightarrow> Periodic \<Rightarrow> int \<Rightarrow> Period" where
  "Next loc pc ref =
     (let ps = pc_start pc;
          s = (if dayOfWeek ps \<noteq> - 1 then
                 (if cmpDayOfWeek loc pc ref < 0
                  then shiftTimeByDays loc pc ref (dayOfWeek ps - Weekday loc ref)
                  else shiftTimeByDays loc pc ref ((7 - Weekday loc ref) + dayOfWeek ps))
               else if hourOfDay ps \<noteq> - 1 then
                 (if cmpHourOfDay loc pc ref < 0
                  then shiftTimeByDays loc pc ref 0
                  else shiftTimeByDays loc pc ref 1)
               else zero_time)
      in \<lparr>Start = s, End = s + pc_duration pc\<rparr>)"

definition DurationToStart :: "int \<Rightarrow> Periodic \<Rightarrow> int \<Rightarrow> int" where
  "DurationToStart loc pc ref =
     (let prev = Previous loc pc ref
      in if End prev > ref \<or> End prev = ref then Start prev - ref
         else Start (Next loc pc ref) - ref)"

section \<open>What the functions promise\<close>

text \<open>What \<open>parseStart\<close> guarantees of the start it returns.\<close>

definition valid_start :: "periodicStart \<Rightarrow> bool" where
  "valid_start ps \<longleftrightarrow>
     - 1 \<le> dayOfWeek ps \<and> dayOfWeek ps \<le> 6 \<and> 0 \<le> hourOfDay ps \<and> hourOfDay ps \<le> 23 \<and>
     0 \<le> minuteOfHour ps \<and> minuteOfHour ps \<le> 59 \<and> secondOfMinute ps = 0"

text \<open>The instants at which an occurrence of the period starts.\<close>

definition occurrence :: "int \<Rightarrow> Periodic \<Rightarrow> int \<Rightarrow> bool" where
  "occurrence loc pc s \<longleftrightarrow>
     (\<exists>d. s = instant_of loc d (time_of_day (pc_start pc)) \<and>
          (dayOfWeek (pc_start pc) = - 1 \<or> day_Weekday d = dayOfWeek (pc_start pc)))"

definition latest_start :: "int \<Rightarrow> Periodic \<Rightarrow> int \<Rightarrow> int \<Rightarrow> bool" where
  "latest_start loc pc ref s \<longleftrightarrow>
     occurrence loc pc s \<and> s \<le> ref \<and> (\<forall>s'. occurrence loc pc s' \<and> s' \<le> ref \<longrightarrow> s' \<le> s)"

definition earliest_start :: "int \<Rightarrow> Periodic \<Rightarrow> int \<Rightarrow> int \<Rightarrow> bool" where
  "earliest_start loc pc ref s \<longleftrightarrow>
     occurrence loc pc s \<and> ref < s \<and> (\<forall>s'. occurrence loc pc s' \<and> ref < s' \<longrightarrow> s \<le> s')"

section \<open>Lemmas\<close>

lemma ns_day_pos: "0 < ns_day"
  by (simp add: ns_day_def ns_second_def)

lemma time_of_day_range:
  assumes "valid_start ps"
  shows "0 \<le> time_of_day ps" and "time_of_day ps < ns_day"
  using assms by (auto simp: valid_start_def time_of_day_def ns_day_def ns_second_def)

lemma local_day_bounds:
  "local_day loc t * ns_day \<le> t + loc" "t + loc < (local_day loc t + 1) * ns_day"
proof -
  have "t + loc = local_day loc t * ns_day + (t + loc) mod ns_day"
    by (simp add: local_day_def)
  moreover have "0 \<le> (t + loc) mod ns_day" "(t + loc) mod ns_day < ns_day"
    using ns_day_pos by simp_all
  ultimately show "local_day loc t * ns_day \<le> t + loc" "t + loc < (local_day loc t + 1) * ns_day"
    by (simp_all add: algebra_simps)
qed

text \<open>An occurrence on a day before the day of \<open>t\<close> is over at \<open>t\<close>, one on a later day is ahead.\<close>

lemma instant_before:
  assumes "0 \<le> tod" "tod < ns_day" "d < local_day loc t"
  shows "instant_of loc d tod \<le> t"
proof -
  have "(d + 1) * ns_day \<le> local_day loc t * ns_day"
    using assms(3) ns_day_pos by (intro mult_right_mono) auto
  with local_day_bounds(1) [of loc t] assms show ?thesis
    by (simp add: instant_of_def algebra_simps)
qed

lemma instant_after:
  assumes "0 \<le> tod" "local_day loc t < d"
  shows "t < instant_of loc d tod"
proof -
  have "(local_day loc t + 1) * ns_day \<le> d * ns_day"
    using assms(2) ns_day_pos by (intro mult_right_mono) auto
  with local_day_bounds(2) [of t loc] assms show ?thesis
    by (simp add: instant_of_def algebra_simps)
qed

lemma instant_mono: "d \<le> d' \<Longrightarrow> instant_of loc d tod \<le> instant_of loc d' tod"
  using ns_day_pos by (simp add: instant_of_def mult_right_mono)

lemma day_Weekday_range: "0 \<le> day_Weekday d" "day_Weekday d \<le> 6"
  using pos_mod_bound [of 7 "d + 4"] by (simp_all add: day_Weekday_def)

lemma week_base: "d - day_Weekday d = 7 * ((d + 4) div 7) - 4"
  using mult_div_mod_eq [of 7 "d + 4"] unfolding day_Weekday_def by linarith

text \<open>The days of a given weekday lie seven days apart, one of them in the week of \<open>d0\<close>.\<close>

lemma weekday_in_week:
  assumes "0 \<le> w" "w \<le> 6"
  shows "day_Weekday (d0 - day_Weekday d0 + w + 7 * k) = w"
proof -
  have "(d0 - day_Weekday d0 + w + 7 * k) + 4 = w + 7 * ((d0 + 4) div 7 + k)"
    using week_base [of d0] by simp
  then have "day_Weekday (d0 - day_Weekday d0 + w + 7 * k) = (w + 7 * ((d0 + 4) div 7 + k)) mod 7"
    by (simp only: day_Weekday_def)
  also have "\<dots> = w mod 7"
    by (rule mod_mult_self2)
  finally show ?thesis
    using assms by simp
qed

lemma weekday_cases:
  assumes "day_Weekday d = w"
  obtains k where "d = d0 - day_Weekday d0 + w + 7 * k"
proof
  show "d = d0 - day_Weekday d0 + w + 7 * ((d + 4) div 7 - (d0 + 4) div 7)"
    using week_base [of d] week_base [of d0] assms by simp
qed

text \<open>
  The starts of the occurrences, around an instant \<open>ref\<close>: the base occurrence \<open>b\<close> and its
  shifts by whole periods of \<open>p\<close> days.
\<close>

lemma daily_occurrence:
  assumes "dayOfWeek (pc_start pc) = - 1"
  shows "occurrence loc pc s \<longleftrightarrow> (\<exists>k. s = shiftTimeByDays loc pc ref k)"
proof
  assume "occurrence loc pc s"
  then obtain d where "s = instant_of loc d (time_of_day (pc_start pc))"
    by (auto simp: occurrence_def)
  then have "s = shiftTimeByDays loc pc ref (d - local_day loc ref)"
    by (simp add: shiftTimeByDays_def)
  then show "\<exists>k. s = shiftTimeByDays loc pc ref k" ..
qed (auto simp: occurrence_def shiftTimeByDays_def assms)

lemma weekly_occurrence:
  assumes "0 \<le> dayOfWeek (pc_start pc)" "dayOfWeek (pc_start pc) \<le> 6"
  shows "occurrence loc pc s \<longleftrightarrow>
    (\<exists>k. s = shiftTimeByDays loc pc ref (dayOfWeek (pc_start pc) - Weekday loc ref + 7 * k))"
    (is "_ \<longleftrightarrow> (\<exists>k. s = ?shift k)")
proof
  let ?d0 = "local_day loc ref" and ?w = "dayOfWeek (pc_start pc)"
  assume "occurrence loc pc s"
  with assms obtain d where d: "s = instant_of loc d (time_of_day (pc_start pc))"
    and w: "day_Weekday d = ?w" by (auto simp: occurrence_def)
  from w obtain k where "d = ?d0 - day_Weekday ?d0 + ?w + 7 * k" by (rule weekday_cases)
  with d have "s = ?shift k" by (simp add: shiftTimeByDays_def Weekday_def algebra_simps)
  then show "\<exists>k. s = ?shift k" ..
next
  let ?d0 = "local_day loc ref" and ?w = "dayOfWeek (pc_start pc)"
  assume "\<exists>k. s = ?shift k"
  then obtain k where "s = ?shift k" ..
  then have "s = instant_of loc (?d0 - day_Weekday ?d0 + ?w + 7 * k) (time_of_day (pc_start pc))"
    by (simp add: shiftTimeByDays_def Weekday_def algebra_simps)
  with weekday_in_week [OF assms] show "occurrence loc pc s"
    unfolding occurrence_def by blast
qed

lemma shift_mono: "k \<le> k' \<Longrightarrow> shiftTimeByDays loc pc ref k \<le> shiftTimeByDays loc pc ref k'"
  by (simp add: shiftTimeByDays_def instant_mono)

lemma shift_past: "valid_start (pc_start pc) \<Longrightarrow> k < 0 \<Longrightarrow> shiftTimeByDays loc pc ref k \<le> ref"
  by (simp add: shiftTimeByDays_def instant_before time_of_day_range)

lemma shift_future: "valid_start (pc_start pc) \<Longrightarrow> 0 < k \<Longrightarrow> ref < shiftTimeByDays loc pc ref k"
  by (simp add: shiftTimeByDays_def instant_after time_of_day_range)

text \<open>
  \<open>Previous\<close> yields the latest occurrence that has started, \<open>Next\<close> the earliest one that has
  not. The two share the case analysis: with \<open>b\<close> the shift of the base occurrence and \<open>p\<close> the
  length of the period in days, everything before \<open>b\<close> has started and everything after it has
  not.
\<close>

lemma period_neighbours:
  assumes v: "valid_start (pc_start pc)"
    and occ: "\<And>s. occurrence loc pc s \<longleftrightarrow> (\<exists>k. s = shiftTimeByDays loc pc ref (b + p * k))"
    and p: "0 < p" "b - p < 0" "0 < b + p"
  shows "shiftTimeByDays loc pc ref b \<le> ref \<Longrightarrow>
      latest_start loc pc ref (shiftTimeByDays loc pc ref b) \<and>
      earliest_start loc pc ref (shiftTimeByDays loc pc ref (b + p))"
    and "ref < shiftTimeByDays loc pc ref b \<Longrightarrow>
      latest_start loc pc ref (shiftTimeByDays loc pc ref (b - p)) \<and>
      earliest_start loc pc ref (shiftTimeByDays loc pc ref b)"
proof -
  let ?at = "\<lambda>k. shiftTimeByDays loc pc ref (b + p * k)"
  have mono: "?at k \<le> ?at k'" if "k \<le> k'" for k k'
    using that p(1) by (intro shift_mono add_left_mono mult_left_mono) simp_all
  have occ_at: "occurrence loc pc (?at k)" for k
    using occ by blast
  have all: "\<exists>k. s = ?at k" if "occurrence loc pc s" for s
    using that occ by blast
  have next1: "ref < ?at 1" and prev1: "?at (- 1) \<le> ref"
    using shift_future [OF v, of "b + p"] shift_past [OF v, of "b - p"] p by simp_all
  have ahead: "ref < ?at k" if "1 \<le> k" for k
    using mono [OF that] next1 by linarith
  have past: "?at k \<le> ref" if "k \<le> - 1" for k
    using mono [OF that] prev1 by linarith
  have latest: "latest_start loc pc ref (?at k)" if "?at k \<le> ref" "ref < ?at (k + 1)" for k
    unfolding latest_start_def
  proof (intro conjI allI impI occ_at that(1))
    fix s' assume s': "occurrence loc pc s' \<and> s' \<le> ref"
    then obtain j where j: "s' = ?at j" using all by blast
    have "j \<le> k" using mono [of "k + 1" j] s' that(2) j by linarith
    then show "s' \<le> ?at k" unfolding j by (rule mono)
  qed
  have earliest: "earliest_start loc pc ref (?at (k + 1))" if "?at k \<le> ref" "ref < ?at (k + 1)" for k
    unfolding earliest_start_def
  proof (intro conjI allI impI occ_at that(2))
    fix s' assume s': "occurrence loc pc s' \<and> ref < s'"
    then obtain j where j: "s' = ?at j" using all by blast
    have "k + 1 \<le> j" using mono [of j k] s' that(1) j by linarith
    then show "?at (k + 1) \<le> s'" unfolding j by (rule mono)
  qed
  show "latest_start loc pc ref (shiftTimeByDays loc pc ref b) \<and>
      earliest_start loc pc ref (shiftTimeByDays loc pc ref (b + p))"
    if "shiftTimeByDays loc pc ref b \<le> ref"
    using latest [of 0] earliest [of 0] that next1 by simp
  show "latest_start loc pc ref (shiftTimeByDays loc pc ref (b - p)) \<and>
      earliest_start loc pc ref (shiftTimeByDays loc pc ref b)"
    if "ref < shiftTimeByDays loc pc ref b"
    using latest [of "- 1"] earliest [of "- 1"] that prev1 by simp
qed

lemma Weekday_range: "0 \<le> Weekday loc t" "Weekday loc t \<le> 6"
  by (simp_all add: Weekday_def day_Weekday_range)

lemma Previous_Next_correct:
  assumes v: "valid_start (pc_start pc)"
  shows "latest_start loc pc ref (Start (Previous loc pc ref)) \<and>
         earliest_start loc pc ref (Start (Next loc pc ref))"
proof (cases "dayOfWeek (pc_start pc) = - 1")
  case True
  have daily: "occurrence loc pc s \<longleftrightarrow> (\<exists>k. s = shiftTimeByDays loc pc ref (0 + 1 * k))" for s
    using daily_occurrence [OF True, of loc s ref] by simp
  note pn = period_neighbours [OF v daily]
  from True v show ?thesis
    using pn by (auto simp: Previous_def Next_def cmpHourOfDay_def valid_start_def Let_def)
next
  case False
  let ?b = "dayOfWeek (pc_start pc) - Weekday loc ref"
  from False v have dow: "0 \<le> dayOfWeek (pc_start pc)" "dayOfWeek (pc_start pc) \<le> 6"
    by (auto simp: valid_start_def)
  have b: "?b - 7 < 0" "0 < ?b + 7"
    using dow Weekday_range [of loc ref] by linarith+
  note pn = period_neighbours [OF v weekly_occurrence [OF dow] _ b]
  from False pn show ?thesis
    by (auto simp: Previous_def Next_def cmpDayOfWeek_def Let_def algebra_simps)
qed

text \<open>
  The test of the operator, \<open>period.End.After(now)\<close> for the previous period, is exactly
  membership in some occurrence of the window.
\<close>

lemma window_open_iff:
  assumes "valid_start (pc_start pc)"
  shows "now < End (Previous loc pc now) \<longleftrightarrow>
         (\<exists>s. occurrence loc pc s \<and> s \<le> now \<and> now < s + pc_duration pc)"
proof -
  let ?s = "Start (Previous loc pc now)"
  have "End (Previous loc pc now) = ?s + pc_duration pc"
    by (simp add: Previous_def Let_def)
  moreover have "latest_start loc pc now ?s"
    using Previous_Next_correct [OF assms] by blast
  ultimately show ?thesis
    unfolding latest_start_def by (metis add.commute add_le_cancel_left order_less_le_trans)
qed

end
