(* ===== verification/Operator.thy ===== *)
theory Operator
  imports Node_Updates Kube_Client Reboot_Window
begin

text \<open>
  The reconciliation of the update-operator, \<open>src/pkg/operator/operator.go\<close>: the selectors
  and requirements the package sets up when it is initialised, the controller and the five
  phases of \<open>process\<close>. Each phase lists the nodes once, picks the ones it is about from that
  list, and changes them one by one with \<open>UpdateNodeRetry\<close>; the closure it passes is a
  definition of its own (\<open>cleanup_mutation\<close>, \<open>before_done_mutation\<close>,
  \<open>after_done_mutation\<close>, \<open>mark_mutation\<close>) and meets the contract \<open>metadata_mutation\<close>.

  The controller is a record with the fields of \<open>Kontroller\<close> the phases use; the clock
  (\<open>time.Now\<close>) and the zone of its instants stand beside them. Log output is left out.
\<close>

section \<open>Package variables\<close>

definition maxRebootingNodes :: nat where
  "maxRebootingNodes = 1"

definition justRebootedSelector :: Selector where
  "justRebootedSelector = SelectorFromSet (Some
     [(AnnotationOkToReboot, constTrue),
      (AnnotationRebootNeeded, constFalse),
      (AnnotationRebootInProgress, constFalse)])"

definition wantsRebootSelector_source :: string where
  "wantsRebootSelector_source =
     AnnotationRebootNeeded @ ''=='' @ constTrue @
     '','' @ AnnotationRebootPaused @ ''!='' @ constTrue @
     '','' @ AnnotationOkToReboot @ ''!='' @ constTrue @
     '','' @ AnnotationRebootInProgress @ ''!='' @ constTrue"

text \<open>
  An initialiser that panics ends the program before \<open>main\<close>; \<open>initialised\<close> is the value
  the variable has otherwise. The lemmas below show that none of the initialisers panics, so
  the default is never used.
\<close>

definition initialised :: "'a \<Rightarrow> 'a result \<Rightarrow> 'a" where
  "initialised d r = (case r of OK v \<Rightarrow> v | _ \<Rightarrow> d)"

definition wantsRebootSelector :: Selector where
  "wantsRebootSelector = initialised Everything (ParseSelectorOrDie wantsRebootSelector_source)"

definition stillRebootingSelector :: Selector where
  "stillRebootingSelector = SelectorFromSet (Some
     [(AnnotationOkToReboot, constTrue),
      (AnnotationRebootNeeded, constTrue)])"

definition no_requirement :: Requirement where
  "no_requirement = \<lparr>req_key = [], req_operator = OtherOperator [], req_strValues = []\<rparr>"

definition beforeRebootReq :: Requirement where
  "beforeRebootReq = initialised no_requirement (NewRequirementOrDie LabelBeforeReboot In [constTrue])"

definition afterRebootReq :: Requirement where
  "afterRebootReq = initialised no_requirement (NewRequirementOrDie LabelAfterReboot In [constTrue])"

definition notBeforeRebootReq :: Requirement where
  "notBeforeRebootReq =
     initialised no_requirement (NewRequirementOrDie LabelBeforeReboot NotIn [constTrue])"

definition notAfterRebootReq :: Requirement where
  "notAfterRebootReq =
     initialised no_requirement (NewRequirementOrDie LabelAfterReboot NotIn [constTrue])"

section \<open>The controller\<close>

record 'w Kontroller =
  kc :: "'w kube_iface"
  nc :: "'w node_iface"
  beforeRebootAnnotations :: "string list"
  afterRebootAnnotations :: "string list"
  namespace :: string
  autoLabelContainerLinux :: bool
  rebootWindow :: "Periodic option"
  manageAgent :: bool
  agentImageRepo :: string
  clock_Now :: "'w \<Rightarrow> 'w \<times> int"
  clock_loc :: int

fun hasAllAnnotations :: "node \<Rightarrow> string list \<Rightarrow> bool" where
  "hasAllAnnotations n [] = True"
| "hasAllAnnotations n (annotation # annotations) =
     (if \<not> gomap_has (Annotations n) annotation \<or> gomap_get (Annotations n) annotation \<noteq> constTrue
      then False else hasAllAnnotations n annotations)"

section \<open>The phases\<close>

definition list_nodes :: "'w Kontroller \<Rightarrow> ('w, node list) go" where
  "list_nodes k = go_wrap (\<lambda>err. Errorf ''Failed listing nodes: %v'' [] [err]) (go_call (nc_List (nc k)))"

definition cleanup_mutation :: "string list \<Rightarrow> node_mutation" where
  "cleanup_mutation annotations n =
     (if gomap_has (Labels n) LabelBeforeReboot then
        (if \<not> Matches wantsRebootSelector (Annotations n) then
           Inr (n\<lparr>Labels := gomap_delete LabelBeforeReboot (Labels n),
                  Annotations := gomap_delete_all annotations (Annotations n)\<rparr>)
         else Inr n)
      else Inr n)"

definition cleanupState :: "'w Kontroller \<Rightarrow> ('w, unit) go" where
  "cleanupState k = go_bind (list_nodes k) (\<lambda>nodelist.
     range_loop (\<lambda>n.
       go_wrap (\<lambda>err. Errorf ''Failed to cleanup node %q: %v'' [Name n] [err])
         (UpdateNodeRetry (nc k) (Name n) (cleanup_mutation (beforeRebootAnnotations k))))
     nodelist)"

definition before_done_mutation :: "string list \<Rightarrow> node_mutation" where
  "before_done_mutation annotations n =
     (let ls = gomap_delete LabelBeforeReboot (Labels n);
          an = gomap_delete_all annotations (Annotations n)
      in map_sum id (\<lambda>an'. n\<lparr>Labels := ls, Annotations := an'\<rparr>)
           (gomap_set AnnotationOkToReboot constTrue an))"

definition checkBeforeReboot :: "'w Kontroller \<Rightarrow> ('w, unit) go" where
  "checkBeforeReboot k = go_bind (list_nodes k) (\<lambda>nodelist.
     let preRebootNodes = FilterNodesByRequirement nodelist beforeRebootReq in
     range_loop (\<lambda>n.
       if hasAllAnnotations n (beforeRebootAnnotations k) then
         go_wrap (\<lambda>err. Errorf ''Failed to update node %q: %v'' [Name n] [err])
           (UpdateNodeRetry (nc k) (Name n) (before_done_mutation (beforeRebootAnnotations k)))
       else go_return ())
     preRebootNodes)"

definition after_done_mutation :: "string list \<Rightarrow> node_mutation" where
  "after_done_mutation annotations n =
     (let ls = gomap_delete LabelAfterReboot (Labels n);
          an = gomap_delete_all annotations (Annotations n)
      in map_sum id (\<lambda>an'. n\<lparr>Labels := ls, Annotations := an'\<rparr>)
           (gomap_set AnnotationOkToReboot constFalse an))"

definition checkAfterReboot :: "'w Kontroller \<Rightarrow> ('w, unit) go" where
  "checkAfterReboot k = go_bind (list_nodes k) (\<lambda>nodelist.
     let postRebootNodes = FilterNodesByRequirement nodelist afterRebootReq in
     range_loop (\<lambda>n.
       if hasAllAnnotations n (afterRebootAnnotations k) then
         go_wrap (\<lambda>err. Errorf ''Failed to update node %q: %v'' [Name n] [err])
           (UpdateNodeRetry (nc k) (Name n) (after_done_mutation (afterRebootAnnotations k)))
       else go_return ())
     postRebootNodes)"

definition mark_mutation :: "string \<Rightarrow> string list \<Rightarrow> node_mutation" where
  "mark_mutation label annotations n =
     map_sum id
       (\<lambda>ls. n\<lparr>Annotations := gomap_delete_all annotations (Annotations n), Labels := ls\<rparr>)
       (gomap_set label constTrue (Labels n))"

definition mark :: "'w Kontroller \<Rightarrow> string \<Rightarrow> string \<Rightarrow> string list \<Rightarrow> ('w, unit) go" where
  "mark k nodeName label annotations =
     go_wrap (\<lambda>err. Errorf ''Failed to set %q to %q on node %q: %v'' [label, constTrue, nodeName] [err])
       (UpdateNodeRetry (nc k) nodeName (mark_mutation label annotations))"

text \<open>
  The test of the reboot window. The code reads the clock twice, for the previous occurrence
  and again for the comparison with its end.
\<close>

definition inside_window :: "'w Kontroller \<Rightarrow> ('w, bool) go" where
  "inside_window k w = (case rebootWindow k of
      None \<Rightarrow> (w, OK True)
    | Some rw \<Rightarrow>
        (let (w1, now1) = clock_Now k w;
             period = Previous (clock_loc k) rw now1;
             (w2, now2) = clock_Now k w1
         in (w2, OK (now2 < End period))))"

text \<open>The nodes that count as rebooting, and the ones chosen for a reboot.\<close>

definition rebooting_nodes :: "node list \<Rightarrow> node list" where
  "rebooting_nodes nodelist =
     FilterNodesByAnnotation nodelist stillRebootingSelector @
     FilterNodesByRequirement nodelist beforeRebootReq @
     FilterNodesByRequirement nodelist afterRebootReq"

definition rebootable_nodes :: "node list \<Rightarrow> node list" where
  "rebootable_nodes nodelist =
     FilterNodesByRequirement (FilterNodesByAnnotation nodelist wantsRebootSelector) notBeforeRebootReq"

definition markBeforeReboot :: "'w Kontroller \<Rightarrow> ('w, unit) go" where
  "markBeforeReboot k = go_bind (list_nodes k) (\<lambda>nodelist.
     go_bind (inside_window k) (\<lambda>inside.
     if \<not> inside then go_return ()
     else
       let rebootingNodes = rebooting_nodes nodelist in
       if length rebootingNodes \<ge> maxRebootingNodes then go_return ()
       else
         let rebootableNodes = rebootable_nodes nodelist in
         if rebootableNodes = [] then go_return ()
         else
           let remainingRebootableCount = maxRebootingNodes - length rebootingNodes;
               chosenNodes = take remainingRebootableCount rebootableNodes in
           range_loop (\<lambda>n.
             go_wrap (\<lambda>err. Errorf ''Failed to label node for before reboot checks: %v'' [] [err])
               (mark k (Name n) LabelBeforeReboot (beforeRebootAnnotations k)))
           chosenNodes))"

definition markAfterReboot :: "'w Kontroller \<Rightarrow> ('w, unit) go" where
  "markAfterReboot k = go_bind (list_nodes k) (\<lambda>nodelist.
     let justRebootedNodes =
           FilterNodesByRequirement (FilterNodesByAnnotation nodelist justRebootedSelector) notAfterRebootReq in
     range_loop (\<lambda>n.
       go_wrap (\<lambda>err. Errorf ''Failed to label node for after reboot checks: %v'' [] [err])
         (mark k (Name n) LabelAfterReboot (afterRebootAnnotations k)))
     justRebootedNodes)"

text \<open>\<open>process\<close>: the first phase that fails ends the cycle; its error is only logged.\<close>

definition process_phases :: "'w Kontroller \<Rightarrow> ('w, unit) go" where
  "process_phases k =
     go_bind (cleanupState k) (\<lambda>_.
     go_bind (checkAfterReboot k) (\<lambda>_.
     go_bind (markAfterReboot k) (\<lambda>_.
     go_bind (checkBeforeReboot k) (\<lambda>_.
     markBeforeReboot k))))"

definition Kontroller_process :: "'w Kontroller \<Rightarrow> ('w, unit) go" where
  "Kontroller_process k w = (case process_phases k w of
      (w', OK _) \<Rightarrow> (w', OK ())
    | (w', Err err) \<Rightarrow> (w', OK ())
    | (w', Panic p) \<Rightarrow> (w', Panic p))"

section \<open>What the selectors match\<close>

text \<open>The initialisers succeed.\<close>

lemma wantsRebootSelector_init:
  "ParseSelectorOrDie wantsRebootSelector_source = OK (andTerm
     [notHasTerm AnnotationRebootInProgress constTrue, hasTerm AnnotationRebootNeeded constTrue,
      notHasTerm AnnotationOkToReboot constTrue, notHasTerm AnnotationRebootPaused constTrue])"
  by code_simp

lemma requirement_inits:
  "NewRequirementOrDie LabelBeforeReboot In [constTrue] =
     OK \<lparr>req_key = LabelBeforeReboot, req_operator = In, req_strValues = [constTrue]\<rparr>"
  "NewRequirementOrDie LabelAfterReboot In [constTrue] =
     OK \<lparr>req_key = LabelAfterReboot, req_operator = In, req_strValues = [constTrue]\<rparr>"
  "NewRequirementOrDie LabelBeforeReboot NotIn [constTrue] =
     OK \<lparr>req_key = LabelBeforeReboot, req_operator = NotIn, req_strValues = [constTrue]\<rparr>"
  "NewRequirementOrDie LabelAfterReboot NotIn [constTrue] =
     OK \<lparr>req_key = LabelAfterReboot, req_operator = NotIn, req_strValues = [constTrue]\<rparr>"
  by code_simp+

lemma wantsRebootSelector_matches [sel_simps]:
  "Matches wantsRebootSelector m \<longleftrightarrow>
     gomap_get m AnnotationRebootNeeded = constTrue \<and>
     gomap_get m AnnotationRebootPaused \<noteq> constTrue \<and>
     gomap_get m AnnotationOkToReboot \<noteq> constTrue \<and>
     gomap_get m AnnotationRebootInProgress \<noteq> constTrue"
  by (auto simp: wantsRebootSelector_def wantsRebootSelector_init initialised_def)

lemma stillRebootingSelector_matches [sel_simps]:
  "Matches stillRebootingSelector m \<longleftrightarrow>
     gomap_get m AnnotationOkToReboot = constTrue \<and>
     gomap_get m AnnotationRebootNeeded = constTrue"
  by (simp add: stillRebootingSelector_def SelectorFromSet_def)

lemma justRebootedSelector_matches [sel_simps]:
  "Matches justRebootedSelector m \<longleftrightarrow>
     gomap_get m AnnotationOkToReboot = constTrue \<and>
     gomap_get m AnnotationRebootNeeded = constFalse \<and>
     gomap_get m AnnotationRebootInProgress = constFalse"
  by (simp add: justRebootedSelector_def SelectorFromSet_def)

lemma gomap_get_True: "gomap_get m k = constTrue \<Longrightarrow> gomap_has m k"
  by (cases "gomap_has m k") (auto dest: gomap_get_missing)

lemma requirements_match [sel_simps]:
  "req_Matches beforeRebootReq m \<longleftrightarrow> gomap_get m LabelBeforeReboot = constTrue"
  "req_Matches afterRebootReq m \<longleftrightarrow> gomap_get m LabelAfterReboot = constTrue"
  "req_Matches notBeforeRebootReq m \<longleftrightarrow> gomap_get m LabelBeforeReboot \<noteq> constTrue"
  "req_Matches notAfterRebootReq m \<longleftrightarrow> gomap_get m LabelAfterReboot \<noteq> constTrue"
  by (auto simp: beforeRebootReq_def afterRebootReq_def notBeforeRebootReq_def notAfterRebootReq_def
      requirement_inits initialised_def req_Matches_def hasValue_def dest: gomap_get_True)

lemma hasAllAnnotations_iff:
  "hasAllAnnotations n as \<longleftrightarrow> (\<forall>a\<in>set as. gomap_get (Annotations n) a = constTrue)"
  by (induction as) (auto dest: gomap_get_True)

section \<open>The closures meet the contract of a mutation\<close>

lemmas op_mutation_defs =
  cleanup_mutation_def before_done_mutation_def after_done_mutation_def mark_mutation_def Let_def

interpretation cleanup: metadata_mutation "cleanup_mutation as"
  by unfold_locales (auto simp: op_mutation_defs split: if_splits)

interpretation beforeDone: metadata_mutation "before_done_mutation as"
  by unfold_locales (auto simp: op_mutation_defs mutation_simps gomap_set_Inl_iff)

interpretation afterDone: metadata_mutation "after_done_mutation as"
  by unfold_locales (auto simp: op_mutation_defs mutation_simps gomap_set_Inl_iff)

interpretation marking: metadata_mutation "mark_mutation label as"
  by unfold_locales (auto simp: op_mutation_defs mutation_simps gomap_set_Inl_iff)

section \<open>Properties\<close>

text \<open>
  C13: Whom the operator may choose, and what stops it. The nodes that can be chosen are, in the order of
  the list, those whose annotations ask for a reboot that is neither paused, permitted nor in
  progress and that are not under checks yet; no node is chosen as long as one is permitted to
  reboot and still needs to, or is under checks before or after its reboot.
\<close>

theorem choice_of_nodes:
  "rebootable_nodes xs = filter (\<lambda>n. gomap_get (Annotations n) AnnotationRebootNeeded = constTrue \<and>
      gomap_get (Annotations n) AnnotationRebootPaused \<noteq> constTrue \<and>
      gomap_get (Annotations n) AnnotationOkToReboot \<noteq> constTrue \<and>
      gomap_get (Annotations n) AnnotationRebootInProgress \<noteq> constTrue \<and>
      gomap_get (Labels n) LabelBeforeReboot \<noteq> constTrue) xs \<and>
   (length (rebooting_nodes xs) < maxRebootingNodes) =
     list_all (\<lambda>n. \<not> (gomap_get (Annotations n) AnnotationOkToReboot = constTrue \<and>
         gomap_get (Annotations n) AnnotationRebootNeeded = constTrue) \<and>
       gomap_get (Labels n) LabelBeforeReboot \<noteq> constTrue \<and>
       gomap_get (Labels n) LabelAfterReboot \<noteq> constTrue) xs"
proof
  show "(length (rebooting_nodes xs) < maxRebootingNodes) =
     list_all (\<lambda>n. \<not> (gomap_get (Annotations n) AnnotationOkToReboot = constTrue \<and>
         gomap_get (Annotations n) AnnotationRebootNeeded = constTrue) \<and>
       gomap_get (Labels n) LabelBeforeReboot \<noteq> constTrue \<and>
       gomap_get (Labels n) LabelAfterReboot \<noteq> constTrue) xs"
    by (auto simp: rebooting_nodes_def maxRebootingNodes_def byAnnotation.flt_eq byRequirement.flt_eq sel_simps
        filter_empty_conv list_all_iff)
qed (simp add: rebootable_nodes_def byAnnotation.flt_eq byRequirement.flt_eq sel_simps conj_ac)

text \<open>
  C14: Outside of the reboot window no reboot is started: the phase that chooses nodes lists them, reads
  the clock twice and returns without a write.
\<close>

theorem closed_window_starts_nothing:
  assumes "rebootWindow k = Some rw" "nc_List (nc k) w = (w1, Inr xs)"
    and "clock_Now k w1 = (w2, t1)" "clock_Now k w2 = (w3, t2)" "End (Previous (clock_loc k) rw t1) \<le> t2"
  shows "markBeforeReboot k w = (w3, OK ())"
  using assms by (simp add: markBeforeReboot_def list_nodes_def go_bind_def go_wrap_def go_call_def inside_window_def)

text \<open>A controller that lists one waiting node, at 13:59:59 of a day whose window opens at 14:00.\<close>

definition early_controller :: "int Kontroller" where
  "early_controller =
     \<lparr>kc = \<lparr>ds_List = (\<lambda>_ _ w. (w, Inr [])), ds_Get = (\<lambda>_ _ w. (w, Inl ErrWaitTimeout)), ds_Create = (\<lambda>_ _ w. (w, None)),
        ds_Delete = (\<lambda>_ _ w. (w, None)), pods_List = (\<lambda>_ _ w. (w, Inr [])), pods_Get = (\<lambda>_ _ w. (w, zero_pod, None)),
        pods_Delete = (\<lambda>_ _ w. (w, None))\<rparr>,
      nc = \<lparr>nc_Get = (\<lambda>_ w. (w, Inl ErrWaitTimeout)),
        nc_List = (\<lambda>w. (w, Inr [zero_node\<lparr>Annotations := Some [AnnotationRebootNeeded \<mapsto> constTrue]\<rparr>])),
        nc_Update = (\<lambda>n w. (w, n, None)), nc_Watch = (\<lambda>_ _ w. (w, Inr 0)), nc_Next = (\<lambda>_ w. (w, Closed))\<rparr>,
      beforeRebootAnnotations = [], afterRebootAnnotations = [], namespace = ''ns'', autoLabelContainerLinux = False,
      rebootWindow = Some \<lparr>pc_start = \<lparr>dayOfWeek = - 1, hourOfDay = 14, minuteOfHour = 0, secondOfMinute = 0\<rparr>,
        pc_duration = 3600 * ns_second\<rparr>,
      manageAgent = False, agentImageRepo = [], clock_Now = (\<lambda>t. (t + 1, t)), clock_loc = 0\<rparr>"

theorem closed_window_starts_nothing_witness:
  "markBeforeReboot early_controller (50399 * ns_second) = (50399 * ns_second + 2, OK ())"
proof (rule closed_window_starts_nothing)
  let ?rw = "\<lparr>pc_start = \<lparr>dayOfWeek = - 1, hourOfDay = 14, minuteOfHour = 0, secondOfMinute = 0\<rparr>, pc_duration = 3600 * ns_second\<rparr>"
  let ?t = "50399 * ns_second"
  show "rebootWindow early_controller = Some ?rw" by (simp add: early_controller_def)
  show "nc_List (nc early_controller) ?t = (?t, Inr [zero_node\<lparr>Annotations := Some [AnnotationRebootNeeded \<mapsto> constTrue]\<rparr>])"
    "clock_Now early_controller ?t = (?t + 1, ?t)" "clock_Now early_controller (?t + 1) = (?t + 2, ?t + 1)"
    by (simp_all add: early_controller_def)
  show "End (Previous (clock_loc early_controller) ?rw ?t) \<le> ?t + 1" by code_simp
qed

text \<open>Calls that panic, if at all, because of a write to a nil map.\<close>

definition nil_only :: "('w, 'a) go \<Rightarrow> bool" where
  "nil_only m \<longleftrightarrow> (\<forall>w w' p. m w = (w', Panic p) \<longrightarrow> p = NilMapWrite)"

lemma nil_only_bind: "nil_only m \<Longrightarrow> (\<And>a. nil_only (f a)) \<Longrightarrow> nil_only (go_bind m f)"
  unfolding nil_only_def go_bind_def by (auto split: prod.splits result.splits)

lemma nil_only_wrap: "nil_only m \<Longrightarrow> nil_only (go_wrap g m)"
  unfolding nil_only_def go_wrap_def by (auto split: prod.splits result.splits)

lemma nil_only_return: "nil_only (go_return a)"
  by (simp add: nil_only_def)

lemma nil_only_call: "nil_only (go_call m)"
  by (simp add: nil_only_def go_call_def split: prod.splits sum.splits)

lemma nil_only_loop: "(\<And>x. nil_only (body x)) \<Longrightarrow> nil_only (range_loop body xs)"
  by (induction xs) (simp_all add: nil_only_return nil_only_bind del: go_return_eval)

lemma conflict_retry_Panic: "conflict_retry n fn l w = (w', Panic p) \<Longrightarrow> \<exists>v. fn v = (w', Panic p)"
  by (induction n arbitrary: l w) (auto simp: error_result_def split: prod.splits result.splits option.splits if_splits)

lemma nil_only_update:
  assumes "metadata_mutation f"
  shows "nil_only (UpdateNodeRetry api name f)"
proof -
  have "p = NilMapWrite" if "update_attempt api name f v = (w', Panic p)" for v w' p
    using that by (auto simp: update_attempt_def split: prod.splits sum.splits option.splits
        dest: metadata_mutation.panics [OF assms])
  then show ?thesis
    unfolding UpdateNodeRetry_def RetryOnConflict_eq
    by (intro nil_only_wrap) (unfold nil_only_def, blast dest: conflict_retry_Panic)
qed

lemmas nil_only_intros = nil_only_bind nil_only_wrap nil_only_return nil_only_call nil_only_loop
  nil_only_update [OF cleanup.metadata_mutation_axioms] nil_only_update [OF beforeDone.metadata_mutation_axioms]
  nil_only_update [OF afterDone.metadata_mutation_axioms] nil_only_update [OF marking.metadata_mutation_axioms]

lemma nil_only_window: "nil_only (inside_window k)"
  by (auto simp: nil_only_def inside_window_def split: option.splits prod.splits)

lemma nil_only_phases:
  "nil_only (cleanupState k)" "nil_only (checkAfterReboot k)" "nil_only (markAfterReboot k)"
  "nil_only (checkBeforeReboot k)" "nil_only (markBeforeReboot k)"
  unfolding cleanupState_def checkAfterReboot_def markAfterReboot_def checkBeforeReboot_def markBeforeReboot_def
    mark_def list_nodes_def Let_def
  by (auto intro!: nil_only_intros nil_only_window simp del: go_return_eval)

text \<open>
  C29: How a cycle can end. Whatever the API answers, a cycle never reports an error (errors are logged and
  end the cycle), and the only panic it can end in is a write to a nil map: marking a node panics
  exactly if it has no labels at all, recording the end of the checks exactly if it has no
  annotations at all; cleaning up never panics. (The API server leaves out empty maps, so such nodes
  are possible.)
\<close>

theorem cycle_end:
  "snd (Kontroller_process k w) \<in> {OK (), Panic NilMapWrite} \<and>
   (mark_mutation label as x = Inl p) = (Labels x = None \<and> p = NilMapWrite) \<and>
   (before_done_mutation as x = Inl p) = (Annotations x = None \<and> p = NilMapWrite) \<and>
   (after_done_mutation as x = Inl p) = (Annotations x = None \<and> p = NilMapWrite) \<and>
   cleanup_mutation as x \<noteq> Inl p"
proof (intro conjI)
  have "nil_only (process_phases k)"
    unfolding process_phases_def by (intro nil_only_bind nil_only_phases)
  then show "snd (Kontroller_process k w) \<in> {OK (), Panic NilMapWrite}"
    by (auto simp: Kontroller_process_def nil_only_def split: prod.splits result.splits)
qed (auto simp: op_mutation_defs mutation_simps gomap_set_Inl_iff split: if_splits)

end
