(* ===== verification/Cluster.thy ===== *)
theory Cluster
  imports Node_Updates
begin

text \<open>
  What the program relies on from the API server. The server is not part of the repository;
  the locale \<open>node_api\<close> states its documented behaviour, and everything below is proved from
  these laws alone.

  \<^item> The nodes of the cluster are a list of objects with distinct names, and a revision
    counter that every write increases. An object carries the revision of its last write as
    its resource version, so an object that still has a version seen before has not changed
    (\<open>versioned\<close>).
  \<^item> Other parties (agents, administrators, kubelets) change the cluster by steps of a
    relation \<open>env\<close>. Any number of them may happen in any call.
  \<^item> \<open>Get\<close> and \<open>List\<close> answer with the present objects, or with an error.
  \<^item> \<open>Update\<close> is optimistic: it succeeds only if the stored object still has the resource
    version of the written one. An update that fails writes nothing.

  \<open>UpdateNodeRetry_atomic\<close> is the consequence the clients use: an update that returns nil has
  applied its closure, once, to the object as it was at the moment of the write.
\<close>

section \<open>Definitions\<close>

record cluster =
  rev_no :: nat
  items :: "node list"

definition obj :: "cluster \<Rightarrow> string \<Rightarrow> node option" where
  "obj c name = find (\<lambda>x. Name x = name) (items c)"

definition cluster_wf :: "cluster \<Rightarrow> bool" where
  "cluster_wf c \<longleftrightarrow> distinct (map Name (items c)) \<and> list_all (\<lambda>x. ResourceVersion x \<le> rev_no c) (items c)"

definition versioned :: "cluster \<Rightarrow> cluster \<Rightarrow> bool" where
  "versioned a b \<longleftrightarrow> cluster_wf b \<and> rev_no a \<le> rev_no b \<and>
     (\<forall>name y. obj b name = Some y \<longrightarrow> obj a name = Some y \<or> rev_no a < ResourceVersion y)"

definition commit :: "node \<Rightarrow> cluster \<Rightarrow> cluster" where
  "commit x c = \<lparr>rev_no = Suc (rev_no c),
     items = map (\<lambda>y. if Name y = Name x then x\<lparr>ResourceVersion := Suc (rev_no c)\<rparr> else y) (items c)\<rparr>"

text \<open>
  The server stores \<open>x\<close> in place of the object of that name. A write that changes nothing may
  be answered without a new version.
\<close>

definition stored :: "node \<Rightarrow> cluster \<Rightarrow> cluster \<Rightarrow> bool" where
  "stored x a b \<longleftrightarrow> b = commit x a \<or> (obj a (Name x) = Some x \<and> b = a)"

section \<open>The contract\<close>

locale node_api =
  fixes nc :: "'w node_iface"
    and cl :: "'w \<Rightarrow> cluster"
    and env :: "cluster \<Rightarrow> cluster \<Rightarrow> bool"
    and good :: "'w \<Rightarrow> bool"
  assumes good_wf: "good w \<Longrightarrow> cluster_wf (cl w)"
    and env_versioned: "env a b \<Longrightarrow> cluster_wf a \<Longrightarrow> versioned a b"
    and get_law: "good w \<Longrightarrow> nc_Get nc name w = (w', r) \<Longrightarrow>
      good w' \<and> env\<^sup>*\<^sup>* (cl w) (cl w') \<and> (\<forall>x. r = Inr x \<longrightarrow> obj (cl w') name = Some x)"
    and list_law: "good w \<Longrightarrow> nc_List nc w = (w', l) \<Longrightarrow>
      good w' \<and> env\<^sup>*\<^sup>* (cl w) (cl w') \<and> (\<forall>xs. l = Inr xs \<longrightarrow> xs = items (cl w'))"
    and update_law: "good w \<Longrightarrow> nc_Update nc x w = (w', x', None) \<Longrightarrow>
      good w' \<and> (\<exists>a b y. env\<^sup>*\<^sup>* (cl w) a \<and> obj a (Name x) = Some y \<and>
        ResourceVersion y = ResourceVersion x \<and> stored x a b \<and> env\<^sup>*\<^sup>* b (cl w'))"
    and update_error_law: "good w \<Longrightarrow> nc_Update nc x w = (w', x', Some e) \<Longrightarrow>
      good w' \<and> e \<noteq> ErrWaitTimeout \<and> env\<^sup>*\<^sup>* (cl w) (cl w')"

section \<open>Lemmas about clusters\<close>

lemma find_distinct:
  "distinct (map Name xs) \<Longrightarrow> find (\<lambda>x. Name x = name) xs = Some y \<longleftrightarrow> y \<in> set xs \<and> Name y = name"
  by (induction xs) (auto simp: image_iff)

lemma obj_iff: "cluster_wf c \<Longrightarrow> obj c name = Some y \<longleftrightarrow> y \<in> set (items c) \<and> Name y = name"
  by (simp add: obj_def cluster_wf_def find_distinct)

lemma obj_Name: "obj c name = Some y \<Longrightarrow> Name y = name"
  by (auto simp: obj_def find_Some_iff)

lemma obj_version: "cluster_wf c \<Longrightarrow> obj c name = Some y \<Longrightarrow> ResourceVersion y \<le> rev_no c"
  by (auto simp: obj_iff) (auto simp: cluster_wf_def list_all_iff)

lemma find_replace:
  "Name x' = Name x \<Longrightarrow> find (\<lambda>y. Name y = name) (map (\<lambda>y. if Name y = Name x then x' else y) xs) =
   (case find (\<lambda>y. Name y = name) xs of None \<Rightarrow> None | Some y \<Rightarrow> Some (if name = Name x then x' else y))"
  by (induction xs) auto

lemma obj_commit:
  "obj (commit x c) name =
   (case obj c name of None \<Rightarrow> None
    | Some y \<Rightarrow> Some (if name = Name x then x\<lparr>ResourceVersion := Suc (rev_no c)\<rparr> else y))"
  unfolding obj_def commit_def by (simp add: find_replace)

lemma map_Name_replace:
  "Name x' = Name x \<Longrightarrow> map Name (map (\<lambda>y. if Name y = Name x then x' else y) xs) = map Name xs"
  by simp

lemma cluster_wf_commit: "cluster_wf c \<Longrightarrow> cluster_wf (commit x c)"
  by (auto simp: cluster_wf_def commit_def list_all_iff comp_def if_distrib le_Suc_eq
      cong: if_cong)

lemma versioned_refl: "cluster_wf a \<Longrightarrow> versioned a a"
  by (simp add: versioned_def)

lemma versioned_trans: "versioned a b \<Longrightarrow> versioned b c \<Longrightarrow> versioned a c"
  unfolding versioned_def by (meson order.strict_trans1 order_trans)

lemma rev_no_commit [simp]: "rev_no (commit x c) = Suc (rev_no c)"
  by (simp add: commit_def)

lemma versioned_commit: "cluster_wf c \<Longrightarrow> versioned c (commit x c)"
  by (auto simp: versioned_def cluster_wf_commit obj_commit split: option.splits if_splits)

text \<open>An object that has kept its version has not changed.\<close>

lemma versioned_same:
  assumes "versioned a b" "cluster_wf a" "obj a name = Some x" "obj b name = Some y"
    and "ResourceVersion x = ResourceVersion y"
  shows "x = y"
  using assms obj_version [OF assms(2,3)] by (fastforce simp: versioned_def)

section \<open>Consequences of the contract\<close>

context node_api
begin

lemma env_rtranclp_versioned: "env\<^sup>*\<^sup>* a b \<Longrightarrow> cluster_wf a \<Longrightarrow> versioned a b"
proof (induction rule: rtranclp_induct)
  case base
  then show ?case by (rule versioned_refl)
next
  case (step b c)
  then have "versioned a b" by blast
  moreover from this have "versioned b c"
    using env_versioned [OF step.hyps(2)] by (simp add: versioned_def)
  ultimately show ?case by (rule versioned_trans)
qed

lemma env_rtranclp_wf: "env\<^sup>*\<^sup>* a b \<Longrightarrow> cluster_wf a \<Longrightarrow> cluster_wf b"
  using env_rtranclp_versioned by (auto simp: versioned_def)

lemma attempt_OK:
  assumes "good w" and "update_attempt nc name f w = (w', OK u)"
    and "\<And>x x'. f x = Inr x' \<Longrightarrow> Name x' = Name x \<and> ResourceVersion x' = ResourceVersion x"
  shows "good w' \<and> (\<exists>a b x x'. env\<^sup>*\<^sup>* (cl w) a \<and> obj a name = Some x \<and> f x = Inr x' \<and>
      stored x' a b \<and> env\<^sup>*\<^sup>* b (cl w'))"
proof -
  from assms(2) obtain w1 x x' x2 where get: "nc_Get nc name w = (w1, Inr x)"
    and f: "f x = Inr x'" and upd: "nc_Update nc x' w1 = (w', x2, None)"
    by (auto simp: update_attempt_def split: prod.splits sum.splits option.splits)
  from get_law [OF assms(1) get] have w1: "good w1" "env\<^sup>*\<^sup>* (cl w) (cl w1)" "obj (cl w1) name = Some x"
    by auto
  from assms(3) [OF f] obj_Name [OF w1(3)]
  have nm: "Name x' = name" "ResourceVersion x' = ResourceVersion x" by simp_all
  from update_law [OF w1(1) upd] nm obtain a b y where *: "good w'" "env\<^sup>*\<^sup>* (cl w1) a"
    "obj a name = Some y" "ResourceVersion y = ResourceVersion x" "stored x' a b" "env\<^sup>*\<^sup>* b (cl w')"
    by auto
  have "versioned (cl w1) a"
    using *(2) w1(1) by (simp add: env_rtranclp_versioned good_wf)
  then have "y = x"
    using versioned_same [OF _ good_wf [OF w1(1)] w1(3) *(3)] *(4) by simp
  with * w1(2) f show ?thesis
    by (metis rtranclp_trans)
qed

lemma attempt_other:
  assumes "good w" and "update_attempt nc name f w = (w', r)" and "\<not> is_OK r"
  shows "good w' \<and> env\<^sup>*\<^sup>* (cl w) (cl w') \<and> r \<noteq> Err ErrWaitTimeout"
proof -
  obtain w1 g where get: "nc_Get nc name w = (w1, g)" by fastforce
  from get_law [OF assms(1) get] have w1: "good w1" "env\<^sup>*\<^sup>* (cl w) (cl w1)" by auto
  show ?thesis
  proof (cases g)
    case (Inl e)
    with get assms(2) w1 show ?thesis by (auto simp: update_attempt_def)
  next
    case (Inr x)
    with get assms(2,3) w1 show ?thesis
      by (auto simp: update_attempt_def split: sum.splits prod.splits option.splits
          dest!: update_error_law [OF w1(1)] intro: rtranclp_trans)
  qed
qed

lemma attempt_conflicts_env:
  assumes "metadata_mutation f"
  shows "triple (\<lambda>w. good w \<and> env\<^sup>*\<^sup>* (cl w0) (cl w)) (UpdateNodeRetry nc name f)
    (\<lambda>_ w'. good w' \<and> (\<exists>a b x x'. env\<^sup>*\<^sup>* (cl w0) a \<and> obj a name = Some x \<and> f x = Inr x' \<and>
        stored x' a b \<and> env\<^sup>*\<^sup>* b (cl w')))
    (\<lambda>w'. good w' \<and> env\<^sup>*\<^sup>* (cl w0) (cl w'))"
  unfolding UpdateNodeRetry_def RetryOnConflict_eq
proof (intro triple_wrap triple_conflict_retry)
  fix w w'
  assume w: "good w \<and> env\<^sup>*\<^sup>* (cl w0) (cl w)"
    and att: "update_attempt nc name f w = (w', OK ())"
  have keeps: "Name x' = Name x \<and> ResourceVersion x' = ResourceVersion x" if "f x = Inr x'" for x x'
    using metadata_mutation.keeps [OF assms that] by blast
  have "good w' \<and> (\<exists>a b x x'. env\<^sup>*\<^sup>* (cl w) a \<and> obj a name = Some x \<and> f x = Inr x' \<and>
      stored x' a b \<and> env\<^sup>*\<^sup>* b (cl w'))"
    by (rule attempt_OK [OF conjunct1 [OF w] att keeps])
  with w show "good w' \<and> (\<exists>a b x x'. env\<^sup>*\<^sup>* (cl w0) a \<and> obj a name = Some x \<and> f x = Inr x' \<and>
      stored x' a b \<and> env\<^sup>*\<^sup>* b (cl w'))"
    by (metis rtranclp_trans)
next
  fix w w' e
  assume w: "good w \<and> env\<^sup>*\<^sup>* (cl w0) (cl w)" and att: "update_attempt nc name f w = (w', Err e)"
  have *: "good w' \<and> env\<^sup>*\<^sup>* (cl w0) (cl w') \<and> e \<noteq> ErrWaitTimeout"
    using attempt_other [OF conjunct1 [OF w] att] w by (auto intro: rtranclp_trans)
  show "good w' \<and> env\<^sup>*\<^sup>* (cl w0) (cl w')"
    using * by blast
  show "e \<noteq> ErrWaitTimeout \<and> good w' \<and> env\<^sup>*\<^sup>* (cl w0) (cl w')"
    using * by blast
next
  fix w w' p
  assume w: "good w \<and> env\<^sup>*\<^sup>* (cl w0) (cl w)" and att: "update_attempt nc name f w = (w', Panic p)"
  show "good w' \<and> env\<^sup>*\<^sup>* (cl w0) (cl w')"
    using attempt_other [OF conjunct1 [OF w] att] w by (auto intro: rtranclp_trans)
qed simp_all

text \<open>
  The rule for clients. \<open>P\<close> and \<open>Q\<close> are stable under the steps of others, and writing the
  result of the closure takes \<open>P\<close> to \<open>Q\<close>.
\<close>

lemma triple_UpdateNodeRetry:
  assumes mut: "metadata_mutation f"
    and P: "\<And>a b. cluster_wf a \<Longrightarrow> P a \<Longrightarrow> env a b \<Longrightarrow> P b"
    and Q: "\<And>a b. cluster_wf a \<Longrightarrow> Q a \<Longrightarrow> env a b \<Longrightarrow> Q b"
    and step: "\<And>a x x'. cluster_wf a \<Longrightarrow> P a \<Longrightarrow> obj a name = Some x \<Longrightarrow> f x = Inr x' \<Longrightarrow> Q (commit x' a)"
    and same: "\<And>a x. cluster_wf a \<Longrightarrow> P a \<Longrightarrow> obj a name = Some x \<Longrightarrow> f x = Inr x \<Longrightarrow> Q a"
  shows "triple (\<lambda>w. good w \<and> P (cl w)) (UpdateNodeRetry nc name f)
    (\<lambda>_ w. good w \<and> Q (cl w)) (\<lambda>w. good w \<and> P (cl w))"
proof -
  have stable: "R b" if "env\<^sup>*\<^sup>* a b" "cluster_wf a" "R a"
    and "\<And>a b. cluster_wf a \<Longrightarrow> R a \<Longrightarrow> env a b \<Longrightarrow> R b" for R a b
    using that by (induction rule: rtranclp_induct) (auto dest: env_rtranclp_wf)
  have OKs: "Q (cl w')" if w: "good w" "P (cl w)" and a: "env\<^sup>*\<^sup>* (cl w) a" "obj a name = Some x" "f x = Inr x'"
    and b: "stored x' a b" "env\<^sup>*\<^sup>* b (cl w')" for w w' a b x x'
  proof -
    have wf: "cluster_wf a" and Pa: "P a"
      using a w by (auto intro: stable [OF a(1)] P env_rtranclp_wf good_wf)
    from a mut have "Name x' = name"
      by (auto dest: obj_Name metadata_mutation.keeps)
    with b(1) wf Pa a have "Q b \<and> cluster_wf b"
      by (auto simp: stored_def intro: step same cluster_wf_commit)
    with b(2) show ?thesis by (blast intro: stable Q)
  qed
  show ?thesis
  proof (rule tripleI)
    fix w w' u
    assume "good w \<and> P (cl w)" and "UpdateNodeRetry nc name f w = (w', OK u)"
    with triple_OK [OF attempt_conflicts_env [OF mut, of w name], of w w' u]
    show "good w' \<and> Q (cl w')" by (auto intro: OKs)
  next
    fix w w' e
    assume "good w \<and> P (cl w)" and "UpdateNodeRetry nc name f w = (w', Err e)"
    with attempt_conflicts_env [OF mut, of w name] show "good w' \<and> P (cl w')"
      by (force simp: triple_def intro: stable P good_wf)
  next
    fix w w' p
    assume "good w \<and> P (cl w)" and "UpdateNodeRetry nc name f w = (w', Panic p)"
    with attempt_conflicts_env [OF mut, of w name] show "good w' \<and> P (cl w')"
      by (force simp: triple_def intro: stable P good_wf)
  qed
qed

end

end
