(* ===== verification/Reboot_Safety.thy ===== *)
theory Reboot_Safety
  imports Operator Cluster
begin

text \<open>
  At most one node of the cluster is in the hands of the reboot protocol at any time.

  A node holds the reboot slot while the operator runs checks on it (the labels
  \<open>before-reboot\<close> and \<open>after-reboot\<close>) and while it is allowed to reboot (the annotation
  \<open>reboot-ok\<close>). \<open>holder\<close> states that only one named node can hold the slot. The theory
  shows that a cycle of the operator keeps this, whatever errors the API answers with and
  whatever the other parties do in the meantime, under the assumption \<open>quiet_step\<close> on them:

  \<^item> \<open>reboot-ok\<close>, \<open>before-reboot\<close> and \<open>after-reboot\<close> belong to the operator (the
    documentation asks that nobody else changes them), and new nodes come without them;
  \<^item> while a cycle runs, a node that holds the slot is not deleted and its agent does not
    withdraw \<open>reboot-needed\<close>, which it does when it starts.

  The last point is needed: \<open>Races\<close> shows two slots given away when the agent of the
  holder starts between two phases.
\<close>

section \<open>The slot\<close>

definition okToReboot :: "node \<Rightarrow> bool" where
  "okToReboot x \<longleftrightarrow> gomap_get (Annotations x) AnnotationOkToReboot = constTrue"

definition rebootNeeded :: "node \<Rightarrow> bool" where
  "rebootNeeded x \<longleftrightarrow> gomap_get (Annotations x) AnnotationRebootNeeded = constTrue"

definition justRebooted :: "node \<Rightarrow> bool" where
  "justRebooted x \<longleftrightarrow> Matches justRebootedSelector (Annotations x)"

definition beforeChecks :: "node \<Rightarrow> bool" where
  "beforeChecks x \<longleftrightarrow> gomap_get (Labels x) LabelBeforeReboot = constTrue"

definition afterChecks :: "node \<Rightarrow> bool" where
  "afterChecks x \<longleftrightarrow> gomap_get (Labels x) LabelAfterReboot = constTrue"

definition holds_slot :: "node \<Rightarrow> bool" where
  "holds_slot x \<longleftrightarrow> okToReboot x \<or> beforeChecks x \<or> afterChecks x"

text \<open>
  A node that is allowed to reboot either still needs the reboot or has just done it. The
  agent sets \<open>reboot-needed\<close> and \<open>reboot-in-progress\<close> to false in one write when it starts.
\<close>

definition phased :: "node \<Rightarrow> bool" where
  "phased x \<longleftrightarrow> (okToReboot x \<longrightarrow> rebootNeeded x \<or> justRebooted x)"

definition all_nodes :: "(node \<Rightarrow> bool) \<Rightarrow> cluster \<Rightarrow> bool" where
  "all_nodes P c \<longleftrightarrow> (\<forall>name x. obj c name = Some x \<longrightarrow> P x)"

definition holder :: "string \<Rightarrow> cluster \<Rightarrow> bool" where
  "holder h c \<longleftrightarrow> all_nodes (\<lambda>x. holds_slot x \<longrightarrow> Name x = h) c"

definition one_slot :: "cluster \<Rightarrow> bool" where
  "one_slot c \<longleftrightarrow> (\<exists>h. holder h c)"

definition slot_inv :: "cluster \<Rightarrow> bool" where
  "slot_inv c \<longleftrightarrow> one_slot c \<and> all_nodes phased c"

text \<open>What other parties may do to a node, and to the cluster, while a cycle runs.\<close>

definition quiet_node :: "node \<Rightarrow> node \<Rightarrow> bool" where
  "quiet_node x y \<longleftrightarrow>
     okToReboot y = okToReboot x \<and> beforeChecks y = beforeChecks x \<and> afterChecks y = afterChecks x \<and>
     (holds_slot x \<longrightarrow>
        (rebootNeeded x \<longrightarrow> rebootNeeded y) \<and> (justRebooted x \<longrightarrow> justRebooted y \<or> rebootNeeded y))"

definition quiet_step :: "cluster \<Rightarrow> cluster \<Rightarrow> bool" where
  "quiet_step a b \<longleftrightarrow>
     (\<forall>name. case (obj a name, obj b name) of
        (Some x, Some y) \<Rightarrow> quiet_node x y
      | (Some x, None) \<Rightarrow> \<not> holds_slot x
      | (None, Some y) \<Rightarrow> \<not> holds_slot y
      | (None, None) \<Rightarrow> True)"

text \<open>The configured check annotations do not reuse the keys of the protocol.\<close>

definition keys_free :: "string list \<Rightarrow> bool" where
  "keys_free as \<longleftrightarrow> AnnotationOkToReboot \<notin> set as \<and> AnnotationRebootNeeded \<notin> set as \<and>
     AnnotationRebootInProgress \<notin> set as"

text \<open>
  Between two cycles more is allowed: agents start and withdraw \<open>reboot-needed\<close>, as long as a
  node that may reboot stays \<open>phased\<close>, and nodes disappear, whether they hold the slot or not.
\<close>

definition free_step :: "cluster \<Rightarrow> cluster \<Rightarrow> bool" where
  "free_step a b \<longleftrightarrow>
     (\<forall>name y. obj b name = Some y \<longrightarrow> (case obj a name of
        Some x \<Rightarrow> okToReboot y = okToReboot x \<and> beforeChecks y = beforeChecks x \<and>
          afterChecks y = afterChecks x \<and> (phased x \<longrightarrow> phased y)
      | None \<Rightarrow> \<not> holds_slot y))"

text \<open>The life of the cluster: cycles of the operator, and what happens between them.\<close>

inductive operated :: "'w Kontroller \<Rightarrow> ('w \<Rightarrow> cluster) \<Rightarrow> ('w \<Rightarrow> bool) \<Rightarrow> 'w \<Rightarrow> 'w \<Rightarrow> bool"
  for k cl good w0 where
  start: "operated k cl good w0 w0"
| cycle: "operated k cl good w0 w \<Longrightarrow> Kontroller_process k w = (w', r) \<Longrightarrow> operated k cl good w0 w'"
| between: "operated k cl good w0 w \<Longrightarrow> good w' \<Longrightarrow> free_step (cl w) (cl w') \<Longrightarrow> operated k cl good w0 w'"

section \<open>The closures and the slot\<close>

lemmas slot_defs = okToReboot_def rebootNeeded_def justRebooted_def beforeChecks_def afterChecks_def

lemma slot_version [simp]:
  "okToReboot (x\<lparr>ResourceVersion := v\<rparr>) = okToReboot x"
  "rebootNeeded (x\<lparr>ResourceVersion := v\<rparr>) = rebootNeeded x"
  "justRebooted (x\<lparr>ResourceVersion := v\<rparr>) = justRebooted x"
  "beforeChecks (x\<lparr>ResourceVersion := v\<rparr>) = beforeChecks x"
  "afterChecks (x\<lparr>ResourceVersion := v\<rparr>) = afterChecks x"
  "holds_slot (x\<lparr>ResourceVersion := v\<rparr>) = holds_slot x"
  "phased (x\<lparr>ResourceVersion := v\<rparr>) = phased x"
  by (simp_all add: slot_defs holds_slot_def phased_def)

lemma cleanup_slot:
  assumes "cleanup_mutation as x = Inr x'" and "keys_free as"
  shows "okToReboot x' = okToReboot x" "rebootNeeded x' = rebootNeeded x"
    "justRebooted x' = justRebooted x" "afterChecks x' = afterChecks x"
    "beforeChecks x' \<longleftrightarrow> beforeChecks x \<and> Matches wantsRebootSelector (Annotations x)"
  using assms
  by (auto simp: slot_defs cleanup_mutation_def keys_free_def map_simps key_simps
      justRebootedSelector_matches dest: gomap_get_True split: if_splits)

lemma after_done_slot:
  assumes "after_done_mutation as x = Inr x'" and "keys_free as"
  shows "\<not> okToReboot x'" "\<not> afterChecks x'" "beforeChecks x' = beforeChecks x"
    "rebootNeeded x' = rebootNeeded x"
  using assms
  by (auto simp: slot_defs after_done_mutation_def keys_free_def Let_def mutation_simps map_simps key_simps)

lemma before_done_slot:
  assumes "before_done_mutation as x = Inr x'" and "keys_free as"
  shows "okToReboot x'" "\<not> beforeChecks x'" "afterChecks x' = afterChecks x"
    "rebootNeeded x' = rebootNeeded x"
  using assms
  by (auto simp: slot_defs before_done_mutation_def keys_free_def Let_def mutation_simps map_simps key_simps)

lemma mark_slot:
  assumes "mark_mutation label as x = Inr x'" and "keys_free as"
  shows "okToReboot x' = okToReboot x" "rebootNeeded x' = rebootNeeded x"
    "justRebooted x' = justRebooted x"
    "beforeChecks x' \<longleftrightarrow> label = LabelBeforeReboot \<or> beforeChecks x"
    "afterChecks x' \<longleftrightarrow> label = LabelAfterReboot \<or> afterChecks x"
  using assms
  by (auto simp: slot_defs mark_mutation_def keys_free_def mutation_simps map_simps key_simps
      justRebootedSelector_matches split: if_splits)

section \<open>Clusters and quiet steps\<close>

lemma all_nodes_commit:
  assumes "all_nodes P c" and "\<And>x. obj c (Name x') = Some x \<Longrightarrow> P (x'\<lparr>ResourceVersion := Suc (rev_no c)\<rparr>)"
  shows "all_nodes P (commit x' c)"
  using assms by (auto simp: all_nodes_def obj_commit split: option.splits)

lemma quiet_node_slot: "quiet_node x y \<Longrightarrow> holds_slot y = holds_slot x"
  by (auto simp: quiet_node_def holds_slot_def)

lemma quiet_step_all:
  assumes "quiet_step a b" and "all_nodes P a"
    and "\<And>x y. quiet_node x y \<Longrightarrow> Name y = Name x \<Longrightarrow> P x \<Longrightarrow> P y" and "\<And>y. \<not> holds_slot y \<Longrightarrow> P y"
  shows "all_nodes P b"
  unfolding all_nodes_def
proof (intro allI impI)
  fix name y
  assume y: "obj b name = Some y"
  show "P y"
  proof (cases "obj a name")
    case None
    with assms(1) y have "\<not> holds_slot y" by (auto simp: quiet_step_def split: option.splits dest: spec [of _ name])
    then show ?thesis by (rule assms(4))
  next
    case (Some x)
    with assms(1) y have "quiet_node x y" by (auto simp: quiet_step_def split: option.splits dest: spec [of _ name])
    moreover have "Name y = Name x" "P x"
      using Some y assms(2) by (auto simp: all_nodes_def dest: obj_Name)
    ultimately show ?thesis by (rule assms(3))
  qed
qed

lemma holder_quiet: "quiet_step a b \<Longrightarrow> holder h a \<Longrightarrow> holder h b"
  unfolding holder_def by (erule quiet_step_all) (auto simp: quiet_node_slot)

lemma one_slot_quiet: "quiet_step a b \<Longrightarrow> one_slot a \<Longrightarrow> one_slot b"
  by (auto simp: one_slot_def dest: holder_quiet)

lemma phased_quiet: "quiet_step a b \<Longrightarrow> all_nodes phased a \<Longrightarrow> all_nodes phased b"
  by (erule quiet_step_all) (auto simp: phased_def quiet_node_def holds_slot_def)

lemma holder_commit:
  "holder h c \<Longrightarrow> (holds_slot x' \<longrightarrow> Name x' = h) \<Longrightarrow> holder h (commit x' c)"
  unfolding holder_def by (erule all_nodes_commit) simp

lemma all_nodes_obj: "all_nodes P c \<Longrightarrow> obj c name = Some x \<Longrightarrow> P x"
  by (auto simp: all_nodes_def)

lemma all_nodes_conj: "all_nodes (\<lambda>x. P x \<and> Q x) c \<longleftrightarrow> all_nodes P c \<and> all_nodes Q c"
  by (auto simp: all_nodes_def)

lemma all_nodes_items: "cluster_wf c \<Longrightarrow> all_nodes P c \<longleftrightarrow> (\<forall>x\<in>set (items c). P x)"
  by (auto simp: all_nodes_def obj_iff)

text \<open>What a phase has yet to establish, and what it may rely on for the nodes still ahead.\<close>

definition pending :: "string set \<Rightarrow> (node \<Rightarrow> bool) \<Rightarrow> cluster \<Rightarrow> bool" where
  "pending N G c \<longleftrightarrow> (\<forall>name x. obj c name = Some x \<longrightarrow> name \<in> N \<or> G x)"

definition under_checks :: "string set \<Rightarrow> cluster \<Rightarrow> bool" where
  "under_checks N c \<longleftrightarrow> (\<forall>name\<in>N. \<exists>x. obj c name = Some x \<and> beforeChecks x)"

definition checked_wants :: "node \<Rightarrow> bool" where
  "checked_wants x \<longleftrightarrow> (beforeChecks x \<longrightarrow> rebootNeeded x)"

definition ok_counted :: "node \<Rightarrow> bool" where
  "ok_counted x \<longleftrightarrow> (okToReboot x \<longrightarrow> rebootNeeded x \<or> afterChecks x)"

definition slot_free :: "cluster \<Rightarrow> bool" where
  "slot_free = all_nodes (\<lambda>x. \<not> holds_slot x)"

lemma pending_all: "pending {} G c \<longleftrightarrow> all_nodes G c"
  by (simp add: pending_def all_nodes_def)

lemma pending_names: "cluster_wf c \<Longrightarrow> pending (Name ` set (items c)) G c"
  by (auto simp: pending_def obj_iff)

lemma pending_commit:
  "pending N G c \<Longrightarrow> G x' \<Longrightarrow> (\<And>x v. G (x\<lparr>ResourceVersion := v\<rparr>) = G x) \<Longrightarrow> pending (N - {Name x'}) G (commit x' c)"
  by (auto simp: pending_def obj_commit split: option.splits if_splits)

lemma under_checks_commit:
  "under_checks N c \<Longrightarrow> Name x' \<notin> N \<Longrightarrow> under_checks N (commit x' c)"
  by (fastforce simp: under_checks_def obj_commit)

lemma under_checks_mono: "under_checks N c \<Longrightarrow> M \<subseteq> N \<Longrightarrow> under_checks M c"
  by (auto simp: under_checks_def)

lemma pending_quiet:
  assumes "quiet_step a b" "pending N G a"
    and "\<And>x y. quiet_node x y \<Longrightarrow> G x \<Longrightarrow> G y" and "\<And>y. \<not> holds_slot y \<Longrightarrow> G y"
  shows "pending N G b"
proof -
  have "all_nodes (\<lambda>x. Name x \<in> N \<or> G x) a"
    using assms(2) by (auto simp: pending_def all_nodes_def dest: obj_Name)
  then have "all_nodes (\<lambda>x. Name x \<in> N \<or> G x) b"
    by (rule quiet_step_all [OF assms(1)]) (auto intro: assms(3,4))
  then show ?thesis by (auto simp: pending_def all_nodes_def dest: obj_Name)
qed

lemma under_checks_quiet:
  assumes "quiet_step a b" "under_checks N a"
  shows "under_checks N b"
  unfolding under_checks_def
proof
  fix name
  assume "name \<in> N"
  with assms(2) obtain x where "obj a name = Some x" "beforeChecks x" by (auto simp: under_checks_def)
  with assms(1) show "\<exists>y. obj b name = Some y \<and> beforeChecks y"
    by (auto simp: quiet_step_def quiet_node_def holds_slot_def split: option.splits dest!: spec [of _ name])
qed

lemma checked_wants_quiet: "quiet_node x y \<Longrightarrow> checked_wants x \<Longrightarrow> checked_wants y"
  by (auto simp: checked_wants_def quiet_node_def holds_slot_def)

lemma ok_counted_quiet: "quiet_node x y \<Longrightarrow> ok_counted x \<Longrightarrow> ok_counted y"
  by (auto simp: ok_counted_def quiet_node_def holds_slot_def)

lemma free_nodes: "\<not> holds_slot x \<Longrightarrow> checked_wants x \<and> ok_counted x \<and> phased x"
  by (auto simp: checked_wants_def ok_counted_def phased_def holds_slot_def)

lemma checked_version [simp]:
  "checked_wants (x\<lparr>ResourceVersion := v\<rparr>) = checked_wants x"
  "ok_counted (x\<lparr>ResourceVersion := v\<rparr>) = ok_counted x"
  by (simp_all add: checked_wants_def ok_counted_def)

lemma all_quiet:
  "quiet_step a b \<Longrightarrow> all_nodes checked_wants a \<Longrightarrow> all_nodes checked_wants b"
  "quiet_step a b \<Longrightarrow> all_nodes ok_counted a \<Longrightarrow> all_nodes ok_counted b"
  "quiet_step a b \<Longrightarrow> slot_free a \<Longrightarrow> slot_free b"
  unfolding slot_free_def
  by (erule quiet_step_all; simp add: free_nodes checked_wants_quiet ok_counted_quiet quiet_node_slot)+

lemma slot_inv_quiet: "quiet_step a b \<Longrightarrow> slot_inv a \<Longrightarrow> slot_inv b"
  by (auto simp: slot_inv_def dest: one_slot_quiet phased_quiet)

lemmas quiet_stable = holder_quiet one_slot_quiet phased_quiet all_quiet slot_inv_quiet under_checks_quiet

lemma slot_invI: "holder h c \<Longrightarrow> all_nodes phased c \<Longrightarrow> slot_inv c"
  by (auto simp: slot_inv_def one_slot_def)

lemma slot_free_inv: "slot_free c \<Longrightarrow> slot_inv c"
  by (auto simp: slot_free_def slot_inv_def one_slot_def holder_def all_nodes_def phased_def holds_slot_def)

lemma slot_inv_commit:
  "holder h a \<Longrightarrow> all_nodes phased a \<Longrightarrow> (holds_slot x' \<longrightarrow> Name x' = h) \<Longrightarrow> phased x' \<Longrightarrow> slot_inv (commit x' a)"
  by (rule slot_invI [of h]) (simp_all add: holder_commit all_nodes_commit)

lemma slot_invE:
  assumes "slot_inv c"
  obtains h where "holder h c" "all_nodes phased c"
  using assms by (auto simp: slot_inv_def one_slot_def)

lemma holderD: "holder h c \<Longrightarrow> obj c name = Some x \<Longrightarrow> holds_slot x \<Longrightarrow> name = h"
  by (auto simp: holder_def dest!: all_nodes_obj dest: obj_Name)

lemma slot_inv_free: "free_step a b \<Longrightarrow> slot_inv a \<Longrightarrow> slot_inv b"
proof -
  assume free: "free_step a b" and "slot_inv a"
  then obtain h where h: "holder h a" "all_nodes phased a" by (auto simp: slot_inv_def one_slot_def)
  have "(holds_slot y \<longrightarrow> Name y = h) \<and> phased y" if "obj b name = Some y" for name y
  proof (cases "obj a name")
    case None
    with free that have "\<not> holds_slot y" unfolding free_step_def by fastforce
    then show ?thesis by (simp add: free_nodes)
  next
    case (Some x)
    with free that have y: "okToReboot y = okToReboot x" "beforeChecks y = beforeChecks x"
      "afterChecks y = afterChecks x" "phased x \<longrightarrow> phased y"
      unfolding free_step_def by (fastforce dest: spec [of _ name])+
    with Some h holderD [OF h(1) Some] obj_Name [OF that] show ?thesis
      by (auto simp: holds_slot_def dest: all_nodes_obj)
  qed
  then show "slot_inv b" by (auto simp: slot_inv_def one_slot_def holder_def all_nodes_def)
qed

lemma slot_inv_unique:
  "slot_inv c \<Longrightarrow> obj c m = Some x \<Longrightarrow> obj c n = Some y \<Longrightarrow> holds_slot x \<Longrightarrow> holds_slot y \<Longrightarrow> m = n"
  by (auto simp: slot_inv_def one_slot_def dest: holderD)

lemma slot_inv_length:
  assumes "cluster_wf c" "slot_inv c"
  shows "length (filter holds_slot (items c)) \<le> 1"
proof -
  let ?xs = "filter holds_slot (items c)"
  have "distinct (map Name ?xs)"
    using assms(1) by (simp add: cluster_wf_def distinct_map inj_on_def)
  moreover obtain h where "holder h c" using assms(2) by (rule slot_invE)
  then have "set (map Name ?xs) \<subseteq> {h}"
    using assms(1) by (force simp: holder_def all_nodes_items)
  ultimately have "length (map Name ?xs) \<le> card {h}"
    by (metis card_mono distinct_card finite.emptyI finite.insertI)
  then show ?thesis by simp
qed

lemma slot_free_items: "list_all (\<lambda>x. \<not> holds_slot x) (items c) \<Longrightarrow> slot_free c"
  by (auto simp: slot_free_def all_nodes_def obj_def list_all_iff find_Some_iff)

lemma pending_same: "pending N G c \<Longrightarrow> obj c name = Some x \<Longrightarrow> G x \<Longrightarrow> pending (N - {name}) G c"
  by (auto simp: pending_def)

text \<open>
  The state of \<open>checkBeforeReboot\<close>: of the nodes \<open>xs\<close> it goes through, \<open>ys\<close> are done and the
  others are still under checks.
\<close>

definition checks_left :: "string \<Rightarrow> node list \<Rightarrow> node list \<Rightarrow> cluster \<Rightarrow> bool" where
  "checks_left h xs ys c \<longleftrightarrow> holder h c \<and> all_nodes phased c \<and> all_nodes checked_wants c \<and>
     all_nodes ok_counted c \<and> under_checks (Name ` set xs - Name ` set ys) c"

lemma checks_left_quiet: "quiet_step a b \<Longrightarrow> checks_left h xs ys a \<Longrightarrow> checks_left h xs ys b"
  unfolding checks_left_def using quiet_stable by blast

lemma checks_left_skip: "checks_left h xs ys a \<Longrightarrow> checks_left h xs (ys @ [n]) a"
  unfolding checks_left_def by (auto elim: under_checks_mono)

lemma checks_left_inv: "checks_left h xs ys a \<Longrightarrow> slot_inv a"
  unfolding checks_left_def by (auto intro: slot_invI)

lemma checks_left_commit:
  assumes left: "checks_left h xs ys a" "xs = ys @ n # zs" "distinct (map Name xs)" "Name n = h"
    and upd: "obj a (Name n) = Some x" "before_done_mutation as x = Inr x'" "keys_free as" "Name x' = Name n"
  shows "checks_left h xs (ys @ [n]) (commit x' a)"
proof -
  note fx = before_done_slot [OF upd(2,3)]
  have "Name n \<in> Name ` set xs - Name ` set ys" using left by auto
  with left(1) have "\<exists>x. obj a (Name n) = Some x \<and> beforeChecks x"
    unfolding checks_left_def under_checks_def by blast
  moreover have "checked_wants x" using left(1) upd(1) unfolding checks_left_def by (blast intro: all_nodes_obj)
  ultimately have "rebootNeeded x'" using fx upd(1) by (auto simp: checked_wants_def)
  then have "phased x'" "ok_counted x'" "checked_wants x'"
    using fx by (auto simp: phased_def ok_counted_def checked_wants_def)
  moreover have "under_checks (Name ` set xs - Name ` set (ys @ [n])) (commit x' a)"
    using left(1) upd(4) unfolding checks_left_def
    by (intro under_checks_commit) (auto elim!: under_checks_mono)
  ultimately show ?thesis
    using left(1,4) upd(4) unfolding checks_left_def by (simp add: holder_commit all_nodes_commit)
qed

section \<open>The phases of a cycle\<close>

locale operator_env = node_api "nc k" cl env good
  for k :: "'w Kontroller" and cl env good +
  assumes env_quiet: "env a b \<Longrightarrow> cluster_wf a \<Longrightarrow> quiet_step a b"
    and clock_law: "good w \<Longrightarrow> clock_Now k w = (w', t) \<Longrightarrow> good w' \<and> env\<^sup>*\<^sup>* (cl w) (cl w')"
    and before_free: "keys_free (beforeRebootAnnotations k)"
    and after_free: "keys_free (afterRebootAnnotations k)"
begin

lemma env_star_stable:
  assumes "env\<^sup>*\<^sup>* a b" "cluster_wf a" "P a"
    and "\<And>a b. quiet_step a b \<Longrightarrow> P a \<Longrightarrow> P b"
  shows "P b"
  using assms by (induction rule: rtranclp_induct) (auto dest: env_rtranclp_wf env_quiet)

text \<open>One update: \<open>P\<close> is stable, and the write of the closure's result takes it to \<open>Q\<close>.\<close>

lemma triple_update:
  assumes "metadata_mutation f"
    and "\<And>a b. quiet_step a b \<Longrightarrow> P a \<Longrightarrow> P b" and "\<And>a b. quiet_step a b \<Longrightarrow> Q a \<Longrightarrow> Q b"
    and "\<And>a x x'. cluster_wf a \<Longrightarrow> P a \<Longrightarrow> obj a name = Some x \<Longrightarrow> f x = Inr x' \<Longrightarrow> Name x' = name \<Longrightarrow> Q (commit x' a)"
    and "\<And>a x. cluster_wf a \<Longrightarrow> P a \<Longrightarrow> obj a name = Some x \<Longrightarrow> f x = Inr x \<Longrightarrow> Q a"
    and "\<And>a. P a \<Longrightarrow> slot_inv a"
  shows "triple (\<lambda>w. good w \<and> P (cl w)) (go_wrap g (UpdateNodeRetry (nc k) name f))
    (\<lambda>_ w. good w \<and> Q (cl w)) (\<lambda>w. good w \<and> slot_inv (cl w))"
proof (rule triple_conseq [OF triple_wrap [OF triple_UpdateNodeRetry [where P = P and Q = Q, OF assms(1)]]])
  fix a x x'
  assume *: "cluster_wf a" "P a" "obj a name = Some x" "f x = Inr x'"
  then have "Name x' = name"
    using metadata_mutation.keeps [OF assms(1)] obj_Name by blast
  with * show "Q (commit x' a)" by (rule assms(4))
qed (use assms(2,3,5,6) env_quiet in blast)+

lemma triple_list:
  assumes "\<And>a b. quiet_step a b \<Longrightarrow> P a \<Longrightarrow> P b" and "\<And>a. P a \<Longrightarrow> slot_inv a"
  shows "triple (\<lambda>w. good w \<and> P (cl w)) (list_nodes k)
    (\<lambda>xs w. good w \<and> P (cl w) \<and> xs = items (cl w)) (\<lambda>w. good w \<and> slot_inv (cl w))"
  unfolding list_nodes_def
proof (rule triple_wrap, rule tripleI)
  fix w w' xs
  assume "good w \<and> P (cl w)" and "go_call (nc_List (nc k)) w = (w', OK xs)"
  then show "good w' \<and> P (cl w') \<and> xs = items (cl w')"
    using list_law [of w w' "Inr xs"] env_star_stable [of "cl w" "cl w'" P] assms(1) good_wf by auto
qed (use list_law env_star_stable [of _ _ P] assms good_wf in
      \<open>fastforce simp: go_call_def split: prod.splits sum.splits\<close>)+

text \<open>
  A loop of updates with one closure. \<open>I\<close> is kept by every write; \<open>G\<close> holds for a node once
  it has been written, so in the end it holds for every node.
\<close>

lemma triple_update_all:
  fixes xs :: "node list"
  assumes mut: "metadata_mutation f"
    and I: "\<And>a b. quiet_step a b \<Longrightarrow> I a \<Longrightarrow> I b" "\<And>a. I a \<Longrightarrow> slot_inv a"
    and G: "\<And>x y. quiet_node x y \<Longrightarrow> G x \<Longrightarrow> G y" "\<And>y. \<not> holds_slot y \<Longrightarrow> G y"
      "\<And>x v. G (x\<lparr>ResourceVersion := v\<rparr>) = G x"
    and step: "\<And>a n x x'. n \<in> set xs \<Longrightarrow> I a \<Longrightarrow> obj a (Name n) = Some x \<Longrightarrow> f x = Inr x' \<Longrightarrow>
      Name x' = Name n \<Longrightarrow> I (commit x' a) \<and> G x'"
  shows "triple (\<lambda>w. good w \<and> I (cl w) \<and> pending (Name ` set xs) G (cl w))
    (range_loop (\<lambda>n. go_wrap (g n) (UpdateNodeRetry (nc k) (Name n) f)) xs)
    (\<lambda>_ w. good w \<and> I (cl w) \<and> all_nodes G (cl w)) (\<lambda>w. good w \<and> slot_inv (cl w))"
proof -
  define J where "J ys c \<longleftrightarrow> I c \<and> pending (Name ` set xs - Name ` set ys) G c" for ys :: "node list" and c
  have quiet: "J ys b" if "quiet_step a b" "J ys a" for a b ys
    using that(2) I(1) [OF that(1)] pending_quiet [where G = G, OF that(1)] G(1,2) unfolding J_def by blast
  have body: "triple (\<lambda>w. good w \<and> J ys (cl w)) (go_wrap (g n) (UpdateNodeRetry (nc k) (Name n) f))
    (\<lambda>_ w. good w \<and> J (ys @ [n]) (cl w)) (\<lambda>w. good w \<and> slot_inv (cl w))"
    if "xs = ys @ n # zs" for ys n zs
  proof (rule triple_update [where P = "J ys" and Q = "J (ys @ [n])", OF mut quiet quiet])
    have n: "n \<in> set xs" using that by simp
    have less: "Name ` set xs - Name ` set (ys @ [n]) = Name ` set xs - Name ` set ys - {Name n}" by auto
    show "J (ys @ [n]) (commit x' a)"
      if "J ys a" "obj a (Name n) = Some x" "f x = Inr x'" "Name x' = Name n" for a x x'
      using step [OF n _ that(2-4)] that(1,4) pending_commit [of _ G a x', OF _ _ G(3)] less unfolding J_def by metis
    show "J (ys @ [n]) a" if "J ys a" "obj a (Name n) = Some x" "f x = Inr x" for a x
      using step [OF n _ that(2,3) obj_Name [OF that(2)]] that(1) pending_same [OF _ that(2)] less unfolding J_def by metis
  qed (use I(2) J_def in blast)+
  have "triple (\<lambda>w. good w \<and> J [] (cl w))
    (range_loop (\<lambda>n. go_wrap (g n) (UpdateNodeRetry (nc k) (Name n) f)) xs)
    (\<lambda>_ w. good w \<and> J xs (cl w)) (\<lambda>w. good w \<and> slot_inv (cl w))"
    by (rule triple_range_loop [where I = "\<lambda>ys w. good w \<and> J ys (cl w)"]) (rule body)
  then show ?thesis by (simp add: pending_all J_def)
qed

lemma cleanup_triple:
  "triple (\<lambda>w. good w \<and> slot_inv (cl w)) (cleanupState k)
     (\<lambda>_ w. good w \<and> slot_inv (cl w) \<and> all_nodes checked_wants (cl w)) (\<lambda>w. good w \<and> slot_inv (cl w))"
proof -
  have step: "slot_inv (commit x' a) \<and> checked_wants x'"
    if "slot_inv a" "obj a name = Some x" "cleanup_mutation (beforeRebootAnnotations k) x = Inr x'" "Name x' = name"
    for a name x x'
    using that(1)
  proof (rule slot_invE)
    fix h
    assume h: "holder h a" "all_nodes phased a"
    note fx = cleanup_slot [OF that(3) before_free]
    have "checked_wants x'" "phased x'"
      using fx all_nodes_obj [OF h(2) that(2)] by (auto simp: checked_wants_def phased_def rebootNeeded_def sel_simps)
    moreover have "holds_slot x' \<longrightarrow> Name x' = h"
      using holderD [OF h(1) that(2)] fx that(4) by (auto simp: holds_slot_def)
    ultimately show ?thesis using slot_inv_commit [OF h] by simp
  qed
  show ?thesis
    unfolding cleanupState_def
    by (rule triple_bind [OF triple_list], fact slot_inv_quiet, assumption,
        rule triple_conseq [OF triple_update_all [where I = slot_inv and G = checked_wants]])
       (auto simp: free_nodes intro: cleanup.metadata_mutation_axioms slot_inv_quiet checked_wants_quiet
          pending_names good_wf dest: step)
qed

text \<open>A phase that lists the nodes and keeps \<open>I\<close> in every write, skipping some nodes.\<close>

lemma triple_update_some:
  assumes mut: "metadata_mutation f"
    and I: "\<And>a b. quiet_step a b \<Longrightarrow> I a \<Longrightarrow> I b" "\<And>a. I a \<Longrightarrow> slot_inv a"
    and step: "\<And>a n x x'. n \<in> set xs \<Longrightarrow> I a \<Longrightarrow> obj a (Name n) = Some x \<Longrightarrow> f x = Inr x' \<Longrightarrow>
      Name x' = Name n \<Longrightarrow> I (commit x' a)"
  shows "triple (\<lambda>w. good w \<and> I (cl w))
    (range_loop (\<lambda>n. if b n then go_wrap (g n) (UpdateNodeRetry (nc k) (Name n) f) else go_return ()) xs)
    (\<lambda>_ w. good w \<and> I (cl w)) (\<lambda>w. good w \<and> slot_inv (cl w))"
proof (rule triple_range_loop [where I = "\<lambda>_ w. good w \<and> I (cl w)"], rule triple_if)
  fix ys n zs
  assume "xs = ys @ n # zs"
  then have "n \<in> set xs" by simp
  then show "triple (\<lambda>w. good w \<and> I (cl w)) (go_wrap (g n) (UpdateNodeRetry (nc k) (Name n) f))
      (\<lambda>_ w. good w \<and> I (cl w)) (\<lambda>w. good w \<and> slot_inv (cl w))"
    by (intro triple_update mut) (auto intro: I step)
qed auto

lemma check_after_triple:
  "triple (\<lambda>w. good w \<and> slot_inv (cl w) \<and> all_nodes checked_wants (cl w)) (checkAfterReboot k)
     (\<lambda>_ w. good w \<and> slot_inv (cl w) \<and> all_nodes checked_wants (cl w)) (\<lambda>w. good w \<and> slot_inv (cl w))"
proof -
  let ?I = "\<lambda>c. slot_inv c \<and> all_nodes checked_wants c"
  have step: "?I (commit x' a)"
    if "n \<in> set xs" "?I a" "obj a (Name n) = Some x" "after_done_mutation (afterRebootAnnotations k) x = Inr x'"
      "Name x' = Name n" for a n x x' xs
    using conjunct1 [OF that(2)]
  proof (rule slot_invE)
    fix h
    assume h: "holder h a" "all_nodes phased a"
    note fx = after_done_slot [OF that(4) after_free]
    have "holds_slot x' \<longrightarrow> Name x' = h"
      using holderD [OF h(1) that(3)] fx that(5) by (auto simp: holds_slot_def)
    moreover have "phased x'" "checked_wants x'"
      using fx that(2) all_nodes_obj [of checked_wants a, OF _ that(3)] by (auto simp: phased_def checked_wants_def)
    ultimately show ?thesis using slot_inv_commit [OF h] that(2) by (simp add: all_nodes_commit)
  qed
  have quiet: "?I b" if "quiet_step a b" "?I a" for a b
    using that quiet_stable by blast
  have inv: "slot_inv a" if "?I a" for a
    using that by blast
  note upd = triple_update_some [where I = ?I, OF afterDone.metadata_mutation_axioms quiet inv step]
  show ?thesis
    unfolding checkAfterReboot_def Let_def
    by (rule triple_bind [OF triple_list [where P = ?I, OF quiet inv]], assumption+,
        rule triple_conseq [OF upd]) blast+
qed

lemma mark_after_triple:
  "triple (\<lambda>w. good w \<and> slot_inv (cl w) \<and> all_nodes checked_wants (cl w)) (markAfterReboot k)
     (\<lambda>_ w. good w \<and> slot_inv (cl w) \<and> all_nodes checked_wants (cl w) \<and> all_nodes ok_counted (cl w))
     (\<lambda>w. good w \<and> slot_inv (cl w))"
proof -
  let ?I = "\<lambda>h c. holder h c \<and> all_nodes phased c \<and> all_nodes checked_wants c"
  let ?sel = "\<lambda>xs. FilterNodesByRequirement (FilterNodesByAnnotation xs justRebootedSelector) notAfterRebootReq"
  have sel: "x \<in> set (?sel xs) \<longleftrightarrow> x \<in> set xs \<and> justRebooted x \<and> \<not> afterChecks x" for x xs
    by (auto simp: byRequirement.flt_set byAnnotation.flt_set justRebooted_def afterChecks_def requirements_match)
  have step: "?I h (commit x' a) \<and> ok_counted x'"
    if "?I h a" "obj a name = Some x" "mark_mutation LabelAfterReboot (afterRebootAnnotations k) x = Inr x'"
      "Name x' = h" for a name x x' h
  proof -
    note fx = mark_slot [OF that(3) after_free]
    have "phased x'" "checked_wants x'" "ok_counted x'"
      using fx that(1) all_nodes_obj [of phased a, OF _ that(2)] all_nodes_obj [of checked_wants a, OF _ that(2)]
      by (auto simp: phased_def checked_wants_def ok_counted_def key_simps)
    with that show ?thesis by (simp add: holder_commit all_nodes_commit)
  qed
  have quiet: "?I h b" if "quiet_step a b" "?I h a" for a b h
    using that quiet_stable by blast
  have start: "\<exists>h. (good w \<and> ?I h (cl w) \<and> pending (Name ` set (?sel xs)) ok_counted (cl w)) \<and>
      (\<forall>n\<in>set (?sel xs). Name n = h)"
    if w: "good w" "slot_inv (cl w)" "all_nodes checked_wants (cl w)" "xs = items (cl w)" for w xs
    using w(2)
  proof (rule slot_invE)
    fix h
    assume h: "holder h (cl w)" "all_nodes phased (cl w)"
    have wf: "cluster_wf (cl w)" using w(1) by (rule good_wf)
    have "pending (Name ` set (?sel xs)) ok_counted (cl w)"
      using h(2) sel [of _ xs] w(4) by (auto simp: pending_def all_nodes_items wf phased_def ok_counted_def obj_iff)
    moreover have "\<forall>n\<in>set (?sel xs). Name n = h"
      using h(1) sel [of _ xs] w(4)
      by (auto simp: holder_def all_nodes_items wf holds_slot_def justRebooted_def okToReboot_def sel_simps)
    ultimately show ?thesis using h w by blast
  qed
  have upd: "triple (\<lambda>w. good w \<and> ?I h (cl w) \<and> pending (Name ` set (?sel xs)) ok_counted (cl w))
      (range_loop (\<lambda>n. go_wrap (g n) (UpdateNodeRetry (nc k) (Name n)
          (mark_mutation LabelAfterReboot (afterRebootAnnotations k)))) (?sel xs))
      (\<lambda>_ w. good w \<and> slot_inv (cl w) \<and> all_nodes checked_wants (cl w) \<and> all_nodes ok_counted (cl w))
      (\<lambda>w. good w \<and> slot_inv (cl w))"
    if "\<forall>n\<in>set (?sel xs). Name n = h" for h xs g
    by (rule triple_conseq [OF triple_update_all [where I = "?I h" and G = ok_counted,
          OF marking.metadata_mutation_axioms quiet]])
       (use that step in \<open>auto intro: slot_invI ok_counted_quiet simp: free_nodes\<close>)
  have post: "triple (\<lambda>w. good w \<and> (slot_inv (cl w) \<and> all_nodes checked_wants (cl w)) \<and> xs = items (cl w))
      (range_loop (\<lambda>n. go_wrap (g n) (UpdateNodeRetry (nc k) (Name n)
          (mark_mutation LabelAfterReboot (afterRebootAnnotations k)))) (?sel xs))
      (\<lambda>_ w. good w \<and> slot_inv (cl w) \<and> all_nodes checked_wants (cl w) \<and> all_nodes ok_counted (cl w))
      (\<lambda>w. good w \<and> slot_inv (cl w))" for xs g
    by (rule triple_choose [where b = "\<lambda>h. \<forall>n\<in>set (?sel xs). Name n = h" and
          P = "\<lambda>h w. good w \<and> ?I h (cl w) \<and> pending (Name ` set (?sel xs)) ok_counted (cl w)"])
       (use start in blast, rule upd)
  show ?thesis
    unfolding markAfterReboot_def Let_def mark_def go_wrap_wrap
    by (rule triple_bind [OF triple_list [where P = "\<lambda>c. slot_inv c \<and> all_nodes checked_wants c"]])
       (use quiet_stable in blast, blast, rule post)
qed

text \<open>
  The nodes \<open>checkBeforeReboot\<close> allows to reboot are still under checks when it writes them,
  so they still need the reboot.
\<close>

lemma check_before_triple:
  "triple (\<lambda>w. good w \<and> slot_inv (cl w) \<and> all_nodes checked_wants (cl w) \<and> all_nodes ok_counted (cl w))
     (checkBeforeReboot k) (\<lambda>_ w. good w \<and> slot_inv (cl w) \<and> all_nodes ok_counted (cl w))
     (\<lambda>w. good w \<and> slot_inv (cl w))"
proof -
  let ?I = "\<lambda>c. slot_inv c \<and> all_nodes checked_wants c \<and> all_nodes ok_counted c"
  let ?as = "beforeRebootAnnotations k"
  let ?sel = "\<lambda>xs. FilterNodesByRequirement xs beforeRebootReq"
  let ?body = "\<lambda>g n. if hasAllAnnotations n ?as
      then go_wrap (g n) (UpdateNodeRetry (nc k) (Name n) (before_done_mutation ?as)) else go_return ()"
  let ?ok = "\<lambda>xs h. distinct (map Name xs) \<and> (\<forall>n\<in>set xs. Name n = h)"
  have body: "triple (\<lambda>w. good w \<and> checks_left h xs ys (cl w)) (?body g n)
      (\<lambda>_ w. good w \<and> checks_left h xs (ys @ [n]) (cl w)) (\<lambda>w. good w \<and> slot_inv (cl w))"
    if "?ok xs h" "xs = ys @ n # zs" for h xs g ys n zs
    using that
    by (intro triple_if triple_update beforeDone.metadata_mutation_axioms triple_return)
       (auto intro: checks_left_quiet checks_left_skip checks_left_inv checks_left_commit before_free)
  have loop: "triple (\<lambda>w. good w \<and> checks_left h xs [] (cl w)) (range_loop (?body g) xs)
      (\<lambda>_ w. good w \<and> slot_inv (cl w) \<and> all_nodes ok_counted (cl w)) (\<lambda>w. good w \<and> slot_inv (cl w))"
    if "?ok xs h" for h xs g
    by (rule triple_conseq [OF triple_range_loop [where I = "\<lambda>ys w. good w \<and> checks_left h xs ys (cl w)", OF body [OF that]]])
       (auto intro: slot_invI simp: checks_left_def)
  have start: "\<exists>h. (good w \<and> checks_left h (?sel xs) [] (cl w)) \<and> ?ok (?sel xs) h"
    if w: "good w \<and> ?I (cl w) \<and> xs = items (cl w)" for w xs
  proof -
    have wf: "cluster_wf (cl w)" using w by (blast intro: good_wf)
    from w obtain h where h: "holder h (cl w)" "all_nodes phased (cl w)" by (blast elim: slot_invE)
    have sel: "x \<in> set (?sel xs) \<longleftrightarrow> obj (cl w) (Name x) = Some x \<and> beforeChecks x" for x
      using w wf by (simp add: byRequirement.flt_set beforeChecks_def requirements_match obj_iff)
    have "distinct (map Name (?sel xs))"
      using wf w by (simp add: byRequirement.flt_eq cluster_wf_def distinct_map inj_on_def)
    moreover have "\<forall>n\<in>set (?sel xs). Name n = h"
      using sel holderD [OF h(1)] by (auto simp: holds_slot_def)
    moreover have "under_checks (Name ` set (?sel xs)) (cl w)"
      using sel by (auto simp: under_checks_def)
    ultimately show ?thesis using h w by (auto simp: checks_left_def)
  qed
  have "triple (\<lambda>w. good w \<and> ?I (cl w) \<and> xs = items (cl w)) (range_loop (?body g) (?sel xs))
      (\<lambda>_ w. good w \<and> slot_inv (cl w) \<and> all_nodes ok_counted (cl w)) (\<lambda>w. good w \<and> slot_inv (cl w))" for g xs
    by (rule triple_choose [where b = "?ok (?sel xs)" and P = "\<lambda>h w. good w \<and> checks_left h (?sel xs) [] (cl w)"])
       (use start in blast, rule loop)
  then show ?thesis
    unfolding checkBeforeReboot_def Let_def
    by (intro triple_bind [OF triple_list [where P = ?I]]) (use quiet_stable in blast)+
qed

lemma inside_window_triple:
  assumes "\<And>a b. quiet_step a b \<Longrightarrow> P a \<Longrightarrow> P b"
  shows "triple (\<lambda>w. good w \<and> P (cl w)) (inside_window k) (\<lambda>_ w. good w \<and> P (cl w)) E"
proof -
  have tick: "good w' \<and> P (cl w')" if "good w" "P (cl w)" "clock_Now k w = (w', t)" for w w' t
    using clock_law [OF that(1,3)] env_star_stable [of "cl w" "cl w'" P] that assms good_wf by blast
  show ?thesis
  proof (rule tripleI)
    fix w w' b
    assume w: "good w \<and> P (cl w)" and run: "inside_window k w = (w', OK b)"
    obtain w1 t1 where c1: "clock_Now k w = (w1, t1)" by fastforce
    obtain w2 t2 where c2: "clock_Now k w1 = (w2, t2)" by fastforce
    from run c1 c2 have "w' = w \<or> w' = w2"
      by (auto simp: inside_window_def Let_def split: option.splits)
    with w tick [OF _ _ c1] tick [OF _ _ c2] show "good w' \<and> P (cl w')" by blast
  qed (auto simp: inside_window_def Let_def split: option.splits prod.splits)
qed

lemma rebooting_nodes_empty:
  assumes "cluster_wf c" "all_nodes ok_counted c" "rebooting_nodes (items c) = []"
  shows "slot_free c"
proof -
  have "\<not> holds_slot x" if "x \<in> set (items c)" for x
    using assms that
    by (auto simp: rebooting_nodes_def byAnnotation.flt_none byRequirement.flt_none sel_simps all_nodes_items
        holds_slot_def ok_counted_def slot_defs)
  with assms(1) show ?thesis by (simp add: slot_free_def all_nodes_items)
qed

lemma mark_before_triple:
  "triple (\<lambda>w. good w \<and> slot_inv (cl w) \<and> all_nodes ok_counted (cl w)) (markBeforeReboot k)
     (\<lambda>_ w. good w \<and> slot_inv (cl w)) (\<lambda>w. good w \<and> slot_inv (cl w))"
proof -
  let ?as = "beforeRebootAnnotations k"
  let ?P = "\<lambda>xs c. slot_inv c \<and> (rebooting_nodes xs = [] \<longrightarrow> slot_free c)"
  have step: "slot_inv (commit x' a)"
    if "slot_free a" "obj a name = Some x" "mark_mutation LabelBeforeReboot ?as x = Inr x'" for a x x' name
  proof (rule slot_inv_commit [where h = "Name x'"])
    have x: "\<not> holds_slot x" using that(1,2) unfolding slot_free_def by (rule all_nodes_obj)
    then show "phased x'"
      using mark_slot [OF that(3) before_free] by (simp add: phased_def holds_slot_def)
    show "holder (Name x') a" "all_nodes phased a"
      using that(1) by (auto simp: slot_free_def holder_def phased_def holds_slot_def all_nodes_def)
  qed simp
  have one: "triple (\<lambda>w. good w \<and> ?P xs (cl w)) (go_wrap g (UpdateNodeRetry (nc k) name (mark_mutation LabelBeforeReboot ?as)))
      (\<lambda>_ w. good w \<and> slot_inv (cl w)) (\<lambda>w. good w \<and> slot_inv (cl w))"
    if "rebooting_nodes xs = []" for xs g name
    using that
    by (intro triple_conseq [OF triple_update [where P = slot_free and Q = slot_inv, OF marking.metadata_mutation_axioms]])
       (auto intro: step slot_free_inv quiet_stable)
  have sole: "triple (\<lambda>w. good w \<and> ?P xs (cl w))
      (go_bind (go_wrap g (UpdateNodeRetry (nc k) name (mark_mutation LabelBeforeReboot ?as))) (\<lambda>_. go_return ()))
      (\<lambda>_ w. good w \<and> slot_inv (cl w)) (\<lambda>w. good w \<and> slot_inv (cl w))"
    if "rebooting_nodes xs = []" for xs g name
    by (rule triple_bind [OF one [OF that]]) auto
  have free: "rebooting_nodes xs = []" if "\<not> maxRebootingNodes \<le> length (rebooting_nodes xs)" for xs
    using that by (simp add: maxRebootingNodes_def not_less_eq_eq)
  have choose: "take (maxRebootingNodes - length (rebooting_nodes xs)) (rebootable_nodes xs) = [hd (rebootable_nodes xs)]"
    if "\<not> maxRebootingNodes \<le> length (rebooting_nodes xs)" "rebootable_nodes xs \<noteq> []" for xs
    using that by (cases "rebootable_nodes xs") (simp_all add: maxRebootingNodes_def not_less_eq_eq)
  have rest: "triple (\<lambda>w. good w \<and> ?P xs (cl w))
     (if \<not> inside then go_return () else
       if maxRebootingNodes \<le> length (rebooting_nodes xs) then go_return () else
       if rebootable_nodes xs = [] then go_return () else
         range_loop (\<lambda>n. go_wrap (g n) (UpdateNodeRetry (nc k) (Name n) (mark_mutation LabelBeforeReboot ?as)))
           (take (maxRebootingNodes - length (rebooting_nodes xs)) (rebootable_nodes xs)))
     (\<lambda>_ w. good w \<and> slot_inv (cl w)) (\<lambda>w. good w \<and> slot_inv (cl w))" for xs inside g
    by (intro triple_if triple_return) (blast | (subst choose, assumption, assumption, unfold range_loop.simps, intro sole free))+
  have start: "?P xs (cl w)" if "good w" "slot_inv (cl w)" "all_nodes ok_counted (cl w)" "xs = items (cl w)" for xs w
    using that rebooting_nodes_empty good_wf by blast
  have quiet: "?P xs b" if "quiet_step a b" "?P xs a" for xs a b
    using that quiet_stable by blast
  have win: "triple (\<lambda>w. good w \<and> (slot_inv (cl w) \<and> all_nodes ok_counted (cl w)) \<and> xs = items (cl w))
      (inside_window k) (\<lambda>_ w. good w \<and> ?P xs (cl w)) (\<lambda>w. good w \<and> slot_inv (cl w))" for xs
    by (rule triple_conseq [OF inside_window_triple [where P = "?P xs", OF quiet]]) (use start in blast)+
  show ?thesis
    unfolding markBeforeReboot_def Let_def mark_def go_wrap_wrap
    by (rule triple_bind [OF triple_list [where P = "\<lambda>c. slot_inv c \<and> all_nodes ok_counted c"]])
       (use quiet_stable in blast, blast, rule triple_bind [OF win rest])
qed

lemma process_triple:
  "triple (\<lambda>w. good w \<and> slot_inv (cl w)) (process_phases k)
     (\<lambda>_ w. good w \<and> slot_inv (cl w)) (\<lambda>w. good w \<and> slot_inv (cl w))"
  unfolding process_phases_def
  by (intro triple_bind [OF cleanup_triple] triple_bind [OF check_after_triple] triple_bind [OF mark_after_triple]
      triple_bind [OF check_before_triple] mark_before_triple)

lemma process_keeps_slot:
  assumes "good w" "slot_inv (cl w)" "Kontroller_process k w = (w', r)"
  shows "good w' \<and> slot_inv (cl w')"
proof -
  obtain r' where "process_phases k w = (w', r')"
    using assms(3) by (auto simp: Kontroller_process_def split: prod.splits result.splits)
  from triple_end [OF process_triple _ this] assms(1,2) show ?thesis by blast
qed

lemma operated_slot:
  assumes "operated k cl good w0 w" "good w0" "slot_inv (cl w0)"
  shows "good w \<and> slot_inv (cl w)"
  using assms
proof (induction rule: operated.induct)
  case (cycle w w' r)
  then show ?case using process_keeps_slot by blast
next
  case (between w w')
  then show ?case using slot_inv_free by blast
qed simp

end

end
