(* ===== verification/Store.thy ===== *)
theory Store
  imports Reboot_Safety
begin

text \<open>
  An executable API server that meets the contract \<open>node_api\<close>. It answers the calls of
  \<open>v1core.NodeInterface\<close> from a stored cluster and a script: the script gives, for every call
  in order, what other parties write before the call is served and whether it is answered with
  an error. All interleavings and all failures are therefore runs of some script. Witnesses
  and counterexamples evaluate the program on it.

  \<open>allowed\<close> restricts what other parties do; an action that is not allowed is skipped.
  \<open>anything\<close> allows every action, \<open>quiet_action\<close> the ones of a quiet environment.
\<close>

section \<open>Definitions\<close>

datatype action = Put node | Remove string

record store =
  st_cluster :: cluster
  st_script :: "(action list \<times> (string \<times> string) option) list"
  st_clock :: int

definition put_node :: "node \<Rightarrow> cluster \<Rightarrow> cluster" where
  "put_node x c = (case obj c (Name x) of
      Some _ \<Rightarrow> commit x c
    | None \<Rightarrow> \<lparr>rev_no = Suc (rev_no c), items = items c @ [x\<lparr>ResourceVersion := Suc (rev_no c)\<rparr>]\<rparr>)"

definition remove_node :: "string \<Rightarrow> cluster \<Rightarrow> cluster" where
  "remove_node name c = \<lparr>rev_no = Suc (rev_no c), items = filter (\<lambda>x. Name x \<noteq> name) (items c)\<rparr>"

fun perform :: "action \<Rightarrow> cluster \<Rightarrow> cluster" where
  "perform (Put x) c = put_node x c"
| "perform (Remove name) c = remove_node name c"

fun perform_all :: "(action \<Rightarrow> cluster \<Rightarrow> bool) \<Rightarrow> action list \<Rightarrow> cluster \<Rightarrow> cluster" where
  "perform_all allowed [] c = c"
| "perform_all allowed (a # as) c =
     perform_all allowed as (if allowed a c then perform a c else c)"

definition anything :: "action \<Rightarrow> cluster \<Rightarrow> bool" where
  "anything a c = True"

fun quiet_action :: "action \<Rightarrow> cluster \<Rightarrow> bool" where
  "quiet_action (Put y) c = (case obj c (Name y) of Some x \<Rightarrow> quiet_node x y | None \<Rightarrow> \<not> holds_slot y)"
| "quiet_action (Remove name) c = (case obj c name of Some x \<Rightarrow> \<not> holds_slot x | None \<Rightarrow> True)"

text \<open>The next entry of the script: the world after the actions, and the error if any.\<close>

definition next_entry :: "(action \<Rightarrow> cluster \<Rightarrow> bool) \<Rightarrow> store \<Rightarrow> store \<times> goerr option" where
  "next_entry allowed w = (case st_script w of
      [] \<Rightarrow> (w, None)
    | (acts, fault) # rest \<Rightarrow>
        (w\<lparr>st_cluster := perform_all allowed acts (st_cluster w), st_script := rest\<rparr>,
         map_option (\<lambda>(reason, msg). StatusError reason msg) fault))"

definition store_Get :: "(action \<Rightarrow> cluster \<Rightarrow> bool) \<Rightarrow> string \<Rightarrow> store \<Rightarrow> store \<times> (goerr + node)" where
  "store_Get allowed name w = (case next_entry allowed w of
      (w', Some e) \<Rightarrow> (w', Inl e)
    | (w', None) \<Rightarrow> (case obj (st_cluster w') name of
          None \<Rightarrow> (w', Inl (StatusError StatusReasonNotFound name))
        | Some x \<Rightarrow> (w', Inr x)))"

definition store_List :: "(action \<Rightarrow> cluster \<Rightarrow> bool) \<Rightarrow> store \<Rightarrow> store \<times> (goerr + node list)" where
  "store_List allowed w = (case next_entry allowed w of
      (w', Some e) \<Rightarrow> (w', Inl e)
    | (w', None) \<Rightarrow> (w', Inr (items (st_cluster w'))))"

definition store_Update ::
  "(action \<Rightarrow> cluster \<Rightarrow> bool) \<Rightarrow> node \<Rightarrow> store \<Rightarrow> store \<times> node \<times> goerr option" where
  "store_Update allowed x w = (case next_entry allowed w of
      (w', Some e) \<Rightarrow> (w', zero_node, Some e)
    | (w', None) \<Rightarrow> (case obj (st_cluster w') (Name x) of
          None \<Rightarrow> (w', zero_node, Some (StatusError StatusReasonNotFound (Name x)))
        | Some y \<Rightarrow>
            if ResourceVersion y \<noteq> ResourceVersion x
            then (w', zero_node, Some (StatusError StatusReasonConflict (Name x)))
            else (w'\<lparr>st_cluster := commit x (st_cluster w')\<rparr>,
                  x\<lparr>ResourceVersion := Suc (rev_no (st_cluster w'))\<rparr>, None)))"

definition store_nc :: "(action \<Rightarrow> cluster \<Rightarrow> bool) \<Rightarrow> store node_iface" where
  "store_nc allowed = \<lparr>nc_Get = store_Get allowed, nc_List = store_List allowed,
     nc_Update = store_Update allowed,
     nc_Watch = (\<lambda>_ _ w. (w, Inl (ErrorString ''no watches''))), nc_Next = (\<lambda>_ w. (w, Closed))\<rparr>"

definition no_kube :: "'w kube_iface" where
  "no_kube = \<lparr>ds_List = (\<lambda>_ _ w. (w, Inr [])), ds_Get = (\<lambda>_ name w. (w, Inl (StatusError StatusReasonNotFound name))),
     ds_Create = (\<lambda>_ _ w. (w, None)), ds_Delete = (\<lambda>_ _ w. (w, None)),
     pods_List = (\<lambda>_ _ w. (w, Inr [])), pods_Get = (\<lambda>_ name w. (w, zero_pod, Some (StatusError StatusReasonNotFound name))),
     pods_Delete = (\<lambda>_ _ w. (w, None))\<rparr>"

definition store_Now :: "store \<Rightarrow> store \<times> int" where
  "store_Now w = (w\<lparr>st_clock := st_clock w + 1\<rparr>, st_clock w)"

definition store_controller ::
  "(action \<Rightarrow> cluster \<Rightarrow> bool) \<Rightarrow> Periodic option \<Rightarrow> int \<Rightarrow> string list \<Rightarrow> string list \<Rightarrow> store Kontroller" where
  "store_controller allowed window loc before after =
     \<lparr>kc = no_kube, nc = store_nc allowed, beforeRebootAnnotations = before,
      afterRebootAnnotations = after, namespace = ''reboot-coordinator'',
      autoLabelContainerLinux = False, rebootWindow = window, manageAgent = False,
      agentImageRepo = [], clock_Now = store_Now, clock_loc = loc\<rparr>"

text \<open>A Container Linux node with the given labels and annotations.\<close>

definition plain_node :: "string \<Rightarrow> (string \<times> string) list \<Rightarrow> (string \<times> string) list \<Rightarrow> node" where
  "plain_node name labels annotations =
     \<lparr>Name = name, ResourceVersion = 1, Labels = Some (map_of labels),
      Annotations = Some (map_of annotations), SpecUnschedulable = False,
      OSImage = ''Container Linux by CoreOS''\<rparr>"

definition env_rel :: "(action \<Rightarrow> cluster \<Rightarrow> bool) \<Rightarrow> cluster \<Rightarrow> cluster \<Rightarrow> bool" where
  "env_rel allowed a b \<longleftrightarrow> (\<exists>act. allowed act a \<and> b = perform act a)"

section \<open>The server meets the contract\<close>

lemma obj_remove: "obj (remove_node m c) name = (if name = m then None else obj c name)"
proof -
  have "find (\<lambda>x. Name x = name) (filter (\<lambda>x. Name x \<noteq> m) xs) =
      (if name = m then None else find (\<lambda>x. Name x = name) xs)" for xs :: "node list"
    by (induction xs) auto
  then show ?thesis by (simp add: obj_def remove_node_def del: if_split)
qed

lemma obj_put:
  "obj (put_node x c) name = (if name = Name x then Some (x\<lparr>ResourceVersion := Suc (rev_no c)\<rparr>) else obj c name)"
proof (cases "obj c (Name x)")
  case None
  have "find P (xs @ [y]) = (case find P xs of None \<Rightarrow> if P y then Some y else None | Some z \<Rightarrow> Some z)"
    for P and xs :: "node list" and y
    by (induction xs) auto
  with None show ?thesis by (auto simp: put_node_def obj_def split: option.splits)
next
  case (Some y)
  then show ?thesis by (auto simp: put_node_def obj_commit split: option.splits)
qed

lemma perform_versioned:
  assumes "cluster_wf c"
  shows "versioned c (perform a c)"
proof (cases a)
  case (Put x)
  have "cluster_wf (put_node x c)"
  proof (cases "obj c (Name x)")
    case None
    then have "Name x \<notin> Name ` set (items c)"
      by (auto simp: obj_def find_None_iff)
    with assms None show ?thesis
      by (auto simp: put_node_def cluster_wf_def list_all_iff le_Suc_eq)
  qed (simp add: put_node_def cluster_wf_commit assms)
  moreover have "rev_no (put_node x c) = Suc (rev_no c)" by (simp add: put_node_def split: option.split)
  ultimately show ?thesis using Put by (auto simp: versioned_def obj_put split: if_splits)
next
  case (Remove name)
  have "cluster_wf (remove_node name c)"
    using assms by (auto simp: cluster_wf_def remove_node_def list_all_iff distinct_map_filter intro: le_SucI)
  with Remove show ?thesis
    by (auto simp: versioned_def obj_remove split: if_splits) (simp add: remove_node_def)
qed

lemma perform_all_env: "(env_rel allowed)\<^sup>*\<^sup>* c (perform_all allowed as c)"
proof (induction as arbitrary: c)
  case (Cons a as)
  have "(env_rel allowed)\<^sup>*\<^sup>* c (if allowed a c then perform a c else c)"
    by (auto simp: env_rel_def intro!: r_into_rtranclp)
  then show ?case using Cons.IH [of "if allowed a c then perform a c else c"]
    unfolding perform_all.simps by (rule rtranclp_trans)
qed simp

lemma perform_all_wf: "cluster_wf c \<Longrightarrow> cluster_wf (perform_all allowed as c)"
  by (induction as arbitrary: c) (use perform_versioned in \<open>auto simp: versioned_def\<close>)

lemma next_entry_env:
  assumes "next_entry allowed w = (w', e)"
  shows "(env_rel allowed)\<^sup>*\<^sup>* (st_cluster w) (st_cluster w')"
    and "cluster_wf (st_cluster w) \<Longrightarrow> cluster_wf (st_cluster w')"
    and "\<And>e'. e = Some e' \<Longrightarrow> e' \<noteq> ErrWaitTimeout"
  using assms by (auto simp: next_entry_def perform_all_env perform_all_wf split: list.splits)

lemma store_Get_law:
  assumes "store_Get allowed name w = (w', r)"
  shows "(env_rel allowed)\<^sup>*\<^sup>* (st_cluster w) (st_cluster w')"
    and "cluster_wf (st_cluster w) \<Longrightarrow> cluster_wf (st_cluster w')"
    and "\<And>x. r = Inr x \<Longrightarrow> obj (st_cluster w') name = Some x"
  using assms by (auto simp: store_Get_def split: prod.splits option.splits dest: next_entry_env)

lemma store_List_law:
  assumes "store_List allowed w = (w', r)"
  shows "(env_rel allowed)\<^sup>*\<^sup>* (st_cluster w) (st_cluster w')"
    and "cluster_wf (st_cluster w) \<Longrightarrow> cluster_wf (st_cluster w')"
    and "\<And>xs. r = Inr xs \<Longrightarrow> xs = items (st_cluster w')"
  using assms by (auto simp: store_List_def split: prod.splits option.splits dest: next_entry_env)

lemma store_Update_law:
  assumes "store_Update allowed x w = (w', x', None)"
  shows "cluster_wf (st_cluster w) \<Longrightarrow> cluster_wf (st_cluster w')"
    and "\<exists>a b y. (env_rel allowed)\<^sup>*\<^sup>* (st_cluster w) a \<and> obj a (Name x) = Some y \<and>
        ResourceVersion y = ResourceVersion x \<and> stored x a b \<and> (env_rel allowed)\<^sup>*\<^sup>* b (st_cluster w')"
proof -
  obtain w1 where e: "next_entry allowed w = (w1, None)"
    using assms by (auto simp: store_Update_def split: prod.splits option.splits)
  with assms obtain y where y: "obj (st_cluster w1) (Name x) = Some y" "ResourceVersion y = ResourceVersion x"
    and b: "stored x (st_cluster w1) (st_cluster w')"
    by (auto simp: store_Update_def stored_def split: option.splits if_splits)
  from y b next_entry_env(1) [OF e]
  show "\<exists>a b y. (env_rel allowed)\<^sup>*\<^sup>* (st_cluster w) a \<and> obj a (Name x) = Some y \<and>
        ResourceVersion y = ResourceVersion x \<and> stored x a b \<and> (env_rel allowed)\<^sup>*\<^sup>* b (st_cluster w')"
    by blast
  show "cluster_wf (st_cluster w')" if "cluster_wf (st_cluster w)"
    using b next_entry_env(2) [OF e that] by (auto simp: stored_def cluster_wf_commit)
qed

lemma store_Update_error_law:
  assumes "store_Update allowed x w = (w', x', Some e)"
  shows "(env_rel allowed)\<^sup>*\<^sup>* (st_cluster w) (st_cluster w')"
    and "cluster_wf (st_cluster w) \<Longrightarrow> cluster_wf (st_cluster w')" and "e \<noteq> ErrWaitTimeout"
  using assms by (auto simp: store_Update_def split: prod.splits option.splits if_splits dest: next_entry_env)

interpretation server:
  node_api "store_nc allowed" st_cluster "env_rel allowed" "\<lambda>w. cluster_wf (st_cluster w)"
proof unfold_locales
  fix x w w' x'
  assume "cluster_wf (st_cluster w)" and "nc_Update (store_nc allowed) x w = (w', x', None)"
  then show "cluster_wf (st_cluster w') \<and> (\<exists>a b y. (env_rel allowed)\<^sup>*\<^sup>* (st_cluster w) a \<and>
      obj a (Name x) = Some y \<and> ResourceVersion y = ResourceVersion x \<and> stored x a b \<and>
      (env_rel allowed)\<^sup>*\<^sup>* b (st_cluster w'))"
    using store_Update_law [of allowed x w w' x'] by (simp add: store_nc_def)
qed (auto simp: store_nc_def env_rel_def perform_versioned dest: store_Get_law store_List_law
        store_Update_error_law)

lemma quiet_action_quiet: "quiet_action a c \<Longrightarrow> quiet_step c (perform a c)"
  by (cases a)
     (auto simp: quiet_step_def obj_put obj_remove quiet_node_def split: option.splits)

text \<open>A configuration of checks that leaves the keys of the protocol alone.\<close>

locale check_config =
  fixes before :: "string list" and after :: "string list"
  assumes before_keys: "keys_free before"
    and after_keys: "keys_free after"

sublocale check_config < quiet_server:
  operator_env "store_controller quiet_action window loc before after" st_cluster
    "env_rel quiet_action" "\<lambda>w. cluster_wf (st_cluster w)" for window loc
proof (intro operator_env.intro operator_env_axioms.intro)
  show "node_api (nc (store_controller quiet_action window loc before after)) st_cluster
      (env_rel quiet_action) (\<lambda>w. cluster_wf (st_cluster w))"
    by (simp add: store_controller_def server.node_api_axioms)
qed (auto simp: store_controller_def env_rel_def store_Now_def before_keys after_keys quiet_action_quiet)

text \<open>The checks of \<open>src/examples/reboot-annotations\<close>.\<close>

interpretation example_checks:
  check_config "[Prefix @ ''before-reboot-test'']" "[Prefix @ ''after-reboot-test'']"
  by unfold_locales (simp_all add: keys_free_def key_defs)

section \<open>Properties\<close>

text \<open>
  C9: An update through the API is atomic. If \<open>UpdateNodeRetry\<close> returns nil, its closure was applied once,
  to the node as it was stored at the moment of the write, however often others changed the cluster
  between the read and the write; nothing they wrote is lost.
\<close>

theorem update_is_atomic:
  assumes "node_api api cl env good" "metadata_mutation f" "good w" "UpdateNodeRetry api name f w = (w', OK u)"
  shows "\<exists>a b x y. env\<^sup>*\<^sup>* (cl w) a \<and> obj a name = Some x \<and> f x = Inr y \<and> stored y a b \<and> env\<^sup>*\<^sup>* b (cl w')"
  using triple_OK [OF node_api.attempt_conflicts_env [OF assms(1,2), of w name], of w w' u] assms(3,4) by blast

lemma succeeded: "is_OK (snd p) \<Longrightarrow> p = (fst p, OK ())"
  by (cases p; cases "snd p") auto

text \<open>Another party writes between the read and the write of the first attempt.\<close>

definition contended_world :: store where
  "contended_world = \<lparr>st_cluster = \<lparr>rev_no = 1, items = [plain_node ''a'' [] []]\<rparr>,
     st_script = [([], None), ([Put (plain_node ''a'' [] [(''other'', ''1'')])], None)], st_clock = 0\<rparr>"

theorem update_is_atomic_witness:
  "\<exists>w'. UpdateNodeRetry (store_nc anything) ''a'' (set_annotations [(''mine'', ''2'')]) contended_world = (w', OK ()) \<and>
     map (\<lambda>x. (gomap_get (Annotations x) ''mine'', gomap_get (Annotations x) ''other'')) (items (st_cluster w')) =
       [(''2'', ''1'')] \<and>
     (\<exists>a b x y. (env_rel anything)\<^sup>*\<^sup>* (st_cluster contended_world) a \<and> obj a ''a'' = Some x \<and>
        set_annotations [(''mine'', ''2'')] x = Inr y \<and> stored y a b \<and> (env_rel anything)\<^sup>*\<^sup>* b (st_cluster w'))"
proof -
  let ?run = "UpdateNodeRetry (store_nc anything) ''a'' (set_annotations [(''mine'', ''2'')]) contended_world"
  have ok: "is_OK (snd ?run)"
    and seen: "map (\<lambda>x. (gomap_get (Annotations x) ''mine'', gomap_get (Annotations x) ''other''))
      (items (st_cluster (fst ?run))) = [(''2'', ''1'')]"
    and wf: "cluster_wf (st_cluster contended_world)" by code_simp+
  have run: "?run = (fst ?run, OK ())" by (rule succeeded [OF ok])
  from update_is_atomic [OF server.node_api_axioms setAnnotations.metadata_mutation_axioms wf run]
  show ?thesis by (intro exI [of _ "fst ?run"] conjI run seen)
qed


definition conflicting_world :: store where
  "conflicting_world = contended_world\<lparr>st_script := concat (replicate 4
     [([], None), ([Put (plain_node ''a'' [] [(''other'', ''1'')])], None)])\<rparr>"


text \<open>
  C38: \<open>Unschedulable\<close> cannot recover from a conflict. Its closure overwrites the node it retries with by
  what the failed \<open>Update\<close> returned, the empty node; a server that rejects the empty node makes every
  further attempt fail.
\<close>

theorem unschedulable_conflict_is_final:
  assumes "nc_Get api name w = (w1, Inr n)"
    and "nc_Update api (n\<lparr>SpecUnschedulable := b\<rparr>) w1 = (w2, zero_node, Some e)" "IsConflict e" "good w2"
    and "\<And>w. good w \<Longrightarrow> \<exists>w' e. nc_Update api zero_node w = (w', zero_node, Some e) \<and> e \<noteq> ErrWaitTimeout \<and> good w'"
  shows "\<exists>w' e'. Unschedulable api name b w = (w', Err e')"
proof -
  have retry: "good v \<Longrightarrow> \<exists>w' e'. conflict_retry k (put_attempt api) (Some l) (v, zero_node) = ((w', zero_node), Err e')" for k l v
  proof (induction k arbitrary: l v)
    case (Suc k)
    obtain v' e' where "nc_Update api zero_node v = (v', zero_node, Some e')" "e' \<noteq> ErrWaitTimeout" "good v'"
      using assms(5) Suc.prems by blast
    with Suc.IH [of v' e'] show ?case by (auto simp: put_attempt_def)
  qed simp
  obtain w' e' where "conflict_retry (Suc (Suc (Suc 0))) (put_attempt api) (Some e) (w2, zero_node) = ((w', zero_node), Err e')"
    using retry assms(4) by blast
  with assms(2,3) have "RetryOnConflict DefaultBackoff (put_attempt api) (w1, n\<lparr>SpecUnschedulable := b\<rparr>) = ((w', zero_node), Err e')"
    by (simp add: RetryOnConflict_eq put_attempt_def)
  with assms(1) show ?thesis by (simp add: Unschedulable_def)
qed

theorem unschedulable_conflict_is_final_witness:
  "\<exists>w' e. Unschedulable (store_nc anything) ''a'' True contended_world = (w', Err e)"
proof -
  let ?api = "store_nc anything" and ?n = "plain_node ''a'' [] []"
  let ?w1 = "contended_world\<lparr>st_script := tl (st_script contended_world)\<rparr>"
  let ?w2 = "contended_world\<lparr>st_script := [], st_cluster := perform (Put (plain_node ''a'' [] [(''other'', ''1'')])) (st_cluster contended_world)\<rparr>"
  have "nc_Get ?api ''a'' contended_world = (?w1, Inr ?n)"
    by (simp add: store_nc_def store_Get_def next_entry_def contended_world_def obj_def plain_node_def)
  moreover have "nc_Update ?api (?n\<lparr>SpecUnschedulable := True\<rparr>) ?w1 =
      (?w2, zero_node, Some (StatusError StatusReasonConflict ''a''))"
    by (simp add: store_nc_def store_Update_def next_entry_def contended_world_def obj_def plain_node_def anything_def
        put_node_def commit_def)
  moreover have "\<exists>w' e. nc_Update ?api zero_node w = (w', zero_node, Some e) \<and> e \<noteq> ErrWaitTimeout \<and>
      st_script w' = [] \<and> obj (st_cluster w') [] = None" if "st_script w = [] \<and> obj (st_cluster w) [] = None" for w
    using that by (simp add: store_nc_def store_Update_def next_entry_def zero_node_def)
  moreover have "st_script ?w2 = [] \<and> obj (st_cluster ?w2) [] = None"
    by (simp add: contended_world_def obj_def plain_node_def put_node_def commit_def)
  ultimately show ?thesis
    using unschedulable_conflict_is_final [of ?api "''a''" contended_world ?w1 ?n True ?w2
        "StatusError StatusReasonConflict ''a''" "\<lambda>w. st_script w = [] \<and> obj (st_cluster w) [] = None"]
    by (simp add: IsConflict_def)
qed

end
