(* ===== verification/Agent_Safety.thy ===== *)
theory Agent_Safety
  imports Agent Store
begin

text \<open>
  The agent keeps the rules that the operator's coordination rests on (\<open>Reboot_Safety\<close>). The
  closures it passes to \<open>UpdateNodeRetry\<close> never touch the annotation and the labels that
  belong to the operator. All of them are steps of a quiet environment, with one exception: the
  write at its start, which withdraws \<open>reboot-needed\<close>. That one is allowed between two cycles.
\<close>

definition free_node :: "node \<Rightarrow> node \<Rightarrow> bool" where
  "free_node x y \<longleftrightarrow> okToReboot y = okToReboot x \<and> beforeChecks y = beforeChecks x \<and>
     afterChecks y = afterChecks x \<and> (phased x \<longrightarrow> phased y)"

text \<open>Writes that leave alone the keys of the operator, and what they do to the others.\<close>

lemma set_annotations_labels_slot:
  assumes "set_annotations_labels a l x = Inr y" "distinct (map fst a)" "distinct (map fst l)"
    and "AnnotationOkToReboot \<notin> fst ` set a" "LabelBeforeReboot \<notin> fst ` set l" "LabelAfterReboot \<notin> fst ` set l"
  shows "okToReboot y = okToReboot x" "beforeChecks y = beforeChecks x" "afterChecks y = afterChecks x"
    and "gomap_get (Annotations y) k =
      (case map_of a k of Some v \<Rightarrow> v | None \<Rightarrow> gomap_get (Annotations x) k)"
proof -
  from assms(1) obtain an ls where y: "y = x\<lparr>Annotations := an, Labels := ls\<rparr>"
    and an: "gomap_set_all a (Annotations x) = Inr an" and ls: "gomap_set_all l (Labels x) = Inr ls"
    by (auto simp: mutation_defs mutation_simps split: sum.splits)
  note get = gomap_get_set_all [OF an assms(2)] gomap_get_set_all [OF ls assms(3)]
  have none: "map_of a AnnotationOkToReboot = None" "map_of l LabelBeforeReboot = None" "map_of l LabelAfterReboot = None"
    using assms(4-6) by (auto simp: map_of_eq_None_iff)
  show "okToReboot y = okToReboot x" "beforeChecks y = beforeChecks x" "afterChecks y = afterChecks x"
    by (simp_all add: y okToReboot_def beforeChecks_def afterChecks_def get none)
  show "gomap_get (Annotations y) k = (case map_of a k of Some v \<Rightarrow> v | None \<Rightarrow> gomap_get (Annotations x) k)"
    by (simp add: y get)
qed

lemma agent_start_free:
  assumes "set_annotations_labels start_annotations start_labels x = Inr y"
  shows "free_node x y"
proof -
  have keys: "distinct (map fst start_annotations)" "distinct (map fst start_labels)"
    "AnnotationOkToReboot \<notin> fst ` set start_annotations"
    "LabelBeforeReboot \<notin> fst ` set start_labels" "LabelAfterReboot \<notin> fst ` set start_labels"
    by (simp_all add: start_annotations_def start_labels_def key_simps)
  note w = set_annotations_labels_slot [OF assms keys]
  have "justRebooted y" if "okToReboot y"
    using that w(4) by (simp add: justRebooted_def okToReboot_def sel_simps start_annotations_def key_simps)
  then show ?thesis using w(1-3) by (auto simp: free_node_def phased_def)
qed

lemma status_quiet:
  assumes "set_annotations_labels (status_annotations s) (status_labels s) x = Inr y"
  shows "quiet_node x y"
proof -
  have keys: "distinct (map fst (status_annotations s))" "distinct (map fst (status_labels s))"
    "AnnotationOkToReboot \<notin> fst ` set (status_annotations s)"
    "LabelBeforeReboot \<notin> fst ` set (status_labels s)" "LabelAfterReboot \<notin> fst ` set (status_labels s)"
    by (auto simp: status_annotations_def status_labels_def key_simps)
  note w = set_annotations_labels_slot [OF assms keys]
  have needed: "rebootNeeded y \<longleftrightarrow> rebootNeeded x \<or> CurrentOperation s = UpdateStatusUpdatedNeedReboot"
    by (auto simp: rebootNeeded_def w(4) status_annotations_def key_simps)
  have "justRebooted y \<or> rebootNeeded y" if "justRebooted x"
    using that needed
    by (cases "CurrentOperation s = UpdateStatusUpdatedNeedReboot")
       (auto simp: justRebooted_def sel_simps w(4) status_annotations_def key_simps)
  with needed w(1-3) show ?thesis by (auto simp: quiet_node_def)
qed

lemma set_annotations_slot:
  assumes "set_annotations a x = Inr y" "distinct (map fst a)" "AnnotationOkToReboot \<notin> fst ` set a"
  shows "okToReboot y = okToReboot x" "beforeChecks y = beforeChecks x" "afterChecks y = afterChecks x"
    and "gomap_get (Annotations y) k =
      (case map_of a k of Some v \<Rightarrow> v | None \<Rightarrow> gomap_get (Annotations x) k)"
proof -
  have "set_annotations_labels a [] x = Inr y"
    using assms(1) by (auto simp: mutation_defs mutation_simps)
  from set_annotations_labels_slot [OF this assms(2) _ assms(3)]
  show "okToReboot y = okToReboot x" "beforeChecks y = beforeChecks x" "afterChecks y = afterChecks x"
    "gomap_get (Annotations y) k = (case map_of a k of Some v \<Rightarrow> v | None \<Rightarrow> gomap_get (Annotations x) k)"
    by simp_all
qed

lemma progress_quiet:
  assumes "set_annotations (progress_annotations b) x = Inr y" "rebootNeeded x"
  shows "quiet_node x y"
proof -
  have keys: "distinct (map fst (progress_annotations b))" "AnnotationOkToReboot \<notin> fst ` set (progress_annotations b)"
    by (auto simp: progress_annotations_def key_simps)
  note w = set_annotations_slot [OF assms(1) keys]
  have "rebootNeeded y" using assms(2) by (simp add: rebootNeeded_def w(4) progress_annotations_def key_simps)
  with w(1-3) show ?thesis by (auto simp: quiet_node_def)
qed

lemma schedulable_quiet:
  assumes "set_annotations [(AnnotationAgentMadeUnschedulable, constFalse)] x = Inr y"
  shows "quiet_node x y"
proof -
  note w = set_annotations_slot [OF assms]
  have "rebootNeeded y = rebootNeeded x" "justRebooted y = justRebooted x"
    by (simp_all add: rebootNeeded_def justRebooted_def sel_simps w(4) key_simps)
  with w(1-3) show ?thesis by (simp add: quiet_node_def key_simps)
qed

lemma info_quiet:
  assumes "set_labels (info_labels vi) x = Inr y"
  shows "quiet_node x y"
proof -
  obtain ls where y: "y = x\<lparr>Labels := ls\<rparr>" and ls: "gomap_set_all (info_labels vi) (Labels x) = Inr ls"
    using assms by (auto simp: set_labels_def mutation_simps)
  have "distinct (map fst (info_labels vi))" by (simp add: info_labels_def key_simps)
  from gomap_get_set_all [OF ls this] y show ?thesis
    by (simp add: quiet_node_def slot_defs info_labels_def key_simps)
qed

lemma unschedulable_quiet: "quiet_node x (x\<lparr>SpecUnschedulable := b\<rparr>)"
  by (simp add: quiet_node_def slot_defs)

text \<open>From nodes to clusters: what a write does to the whole.\<close>

lemma commit_quiet:
  assumes "obj c (Name y) = Some x" "quiet_node x y"
  shows "quiet_step c (commit y c)"
  using assms by (auto simp: quiet_step_def obj_commit quiet_node_def split: option.split)

lemma commit_free:
  assumes "obj c (Name y) = Some x" "free_node x y"
  shows "free_step c (commit y c)"
  using assms by (auto simp: free_step_def obj_commit free_node_def split: option.splits if_splits)

end
