(* ===== verification/Agent_Rely.thy ===== *)
theory Agent_Rely
  imports Agent_Safety
begin

text \<open>
  A whole run of the agent keeps the rules of the reboot protocol. The run is not atomic: the
  operator, the other agents and the agent's own status watcher change the cluster while it goes
  on. The locale \<open>agent_env\<close> says what the agent relies on.

  \<^item> The others keep the invariant of the operator (\<open>slot_inv\<close>) and do not withdraw
    \<open>reboot-needed\<close> from the agent's node, which only the agent does, at its start.
  \<^item> A watch event shows the node as it was at some point of the watch; the agent writes nothing
    while it watches, so from that point on only others changed the cluster.
  \<^item> A failed \<open>Update\<close> returns the empty node (client-go does), and the server does not accept a
    node without a name.

  In return, no step of the agent breaks the invariant (\<open>process_safe\<close>): the permission it has
  seen still stands when it announces the reboot.
\<close>

section \<open>Triples over runs\<close>

definition run_triple ::
  "('w \<Rightarrow> bool) \<Rightarrow> ('w, 'a) run \<Rightarrow> ('a \<Rightarrow> 'w \<Rightarrow> bool) \<Rightarrow> ('w \<Rightarrow> bool) \<Rightarrow> bool" where
  "run_triple P m Q E \<longleftrightarrow> (\<forall>w w' r. P w \<longrightarrow> m w = Some (w', r) \<longrightarrow>
     (case r of OK a \<Rightarrow> Q a w' | _ \<Rightarrow> E w'))"

lemma run_triple_go: "triple P m Q E \<Longrightarrow> run_triple P (run_go m) Q E"
  by (fastforce simp: triple_def run_triple_def run_go_def split: result.split)

lemma run_triple_bind:
  assumes "run_triple P m R E" and "\<And>a. run_triple (R a) (f a) Q E"
  shows "run_triple P (run_bind m f) Q E"
  using assms by (fastforce simp: run_triple_def run_bind_def split: option.splits prod.splits result.splits)

lemma run_tripleD:
  "run_triple P m Q E \<Longrightarrow> P w \<Longrightarrow> m w = Some (w', r) \<Longrightarrow> case r of OK a \<Rightarrow> Q a w' | _ \<Rightarrow> E w'"
  by (simp add: run_triple_def)

lemma run_triple_wrap:
  assumes "run_triple P m Q E"
  shows "run_triple P (run_wrap g m) Q E"
  unfolding run_triple_def
proof (intro allI impI)
  fix w w' r assume "P w" "run_wrap g m w = Some (w', r)"
  moreover from this(2) obtain s where "m w = Some (w', s)" "r = (case s of Err e \<Rightarrow> Err (g e) | _ \<Rightarrow> s)"
    by (auto simp: run_wrap_def)
  ultimately show "case r of OK a \<Rightarrow> Q a w' | _ \<Rightarrow> E w'"
    using run_tripleD [OF assms, of w w' s] by (cases s) auto
qed

lemma run_triple_logged:
  assumes "run_triple P m (\<lambda>_. Q) Q"
  shows "run_triple P (run_logged m) (\<lambda>_. Q) Q"
  unfolding run_triple_def
proof (intro allI impI)
  fix w w' r assume "P w" "run_logged m w = Some (w', r)"
  moreover from this(2) obtain s where "m w = Some (w', s)"
    by (auto simp: run_logged_def)
  ultimately show "case r of OK a \<Rightarrow> Q w' | _ \<Rightarrow> Q w'"
    using run_tripleD [OF assms, of w w' s] by (cases s; cases r) auto
qed

lemma run_triple_each:
  assumes "\<And>x. run_triple P (f x) (\<lambda>_. P) E"
  shows "run_triple P (run_each f xs) (\<lambda>_. P) E"
proof (induction xs)
  case Nil
  then show ?case by (simp add: run_triple_def)
next
  case (Cons x xs)
  have "run_each f (x # xs) = run_bind (f x) (\<lambda>_. run_each f xs)" by (rule ext) simp
  with run_triple_bind [OF assms Cons.IH] show ?case by simp
qed

lemma run_triple_conseq:
  assumes "run_triple P m Q E" and "\<And>w. P' w \<Longrightarrow> P w" and "\<And>a w. Q a w \<Longrightarrow> Q' a w" and "\<And>w. E w \<Longrightarrow> E' w"
  shows "run_triple P' m Q' E'"
  using assms by (fastforce simp: run_triple_def split: result.splits)

lemma run_triple_moved:
  "run_triple P m Q E \<Longrightarrow> (\<And>w. P' w \<Longrightarrow> P (f w)) \<Longrightarrow> run_triple P' (\<lambda>w. m (f w)) Q E"
  unfolding run_triple_def by blast

lemma triple_keeps: "(\<And>w w' r. P w \<Longrightarrow> m w = (w', r) \<Longrightarrow> P w') \<Longrightarrow> triple P m (\<lambda>_. P) P"
  by (rule tripleI) blast+

lemma triple_keepsD: "triple P m (\<lambda>_. P) P \<Longrightarrow> P w \<Longrightarrow> m w = (w', r) \<Longrightarrow> P w'"
  by (erule (2) triple_end)

text \<open>Loops that retry keep what every attempt keeps.\<close>

lemma triple_backoff:
  assumes "triple P cond (\<lambda>_. P) P"
  shows "triple P (ExponentialBackoff_loop n cond) (\<lambda>_. P) P"
proof (induction n)
  case (Suc n)
  show ?case unfolding triple_def
  proof (intro allI impI)
    fix w assume "P w"
    obtain w' r where c: "cond w = (w', r)" by fastforce
    with assms \<open>P w\<close> have "P w'" by (cases r) (force simp: triple_def)+
    with Suc.IH c show "case ExponentialBackoff_loop (Suc n) cond w of
        (w', OK a) \<Rightarrow> P w' | (w', Err e) \<Rightarrow> P w' | (w', Panic p) \<Rightarrow> P w'"
      by (cases r) (auto simp: triple_def)
  qed
qed (simp add: triple_def)

lemma triple_RetryOnError:
  assumes "triple P fn (\<lambda>_. P) P"
  shows "triple P (RetryOnError b fn) (\<lambda>_. P) P"
proof -
  have "triple P (error_condition fn) (\<lambda>_. P) P"
    using assms by (fastforce simp: triple_def error_condition_def split: prod.splits result.splits)
  from triple_backoff [OF this, of "nat (Steps b)"] show ?thesis
    by (fastforce simp: triple_def RetryOnError_def ExponentialBackoff_def split: prod.splits result.splits if_splits)
qed

lemma run_triple_WaitFor:
  assumes "triple P fn (\<lambda>_. P) P"
  shows "run_triple P (WaitFor fuel ticks fn) (\<lambda>_. P) P"
proof (induction fuel arbitrary: ticks)
  case (Suc fuel)
  have step: "P w'" if "P w" "fn w = (w', r)" for w w' r
    using triple_end [OF assms that(1,2)] by blast
  show ?case unfolding run_triple_def
  proof (intro allI impI)
    fix w w' r assume w: "P w" "WaitFor (Suc fuel) ticks fn w = Some (w', r)"
    obtain v s where v: "fn w = (v, s)" by fastforce
    with step w(1) have "P v" by blast
    with Suc.IH [unfolded run_triple_def] v w(2) show "case r of OK a \<Rightarrow> P w' | _ \<Rightarrow> P w'"
      by (cases s) (auto split: if_splits option.splits nat.splits result.splits)
  qed
qed (simp add: run_triple_def)

lemma run_triple_PollImmediate:
  assumes "triple P fn (\<lambda>_. P) P"
  shows "run_triple P (PollImmediate fuel ticks fn) (\<lambda>_. P) P"
  unfolding run_triple_def
proof (intro allI impI)
  fix w w' r assume w: "P w" "PollImmediate fuel ticks fn w = Some (w', r)"
  obtain v s where v: "fn w = (v, s)" by fastforce
  have "P v" by (rule triple_keepsD [OF assms w(1) v])
  with v w(2) run_tripleD [OF run_triple_WaitFor [OF assms], of v fuel ticks w' r]
  show "case r of OK a \<Rightarrow> P w' | _ \<Rightarrow> P w'" by (cases s) (auto simp: PollImmediate_def split: if_splits)
qed

text \<open>The loops of the drain keep what the look-ups keep.\<close>

lemma owner_loop_keeps:
  assumes "\<And>ns name w w' r. P w \<Longrightarrow> ds_Get kube ns name w = (w', r) \<Longrightarrow> P w'"
  shows "P w \<Longrightarrow> owner_loop kube p refs w = (w', r) \<Longrightarrow> P w'"
proof (induction refs arbitrary: w)
  case (Cons ref refs)
  have "P v" if "getDaemonsetController kube (Namespace p) ref w = (v, s)" for v s
    using that Cons.prems(1)
    by (auto simp: getDaemonsetController_def go_call_def split: if_splits prod.splits sum.splits dest: assms)
  with Cons show ?case by (auto split: if_splits prod.splits result.splits)
qed simp

lemma pods_loop_keeps:
  assumes "\<And>ns name w w' r. P w \<Longrightarrow> ds_Get kube ns name w = (w', r) \<Longrightarrow> P w'"
  shows "triple P (pods_loop kube acc ps) (\<lambda>_. P) P"
proof (induction ps arbitrary: acc)
  case (Cons p ps)
  have "P v" if "getOwnerDaemonset kube p w = (v, s)" "P w" for v s w
  proof (cases "OwnerReferences p = []")
    case False
    with that(1) have "owner_loop kube p (OwnerReferences p) w = (v, s)" by (simp add: getOwnerDaemonset_def)
    from owner_loop_keeps [of P kube, OF assms that(2) this] show ?thesis .
  qed (use that in \<open>simp add: getOwnerDaemonset_def\<close>)
  note owner = this
  show ?case
  proof (rule triple_keeps)
    fix w w' r assume w: "P w" "pods_loop kube acc (p # ps) w = (w', r)"
    obtain v s where v: "getOwnerDaemonset kube p w = (v, s)" by fastforce
    have "P v" by (rule owner [OF v w(1)])
    with v w(2) consider "w' = v" | acc' u where "P u" "pods_loop kube acc' ps u = (w', r)"
      using w(1) by (cases s) (auto split: if_splits)
    then show "P w'" using \<open>P v\<close> triple_keepsD [OF Cons.IH] by cases auto
  qed
qed (simp add: triple_def)

lemma pod_gone_keeps:
  assumes "\<And>ns name w w' r. P w \<Longrightarrow> pods_Get (ag_kc k) ns name w = (w', r) \<Longrightarrow> P w'"
  shows "triple P (pod_gone k p) (\<lambda>_. P) P"
  by (rule triple_keeps) (auto simp: pod_gone_def split: prod.splits dest: assms)

lemma quiet_free: "quiet_node x y \<Longrightarrow> free_node x y"
  by (auto simp: quiet_node_def free_node_def phased_def holds_slot_def)

section \<open>What the agent relies on\<close>

definition needed_at :: "string \<Rightarrow> cluster \<Rightarrow> bool" where
  "needed_at name c \<longleftrightarrow> (case obj c name of Some x \<Rightarrow> rebootNeeded x | None \<Rightarrow> True)"

lemma needed_at_iff: "needed_at name c \<longleftrightarrow> (\<forall>x. obj c name = Some x \<longrightarrow> rebootNeeded x)"
  by (simp add: needed_at_def split: option.split)

definition env_call :: "('w \<Rightarrow> cluster) \<Rightarrow> (cluster \<Rightarrow> cluster \<Rightarrow> bool) \<Rightarrow> ('w \<Rightarrow> bool) \<Rightarrow> ('w \<Rightarrow> 'w \<times> 'a) \<Rightarrow> bool" where
  "env_call cl env good m \<longleftrightarrow>
     (\<forall>w. good w \<longrightarrow> good (fst (m w)) \<and> env\<^sup>*\<^sup>* (cl w) (cl (fst (m w))))"

definition kube_calls :: "('w \<Rightarrow> cluster) \<Rightarrow> (cluster \<Rightarrow> cluster \<Rightarrow> bool) \<Rightarrow> ('w \<Rightarrow> bool) \<Rightarrow> 'w kube_iface \<Rightarrow> bool" where
  "kube_calls cl env good kube \<longleftrightarrow>
     (\<forall>ns name. env_call cl env good (ds_Get kube ns name) \<and> env_call cl env good (pods_Get kube ns name) \<and>
        env_call cl env good (pods_Delete kube ns name) \<and> env_call cl env good (pods_List kube ns name))"

locale agent_env = node_api "ag_nc a" cl env good
  for a :: "'w Klocksmith" and cl env good +
  assumes env_slot: "env c d \<Longrightarrow> cluster_wf c \<Longrightarrow> slot_inv c \<Longrightarrow> slot_inv d"
    and env_needed: "env c d \<Longrightarrow> cluster_wf c \<Longrightarrow> needed_at (ag_node a) c \<Longrightarrow> needed_at (ag_node a) d"
    and watch_law: "env_call cl env good (nc_Watch (ag_nc a) sel v)"
    and next_law: "env_call cl env good (nc_Next (ag_nc a) h)"
    and event_law: "good w \<Longrightarrow> nc_Next (ag_nc a) h w = (w', Received ev) \<Longrightarrow> ev_Object ev = NodeObject n \<Longrightarrow>
      \<exists>c. cluster_wf c \<and> obj c (ag_node a) = Some n \<and> env\<^sup>*\<^sup>* c (cl w')"
    and update_zero: "nc_Update (ag_nc a) x w = (w', y, Some e) \<Longrightarrow> y = zero_node"
    and zero_rejected: "good w \<Longrightarrow> nc_Update (ag_nc a) zero_node w \<noteq> (w', y, None)"
    and kube_law: "kube_calls cl env good (ag_kc a)"
    and outside_law: "env_call cl env good (\<lambda>w. (ag_spawn a w, ()))"
      "env_call cl env good (\<lambda>w. (ag_Reboot a w, ()))" "env_call cl env good (\<lambda>w. (ag_sleep a w, ()))"
begin

abbreviation safe :: "'w \<Rightarrow> bool" where
  "safe w \<equiv> good w \<and> slot_inv (cl w)"

abbreviation permitted :: "'w \<Rightarrow> bool" where
  "permitted w \<equiv> good w \<and> slot_inv (cl w) \<and> needed_at (ag_node a) (cl w)"

lemma star_slot: "env\<^sup>*\<^sup>* c d \<Longrightarrow> cluster_wf c \<Longrightarrow> slot_inv c \<Longrightarrow> slot_inv d"
  by (induction rule: rtranclp_induct) (auto dest: env_rtranclp_wf env_slot)

lemma star_needed: "env\<^sup>*\<^sup>* c d \<Longrightarrow> cluster_wf c \<Longrightarrow> needed_at (ag_node a) c \<Longrightarrow> needed_at (ag_node a) d"
  by (induction rule: rtranclp_induct) (auto dest: env_rtranclp_wf env_needed)

lemma env_call_safe: "env_call cl env good m \<Longrightarrow> safe w \<Longrightarrow> m w = (w', r) \<Longrightarrow> safe w'"
  unfolding env_call_def using star_slot good_wf by (metis fst_conv)

lemma env_call_permitted: "env_call cl env good m \<Longrightarrow> permitted w \<Longrightarrow> m w = (w', r) \<Longrightarrow> permitted w'"
  unfolding env_call_def using star_slot star_needed good_wf by (metis fst_conv)

lemma get_call: "env_call cl env good (nc_Get (ag_nc a) name)"
  unfolding env_call_def
proof (intro allI impI)
  fix w assume "good w"
  from get_law [OF this, of name] show "good (fst (nc_Get (ag_nc a) name w)) \<and> env\<^sup>*\<^sup>* (cl w) (cl (fst (nc_Get (ag_nc a) name w)))"
    by (cases "nc_Get (ag_nc a) name w") auto
qed

lemma get_safe: "safe w \<Longrightarrow> nc_Get (ag_nc a) name w = (w', r) \<Longrightarrow> safe w'"
  by (rule env_call_safe [OF get_call])

lemma kube_call:
  "env_call cl env good (ds_Get (ag_kc a) ns name)" "env_call cl env good (pods_Get (ag_kc a) ns name)"
  "env_call cl env good (pods_Delete (ag_kc a) ns name)" "env_call cl env good (pods_List (ag_kc a) ns name)"
  using kube_law by (simp_all add: kube_calls_def)

lemma triple_call: "env_call cl env good m \<Longrightarrow> triple safe (go_call m) (\<lambda>_. safe) safe"
  by (rule tripleI) (auto simp: go_call_def split: prod.splits sum.splits dest: env_call_safe)

lemma triple_error: "env_call cl env good m \<Longrightarrow> triple safe (go_error m) (\<lambda>_. safe) safe"
  by (rule tripleI) (auto simp: go_error_def split: prod.splits option.splits dest: env_call_safe)

text \<open>A write whose closure keeps what belongs to the operator.\<close>

lemma update_safe:
  assumes "metadata_mutation f" "\<And>x y. f x = Inr y \<Longrightarrow> free_node x y"
  shows "triple safe (UpdateNodeRetry (ag_nc a) name f) (\<lambda>_. safe) safe"
proof -
  have "slot_inv (commit y c)" if "slot_inv c" "obj c name = Some x" "f x = Inr y" for c x y
  proof -
    have "Name y = name" using that obj_Name metadata_mutation.keeps_name [OF assms(1)] by metis
    with that assms(2) show ?thesis by (metis commit_free slot_inv_free)
  qed
  then show ?thesis
    using triple_UpdateNodeRetry [of f slot_inv slot_inv name, OF assms(1)] env_slot by blast
qed

lemma progress_safe:
  "triple permitted (UpdateNodeRetry (ag_nc a) (ag_node a) (set_annotations (progress_annotations b))) (\<lambda>_. safe) safe"
proof -
  let ?f = "set_annotations (progress_annotations b)"
  let ?P = "\<lambda>c. slot_inv c \<and> needed_at (ag_node a) c"
  have step: "slot_inv (commit y c)" if "?P c" "obj c (ag_node a) = Some x" "?f x = Inr y" for c x y
  proof -
    have "Name y = ag_node a" using that obj_Name setAnnotations.keeps_name by metis
    moreover have "quiet_node x y" using that progress_quiet by (auto simp: needed_at_iff)
    ultimately show ?thesis using that quiet_free commit_free slot_inv_free by metis
  qed
  have "triple (\<lambda>w. good w \<and> ?P (cl w)) (UpdateNodeRetry (ag_nc a) (ag_node a) ?f)
      (\<lambda>_ w. good w \<and> slot_inv (cl w)) (\<lambda>w. good w \<and> ?P (cl w))"
    using triple_UpdateNodeRetry [of ?f ?P slot_inv "ag_node a", OF setAnnotations.metadata_mutation_axioms]
      env_slot env_needed step by blast
  then show ?thesis by (rule triple_conseq) auto
qed

text \<open>Reading the node, once and with retries.\<close>

lemma get_node_keeps:
  assumes "\<And>w w' r. P w \<Longrightarrow> nc_Get (ag_nc a) (ag_node a) w = (w', r) \<Longrightarrow> P w'"
  shows "run_triple P (get_node a) (\<lambda>_. P) P"
proof -
  have "triple (\<lambda>(w, n). P w) (get_attempt (ag_nc a) (ag_node a)) (\<lambda>_ (w, n). P w) (\<lambda>(w, n). P w)"
    by (rule tripleI) (auto simp: get_attempt_def split: prod.splits sum.splits dest: assms)
  then have retry: "triple (\<lambda>(w, n). P w) (RetryOnError DefaultBackoff (get_attempt (ag_nc a) (ag_node a)))
      (\<lambda>_ (w, n). P w) (\<lambda>(w, n). P w)"
    by (rule triple_RetryOnError)
  have get: "triple P (GetNodeRetry (ag_nc a) (ag_node a)) (\<lambda>_. P) P"
  proof (rule triple_keeps)
    fix w w' r
    assume w: "P w" "GetNodeRetry (ag_nc a) (ag_node a) w = (w', r)"
    obtain v n s where v: "RetryOnError DefaultBackoff (get_attempt (ag_nc a) (ag_node a)) (w, None) = ((v, n), s)"
      by (metis prod.collapse)
    with w(2) have "w' = v" by (cases s) (auto simp: GetNodeRetry_def)
    with triple_keepsD [OF retry _ v] w(1) show "P w'" by auto
  qed
  have d: "triple P (deref n) (\<lambda>_. P) P" for n :: "node option"
    by (rule triple_keeps) (auto simp: deref_def)
  show ?thesis
    unfolding get_node_def by (rule run_triple_bind [OF run_triple_go [OF get] run_triple_go [OF d]])
qed

lemma get_node_safe: "run_triple safe (get_node a) (\<lambda>_. safe) safe"
  by (rule get_node_keeps) (rule get_safe)

lemma get_node_permitted: "run_triple permitted (get_node a) (\<lambda>_. permitted) permitted"
  by (rule get_node_keeps) (rule env_call_permitted [OF get_call])

text \<open>
  \<open>Unschedulable\<close>: only the first attempt can write, because a failed one leaves the empty node,
  and what it writes differs from what was read in one field.
\<close>

lemma put_zero_safe:
  "triple (\<lambda>(w, n). safe w \<and> n = zero_node) (conflict_retry k (put_attempt (ag_nc a)) l) (\<lambda>_ (w, n). safe w) (\<lambda>(w, n). safe w)"
proof (induction k arbitrary: l)
  case 0
  then show ?case by (auto simp: triple_def error_result_def split: option.split)
next
  case (Suc k)
  show ?case unfolding triple_def
  proof (intro allI impI)
    fix wn assume "case wn of (w, n) \<Rightarrow> safe w \<and> n = zero_node"
    then obtain w where w: "wn = (w, zero_node)" "safe w" by (cases wn) auto
    obtain w' n' r where u: "nc_Update (ag_nc a) zero_node w = (w', n', r)" by (metis prod.collapse)
    with zero_rejected w(2) obtain e where e: "r = Some e" by (cases r) auto
    have "safe w'" using update_error_law [OF _ u [unfolded e]] w(2) star_slot good_wf by blast
    moreover have "n' = zero_node" by (rule update_zero [OF u [unfolded e]])
    ultimately show "case conflict_retry (Suc k) (put_attempt (ag_nc a)) l wn of
        (x, OK u) \<Rightarrow> (case x of (w, n) \<Rightarrow> safe w)
      | (x, Err e) \<Rightarrow> (case x of (w, n) \<Rightarrow> safe w)
      | (x, Panic p) \<Rightarrow> (case x of (w, n) \<Rightarrow> safe w)"
      using Suc.IH [of "Some e"] w u e
      by (auto simp: put_attempt_def triple_def error_result_def split: option.splits)
  qed
qed

lemma unschedulable_safe: "triple safe (Unschedulable (ag_nc a) (ag_node a) b) (\<lambda>_. safe) safe"
proof (rule triple_keeps)
  fix w w' r assume w: "safe w" "Unschedulable (ag_nc a) (ag_node a) b w = (w', r)"
  obtain w1 g where get: "nc_Get (ag_nc a) (ag_node a) w = (w1, g)" by fastforce
  have w1: "safe w1" by (rule get_safe [OF w(1) get])
  show "safe w'"
  proof (cases g)
    case (Inl e)
    with w get w1 show ?thesis by (auto simp: Unschedulable_def)
  next
    case (Inr n)
    let ?n = "n\<lparr>SpecUnschedulable := b\<rparr>"
    have n: "obj (cl w1) (ag_node a) = Some n" using get_law [OF _ get] w(1) Inr by blast
    obtain w2 n2 u where put: "nc_Update (ag_nc a) ?n w1 = (w2, n2, u)" by (metis prod.collapse)
    have w2: "safe w2 \<and> (u \<noteq> None \<longrightarrow> n2 = zero_node)"
    proof (cases u)
      case None
      from update_law [OF _ put [unfolded None]] w1 obj_Name [OF n] obtain c d y where
        c: "good w2" "env\<^sup>*\<^sup>* (cl w1) c" "obj c (ag_node a) = Some y" "ResourceVersion y = ResourceVersion n"
          "stored ?n c d" "env\<^sup>*\<^sup>* d (cl w2)" by auto
      have wf: "cluster_wf (cl w1)" "cluster_wf c" using w1 good_wf c(2) env_rtranclp_wf by blast+
      have "n = y" using versioned_same [OF env_rtranclp_versioned [OF c(2) wf(1)] wf(1) n c(3)] c(4) by simp
      with c(3) have "free_step c (commit ?n c)"
        using commit_free [of c ?n n] obj_Name [OF n] quiet_free [OF unschedulable_quiet] by simp
      moreover have "slot_inv c" using star_slot [OF c(2) wf(1)] w1 by blast
      ultimately have "slot_inv d" "cluster_wf d"
        using c(5) slot_inv_free wf(2) cluster_wf_commit by (auto simp: stored_def)
      with c(1,6) None show ?thesis using star_slot by blast
    next
      case (Some e)
      from update_error_law [OF _ put [unfolded Some]] w1 update_zero [OF put [unfolded Some]] show ?thesis
        using star_slot good_wf by blast
    qed
    obtain v m s where v: "RetryOnConflict DefaultBackoff (put_attempt (ag_nc a)) (w1, ?n) = ((v, m), s)"
      by (metis prod.collapse)
    have "safe v"
    proof (cases "\<exists>e. u = Some e \<and> IsConflict e")
      case True
      then obtain e where e: "u = Some e" "IsConflict e" by blast
      with v put have "conflict_retry 3 (put_attempt (ag_nc a)) (Some e) (w2, n2) = ((v, m), s)"
        by (simp add: RetryOnConflict_eq put_attempt_def numeral_3_eq_3)
      from triple_end [OF put_zero_safe _ this] w2 e show ?thesis by auto
    next
      case False
      with v put have "v = w2" by (auto simp: RetryOnConflict_eq put_attempt_def split: option.splits if_splits)
      with w2 show ?thesis by simp
    qed
    moreover have "w' = v" using w(2) get Inr v by (cases s) (auto simp: Unschedulable_def)
    ultimately show ?thesis by simp
  qed
qed

text \<open>Watching.\<close>

lemma until_safe:
  "run_triple safe (Until fuel (ag_nc a) h condition)
     (\<lambda>ev w. safe w \<and> (\<forall>n. ev_Object ev = NodeObject n \<longrightarrow> rebootNeeded n \<longrightarrow> permitted w)) safe"
proof (induction fuel)
  case (Suc fuel)
  show ?case unfolding run_triple_def
  proof (intro allI impI)
    fix w w' r assume w: "safe w" "Until (Suc fuel) (ag_nc a) h condition w = Some (w', r)"
    obtain v sig where v: "nc_Next (ag_nc a) h w = (v, sig)" by fastforce
    have sv: "safe v" by (rule env_call_safe [OF next_law w(1) v])
    show "case r of OK ev \<Rightarrow> safe w' \<and> (\<forall>n. ev_Object ev = NodeObject n \<longrightarrow> rebootNeeded n \<longrightarrow> permitted w')
        | _ \<Rightarrow> safe w'"
    proof (cases sig)
      case (Received ev)
      have "permitted v" if "ev_Object ev = NodeObject n" "rebootNeeded n" for n
      proof -
        from event_law [OF _ v [unfolded Received] that(1)] w(1) obtain c where
          "cluster_wf c" "obj c (ag_node a) = Some n" "env\<^sup>*\<^sup>* c (cl v)" by blast
        with that(2) sv show ?thesis using star_needed [of c "cl v"] by (auto simp: needed_at_iff)
      qed
      note perm = this
      show ?thesis
      proof (cases "condition ev = OK False")
        case True
        with w v Received have "Until fuel (ag_nc a) h condition v = Some (w', r)" by simp
        from run_tripleD [OF Suc.IH sv this] show ?thesis .
      next
        case False
        with w v Received have "w' = v" "\<forall>ev'. r = OK ev' \<longrightarrow> ev' = ev"
          by (auto split: result.splits if_splits)
        with sv perm show ?thesis by (cases r) auto
      qed
    qed (use w v sv in auto)
  qed
qed (simp add: run_triple_def)

lemma wait_for_node_safe:
  "run_triple safe (wait_for_node fuel a ready condition sanity)
     (\<lambda>_ w. safe w \<and> ((\<forall>n. ready n \<longrightarrow> rebootNeeded n) \<longrightarrow>
        (\<forall>ev. condition ev = OK True \<longrightarrow> (\<exists>n. ev_Object ev = NodeObject n \<and> rebootNeeded n)) \<longrightarrow> permitted w)) safe"
  unfolding run_triple_def
proof (intro allI impI)
  fix w w' r assume w: "safe w" "wait_for_node fuel a ready condition sanity w = Some (w', r)"
  let ?goal = "\<lambda>w. safe w \<and> ((\<forall>n. ready n \<longrightarrow> rebootNeeded n) \<longrightarrow>
        (\<forall>ev. condition ev = OK True \<longrightarrow> (\<exists>n. ev_Object ev = NodeObject n \<and> rebootNeeded n)) \<longrightarrow> permitted w)"
  obtain w1 g where get: "nc_Get (ag_nc a) (ag_node a) w = (w1, g)" by fastforce
  have w1: "safe w1" by (rule get_safe [OF w(1) get])
  show "case r of OK u \<Rightarrow> ?goal w' | _ \<Rightarrow> safe w'"
  proof (cases g)
    case (Inl e)
    with w get w1 show ?thesis by (auto simp: wait_for_node_def)
  next
    case (Inr n)
    have n: "obj (cl w1) (ag_node a) = Some n" using get_law [OF _ get] w(1) Inr by blast
    show ?thesis
    proof (cases "ready n")
      case True
      with w get Inr w1 n show ?thesis by (auto simp: wait_for_node_def needed_at_iff)
    next
      case False
      obtain w2 h where watch: "nc_Watch (ag_nc a) (watch_selector (Name n)) (ResourceVersion n) w1 = (w2, h)" by fastforce
      have w2: "safe w2" by (rule env_call_safe [OF watch_law w1 watch])
      show ?thesis
      proof (cases h)
        case (Inl e)
        with w get Inr False watch w2 show ?thesis by (auto simp: wait_for_node_def)
      next
        case (Inr watcher)
        with w get \<open>g = Inr n\<close> False watch have run: "run_bind
            (run_wrap (\<lambda>err. Errorf ''waiting for annotation %q failed: %v'' [AnnotationOkToReboot] [err])
              (Until fuel (ag_nc a) watcher condition))
            (\<lambda>ev w3. case sanity ev of Some p \<Rightarrow> Some (w3, Panic p) | None \<Rightarrow> Some (w3, OK ())) w2 = Some (w', r)"
          by (simp add: wait_for_node_def)
        then obtain s where u: "Until fuel (ag_nc a) watcher condition w2 = Some (w', s)"
          "r = OK () \<longrightarrow> (\<exists>ev. s = OK ev)"
          by (auto simp: run_bind_def run_wrap_def split: option.splits prod.splits result.splits)
        from run_tripleD [OF until_safe w2 u(1)] u Until_OK [of fuel "ag_nc a" watcher condition w2 w'] show ?thesis
          by (cases s; cases r) fastforce+
      qed
    qed
  qed
qed

lemma not_ok_safe: "run_triple safe (waitForNotOkToReboot fuel a) (\<lambda>_. safe) safe"
  unfolding waitForNotOkToReboot_def by (rule run_triple_conseq [OF wait_for_node_safe]) blast+

lemma ok_permitted: "run_triple safe (waitForOkToReboot fuel a) (\<lambda>_. permitted) safe"
  unfolding waitForOkToReboot_def may_reboot_def [symmetric]
proof (rule run_triple_conseq [OF wait_for_node_safe])
  fix w :: 'w and u :: unit
  have "may_reboot n \<longrightarrow> rebootNeeded n" for n by (simp add: may_reboot_def rebootNeeded_def)
  moreover have "\<exists>n. ev_Object ev = NodeObject n \<and> rebootNeeded n"
    if "NodeAnnotationCondition shouldRebootSelector ev = OK True" for ev
    using NodeAnnotationCondition_OK [OF that] by (auto simp: shouldRebootSelector_matches may_reboot_def rebootNeeded_def)
  moreover assume "safe w \<and> ((\<forall>n. may_reboot n \<longrightarrow> rebootNeeded n) \<longrightarrow>
      (\<forall>ev. NodeAnnotationCondition shouldRebootSelector ev = OK True \<longrightarrow>
        (\<exists>n. ev_Object ev = NodeObject n \<and> rebootNeeded n)) \<longrightarrow> permitted w)"
  ultimately show "permitted w" by blast
qed

lemma await_permitted: "run_triple safe (await_ok attempts fuel a) (\<lambda>_. permitted) safe"
proof (induction attempts)
  case (Suc attempts)
  show ?case unfolding run_triple_def
  proof (intro allI impI)
    fix w w' r assume w: "safe w" "await_ok (Suc attempts) fuel a w = Some (w', r)"
    then obtain v s where v: "waitForOkToReboot fuel a w = Some (v, s)" by (auto split: option.splits)
    from run_tripleD [OF ok_permitted w(1) v] v w(2) run_tripleD [OF Suc.IH, of v w' r]
    show "case r of OK u \<Rightarrow> permitted w' | _ \<Rightarrow> safe w'" by (cases s) auto
  qed
qed (simp add: run_triple_def)

text \<open>Draining.\<close>

lemma getPods_safe: "triple safe (getPodsForDeletion a) (\<lambda>_. safe) safe"
  unfolding getPodsForDeletion_def GetPodsForDeletion_def
  by (intro triple_bind [OF triple_wrap [OF triple_bind [OF triple_call [OF kube_call(4)]
      pods_loop_keeps [OF env_call_safe [OF kube_call(1)]]]]]) auto

lemma pod_wait_safe: "run_triple safe (waitForPodDeletion fuel a p) (\<lambda>_. safe) safe"
proof -
  have gone: "triple safe (pod_gone a p) (\<lambda>_. safe) safe"
    by (rule pod_gone_keeps) (rule env_call_safe [OF kube_call(2)])
  show ?thesis unfolding waitForPodDeletion_def by (rule run_triple_PollImmediate [OF gone])
qed

lemma drain_safe: "run_triple permitted (drain_node fuel a) (\<lambda>_. safe) safe"
proof -
  note go = run_triple_go
  have del: "run_triple safe (delete_pod a p) (\<lambda>_. safe) safe" for p
    unfolding delete_pod_def by (intro run_triple_logged go triple_error kube_call)
  have un: "run_triple safe (if \<not> b then run_go (Unschedulable (ag_nc a) (ag_node a) True) else run_go (go_return ())) (\<lambda>_. safe) safe" for b
    by (auto intro: go unschedulable_safe)
  have get: "run_triple permitted (get_node a) (\<lambda>_. permitted) safe"
    by (rule run_triple_conseq [OF get_node_permitted]) auto
  show ?thesis
    unfolding drain_node_def Let_def SetNodeAnnotations_def
    by (intro run_triple_bind [OF get] run_triple_bind [OF go [OF progress_safe]] run_triple_bind [OF un]
        run_triple_bind [OF go [OF getPods_safe]] run_triple_bind [OF run_triple_each [OF del]]
        run_triple_each run_triple_logged pod_wait_safe)
qed

text \<open>Starting, and the whole run.\<close>

lemma info_safe: "triple safe (setInfoLabels a) (\<lambda>_. safe) safe"
proof -
  have "triple safe (SetNodeLabels (ag_nc a) (ag_node a) (info_labels vi)) (\<lambda>_. safe) safe" for vi
    unfolding SetNodeLabels_def
    by (rule update_safe [OF setLabels.metadata_mutation_axioms]) (blast intro: quiet_free info_quiet)
  then show ?thesis by (auto simp: triple_def setInfoLabels_def split: sum.splits)
qed

lemma schedulable_safe: "run_triple safe (make_schedulable a) (\<lambda>_. safe) safe"
  unfolding make_schedulable_def SetNodeAnnotations_def
  by (intro run_triple_bind [OF run_triple_go [OF unschedulable_safe]] run_triple_go
      update_safe [OF setAnnotations.metadata_mutation_axioms])
     (blast intro: quiet_free schedulable_quiet)

lemma start_safe: "run_triple safe (agent_start fuel a) (\<lambda>_. safe) safe"
proof -
  have w: "triple safe (SetNodeAnnotationsLabels (ag_nc a) (ag_node a) start_annotations start_labels) (\<lambda>_. safe) safe"
    unfolding SetNodeAnnotationsLabels_def
    by (rule update_safe [OF setAnnotationsLabels.metadata_mutation_axioms]) (rule agent_start_free)
  have m: "run_triple safe (if b then make_schedulable a else run_go (go_return ())) (\<lambda>_. safe) safe" for b
    by (auto intro: schedulable_safe run_triple_go)
  show ?thesis
    unfolding agent_start_def Let_def
    by (intro run_triple_bind [OF run_triple_wrap [OF run_triple_go [OF info_safe]]] run_triple_bind [OF get_node_safe]
        run_triple_bind [OF run_triple_go [OF w]] run_triple_bind [OF not_ok_safe] m)
qed

lemma process_safe: "run_triple safe (agent_process fuel a) (\<lambda>_. safe) safe"
proof -
  have last: "run_triple safe (\<lambda>w. Some (ag_sleep a (ag_Reboot a w), OK ())) (\<lambda>_. safe) safe"
    unfolding run_triple_def
  proof (intro allI impI)
    fix w w' and r :: "unit result" assume w: "safe w" "Some (ag_sleep a (ag_Reboot a w), OK ()) = Some (w', r)"
    have "safe (ag_Reboot a w)" by (rule env_call_safe [OF outside_law(2) w(1) refl])
    then have "safe (ag_sleep a (ag_Reboot a w))" by (rule env_call_safe [OF outside_law(3) _ refl])
    with w(2) show "case r of OK u \<Rightarrow> safe w' | _ \<Rightarrow> safe w'" by (cases r) auto
  qed
  have rest: "run_triple safe (run_bind (await_ok fuel fuel a) (\<lambda>_.
      run_bind (drain_node fuel a) (\<lambda>_ w. Some (ag_sleep a (ag_Reboot a w), OK ())))) (\<lambda>_. safe) safe"
    by (rule run_triple_bind [OF await_permitted run_triple_bind [OF drain_safe last]])
  show ?thesis
    unfolding agent_process_def
    by (rule run_triple_bind [OF start_safe], rule run_triple_moved [OF rest])
       (rule env_call_safe [OF outside_law(1) _ refl])
qed

lemma status_safe: "run_triple safe (updateStatusCallback fuel a s) (\<lambda>_. safe) safe"
proof -
  have "triple safe (SetNodeAnnotationsLabels (ag_nc a) (ag_node a) (status_annotations s) (status_labels s)) (\<lambda>_. safe) safe"
    unfolding SetNodeAnnotationsLabels_def
    by (rule update_safe [OF setAnnotationsLabels.metadata_mutation_axioms]) (blast intro: quiet_free status_quiet)
  then have "triple safe (status_attempt a s) (\<lambda>_. safe) safe"
    by (intro triple_keeps) (auto simp: status_attempt_def split: prod.splits result.splits dest: triple_keepsD)
  then show ?thesis unfolding updateStatusCallback_def PollUntil_def by (rule run_triple_WaitFor)
qed

end

section \<open>An agent on the scripted server\<close>

text \<open>
  Everything the agent relies on, as a test of a single action. It allows what the operator does
  to this and to other nodes.
\<close>

definition relied :: "string \<Rightarrow> action \<Rightarrow> cluster \<Rightarrow> bool" where
  "relied node act c =
     (let d = perform act c in
      length (filter holds_slot (items d)) \<le> 1 \<and> list_all phased (items d) \<and>
      list_all (\<lambda>x. Name x \<noteq> []) (items d) \<and> (needed_at node c \<longrightarrow> needed_at node d))"

definition store_agent :: "string \<Rightarrow> file_system \<Rightarrow> store Klocksmith" where
  "store_agent node files =
     \<lparr>ag_node = node, ag_kc = no_kube, ag_nc = store_nc (relied node), ag_reapTimeout = 600000000000,
      ag_files = files, ag_poller = (\<lambda>_. Some 60), ag_spawn = id, ag_Reboot = st_clock_update (\<lambda>_. 0), ag_sleep = id\<rparr>"

lemma slot_inv_items:
  assumes "cluster_wf c" "length (filter holds_slot (items c)) \<le> 1" "list_all phased (items c)"
  shows "slot_inv c"
proof -
  have "all_nodes phased c"
    using assms(1,3) by (auto simp: all_nodes_def obj_iff list_all_iff)
  moreover have "\<exists>h. holder h c"
  proof (cases "filter holds_slot (items c)")
    case Nil
    then show ?thesis using assms(1) by (auto simp: holder_def all_nodes_def obj_iff filter_empty_conv)
  next
    case (Cons x xs)
    with assms(2) have "filter holds_slot (items c) = [x]" by (cases xs) auto
    then have "set (filter holds_slot (items c)) = {x}" by simp
    then have "y = x" if "y \<in> set (items c)" "holds_slot y" for y using that by auto
    then show ?thesis using assms(1) by (auto simp: holder_def all_nodes_def obj_iff)
  qed
  ultimately show ?thesis by (auto simp: slot_inv_def one_slot_def)
qed

lemma relied_step:
  assumes "env_rel (relied node) c d" "cluster_wf c"
  shows "slot_inv d" "needed_at node c \<Longrightarrow> needed_at node d" "obj d [] = None"
proof -
  obtain act where act: "relied node act c" "d = perform act c" using assms(1) by (auto simp: env_rel_def)
  have wf: "cluster_wf d" using perform_versioned [OF assms(2), of act] act(2) by (simp add: versioned_def)
  with act show "slot_inv d" "needed_at node c \<Longrightarrow> needed_at node d"
    by (auto simp: relied_def Let_def intro: slot_inv_items)
  show "obj d [] = None" using act by (auto simp: relied_def Let_def obj_def find_None_iff list_all_iff)
qed

lemma relied_star:
  assumes "(env_rel (relied node))\<^sup>*\<^sup>* c d" "cluster_wf c" "obj c [] = None"
  shows "obj d [] = None"
  using assms
proof (induction rule: rtranclp_induct)
  case (step d e)
  have "cluster_wf d" by (rule server.env_rtranclp_wf [OF step.hyps(1) step.prems(1)])
  then show ?case by (rule relied_step(3) [OF step.hyps(2)])
qed simp

interpretation store_agent: agent_env "store_agent node files" st_cluster "env_rel (relied node)"
  "\<lambda>w. cluster_wf (st_cluster w) \<and> obj (st_cluster w) [] = None"
proof (intro agent_env.intro agent_env_axioms.intro node_api.intro)
  let ?good = "\<lambda>w. cluster_wf (st_cluster w) \<and> obj (st_cluster w) [] = None"
  let ?env = "env_rel (relied node)" and ?nc = "ag_nc (store_agent node files)"
  have nc: "?nc = store_nc (relied node)" by (simp add: store_agent_def)
  fix w w' :: store and name x x' a b c d e and g :: "goerr + node" and l :: "goerr + node list"
  show "?good w \<Longrightarrow> cluster_wf (st_cluster w)" by simp
  show "?env a b \<Longrightarrow> cluster_wf a \<Longrightarrow> versioned a b" by (rule server.env_versioned)
  show "?good w \<Longrightarrow> nc_Get ?nc name w = (w', g) \<Longrightarrow>
      ?good w' \<and> ?env\<^sup>*\<^sup>* (st_cluster w) (st_cluster w') \<and> (\<forall>x. g = Inr x \<longrightarrow> obj (st_cluster w') name = Some x)"
    unfolding nc using server.get_law [of w "relied node" name w' g] relied_star by blast
  show "?good w \<Longrightarrow> nc_List ?nc w = (w', l) \<Longrightarrow>
      ?good w' \<and> ?env\<^sup>*\<^sup>* (st_cluster w) (st_cluster w') \<and> (\<forall>xs. l = Inr xs \<longrightarrow> xs = items (st_cluster w'))"
    unfolding nc using server.list_law [of w "relied node" w' l] relied_star by blast
  show "?good w \<Longrightarrow> nc_Update ?nc x w = (w', x', Some e) \<Longrightarrow>
      ?good w' \<and> e \<noteq> ErrWaitTimeout \<and> ?env\<^sup>*\<^sup>* (st_cluster w) (st_cluster w')"
    unfolding nc using server.update_error_law [of w "relied node" x w' x' e] relied_star by blast
  show "nc_Update ?nc x w = (w', x', Some e) \<Longrightarrow> x' = zero_node"
    unfolding nc by (auto simp: store_nc_def store_Update_def split: prod.splits option.splits if_splits)
  show "?env c d \<Longrightarrow> cluster_wf c \<Longrightarrow> slot_inv c \<Longrightarrow> slot_inv d" by (rule relied_step)
  show "?env c d \<Longrightarrow> cluster_wf c \<Longrightarrow> needed_at (ag_node (store_agent node files)) c \<Longrightarrow>
      needed_at (ag_node (store_agent node files)) d"
    using relied_step(2) by (simp add: store_agent_def)
  show "?good w \<Longrightarrow> nc_Update ?nc x w = (w', x', None) \<Longrightarrow> ?good w' \<and> (\<exists>a b y. ?env\<^sup>*\<^sup>* (st_cluster w) a \<and>
      obj a (Name x) = Some y \<and> ResourceVersion y = ResourceVersion x \<and> stored x a b \<and> ?env\<^sup>*\<^sup>* b (st_cluster w'))"
  proof -
    assume w: "?good w" and u: "nc_Update ?nc x w = (w', x', None)"
    from server.update_law [of w "relied node" x w' x'] w u nc obtain a b y where
      *: "cluster_wf (st_cluster w')" "?env\<^sup>*\<^sup>* (st_cluster w) a" "obj a (Name x) = Some y"
        "ResourceVersion y = ResourceVersion x" "stored x a b" "?env\<^sup>*\<^sup>* b (st_cluster w')" by auto
    have "cluster_wf a" "obj a [] = None"
      using server.env_rtranclp_wf [OF *(2)] relied_star [OF *(2)] w by auto
    then have "cluster_wf b" "obj b [] = None"
      using *(5) by (auto simp: stored_def cluster_wf_commit obj_commit)
    with relied_star [OF *(6)] * show ?thesis by blast
  qed
  show "?good w \<Longrightarrow> nc_Update ?nc zero_node w \<noteq> (w', x', None)"
  proof
    assume w: "?good w" and u: "nc_Update ?nc zero_node w = (w', x', None)"
    from server.update_law [of w "relied node" zero_node w' x'] w u nc obtain a y where
      "?env\<^sup>*\<^sup>* (st_cluster w) a" "obj a [] = Some y" by (auto simp: zero_node_def)
    with relied_star w show False by fastforce
  qed
qed (auto simp: store_agent_def store_nc_def env_call_def kube_calls_def no_kube_def)

section \<open>Properties\<close>

text \<open>
  C3: The agent keeps the slot invariant. A run of the agent of any length, with whatever the operator, the
  other agents and its own watcher do meanwhile within the rules it relies on, keeps the invariant, so at most
  \<open>maxRebootingNodes\<close> nodes are in the hands of the protocol; so does every report of a status.
\<close>

theorem agent_keeps_slots_bounded:
  assumes "agent_env a cl env good" "good w" "slot_inv (cl w)"
    and "agent_Run fuel a w = Some (w', r) \<or> updateStatusCallback fuel a s w = Some (w', r)"
  shows "slot_inv (cl w') \<and> length (filter holds_slot (items (cl w'))) \<le> maxRebootingNodes"
proof -
  have run: "run_triple (\<lambda>w. good w \<and> slot_inv (cl w)) (agent_Run fuel a)
      (\<lambda>_ w. good w \<and> slot_inv (cl w)) (\<lambda>w. good w \<and> slot_inv (cl w))"
    unfolding agent_Run_def by (rule run_triple_logged [OF agent_env.process_safe [OF assms(1)]])
  note status = agent_env.status_safe [OF assms(1), of fuel s]
  have "good w' \<and> slot_inv (cl w')"
    using assms(4)
  proof
    assume "agent_Run fuel a w = Some (w', r)"
    from run_tripleD [OF run _ this] assms(2,3) show ?thesis by (cases r) auto
  next
    assume "updateStatusCallback fuel a s w = Some (w', r)"
    from run_tripleD [OF status _ this] assms(2,3) show ?thesis by (cases r) auto
  qed
  moreover from this have "cluster_wf (cl w')"
    using node_api.good_wf [OF agent_env.axioms(1) [OF assms(1)]] by blast
  ultimately show ?thesis using slot_inv_length by (simp add: maxRebootingNodes_def)
qed

text \<open>The operator permits the reboot while the agent waits; another node waits for its turn.\<close>

definition permitting_world :: store where
  "permitting_world =
     (let permitted = plain_node ''a'' [] [(AnnotationOkToReboot, constTrue), (AnnotationRebootNeeded, constTrue)];
          waiting = plain_node ''b'' [] [(AnnotationRebootNeeded, constTrue)]
      in \<lparr>st_cluster = \<lparr>rev_no = 1, items = [plain_node ''a'' [] [], waiting]\<rparr>,
          st_script = replicate 6 ([], None) @ [([Put permitted], None)], st_clock = 5\<rparr>)"

theorem agent_keeps_slots_bounded_witness:
  "\<exists>w'. agent_Run 3 (store_agent ''a'' release_files) permitting_world = Some (w', OK ()) \<and> st_clock w' = 0 \<and>
     map (\<lambda>x. (Name x, holds_slot x, gomap_get (Annotations x) AnnotationRebootInProgress = constTrue))
       (items (st_cluster w')) = [(''a'', True, True), (''b'', False, False)] \<and>
     length (filter holds_slot (items (st_cluster w'))) \<le> maxRebootingNodes"
proof -
  have good: "cluster_wf (st_cluster permitting_world) \<and> obj (st_cluster permitting_world) [] = None"
    by (simp add: permitting_world_def Let_def cluster_wf_def obj_def plain_node_def)
  have inv: "slot_inv (st_cluster permitting_world)"
    by (rule slot_inv_items) code_simp+
  let ?summary = "\<lambda>w'. (st_clock w', map (\<lambda>x. (Name x, holds_slot x,
      gomap_get (Annotations x) AnnotationRebootInProgress = constTrue)) (items (st_cluster w')))"
  have "map_option (\<lambda>(w', r). (is_OK r, ?summary w')) (agent_Run 3 (store_agent ''a'' release_files) permitting_world) =
      Some (True, 0, [(''a'', True, True), (''b'', False, False)])"
    by code_simp
  then obtain w' where run: "agent_Run 3 (store_agent ''a'' release_files) permitting_world = Some (w', OK ())"
    and w': "?summary w' = (0, [(''a'', True, True), (''b'', False, False)])"
    using ended_OK [of ?summary] by blast
  note bound = agent_keeps_slots_bounded [OF store_agent.agent_env_axioms good inv disjI1 [OF run]]
  show ?thesis
    by (rule exI [of _ w']) (use run w' conjunct2 [OF bound] in \<open>simp only: prod.inject HOL.simp_thms\<close>)
qed

end
