(* ===== verification/Races.thy ===== *)
theory Races
  imports Agent_Rely
begin

text \<open>
  A race that gives the slot away twice. The agent of a node that holds the slot starts after
  \<open>markAfterReboot\<close> has listed the nodes and before \<open>markBeforeReboot\<close> lists them. It sets
  \<open>reboot-needed\<close> and \<open>reboot-in-progress\<close> to false, so the node is no longer counted as
  rebooting (it is not labelled \<open>after-reboot\<close> yet), and another node is chosen. One cycle later
  the second node may reboot while the first one is still under its after-reboot checks.
\<close>

definition rebooting_node :: node where
  "rebooting_node = plain_node ''a'' []
     [(AnnotationOkToReboot, constTrue), (AnnotationRebootNeeded, constTrue),
      (AnnotationRebootInProgress, constTrue)]"

text \<open>What the agent of a node writes at its start.\<close>

definition agent_starts :: "node \<Rightarrow> action list" where
  "agent_starts x = (case set_annotations_labels start_annotations start_labels x of
      Inr y \<Rightarrow> [Put y]
    | Inl _ \<Rightarrow> [])"

definition waiting_node :: node where
  "waiting_node = plain_node ''b'' [] [(AnnotationRebootNeeded, constTrue)]"

definition race_cluster :: cluster where
  "race_cluster = \<lparr>rev_no = 1, items = [rebooting_node, waiting_node]\<rparr>"

text \<open>
  Eight calls pass without interference (\<open>cleanupState\<close> makes five, the next three phases
  list the nodes once each); the agent writes before the ninth.
\<close>

definition race_world :: store where
  "race_world = \<lparr>st_cluster = race_cluster,
     st_script = replicate 8 ([], None) @ [(agent_starts rebooting_node, None)], st_clock = 0\<rparr>"

definition race_controller :: "store Kontroller" where
  "race_controller = store_controller anything None 0 [] []"

definition slots :: "store \<Rightarrow> (string \<times> bool \<times> bool \<times> bool) list" where
  "slots w = map (\<lambda>x. (Name x, okToReboot x, beforeChecks x, afterChecks x)) (items (st_cluster w))"

section \<open>Properties\<close>


end
