(* ===== verification/Semver.thy ===== *)
theory Semver
  imports Decimal "HOL-Library.Word"
begin

text \<open>
  Semantic versions, \<open>src/vendor/github.com/blang/semver/semver.go\<close>, by which the operator
  decides whether the agents it manages are outdated: \<open>Parse\<close>, \<open>String\<close> and \<open>Compare\<close>.
  Version numbers are uint64, words of 64 bits here.

  \<open>Parse\<close> and \<open>String\<close> are inverse to each other on the versions \<open>Parse\<close> accepts
  (\<open>canonical\<close>). The locale \<open>three_way\<close> is the contract of a comparison that answers -1, 0 or 1;
  \<open>Compare\<close> is shown to meet it, comparison by comparison, so it orders the versions linearly up
  to their build metadata.
\<close>

section \<open>Definitions\<close>

record PRVersion =
  VersionStr :: string
  VersionNum :: "64 word"
  IsNum :: bool

record Version =
  Major :: "64 word"
  Minor :: "64 word"
  Patch :: "64 word"
  Pre :: "PRVersion list"
  Build :: "string list"

definition alpha :: "char \<Rightarrow> bool" where
  "alpha c \<longleftrightarrow> (CHR ''a'' \<le> c \<and> c \<le> CHR ''z'') \<or> (CHR ''A'' \<le> c \<and> c \<le> CHR ''Z'') \<or> c = CHR ''-''"

definition alphanum :: "char \<Rightarrow> bool" where
  "alphanum c \<longleftrightarrow> alpha c \<or> is_digit c"

definition containsOnly :: "string \<Rightarrow> (char \<Rightarrow> bool) \<Rightarrow> bool" where
  "containsOnly s p \<longleftrightarrow> list_all p s"

text \<open>\<open>strconv.ParseUint(s, 10, 64)\<close>.\<close>

definition ParseUint :: "string \<Rightarrow> goerr + 64 word" where
  "ParseUint s = (case parse_digits s of
      None \<Rightarrow> Inl (Errorf ''strconv.ParseUint: parsing %q: invalid syntax'' [s] [])
    | Some n \<Rightarrow>
        if int n < 2 ^ 64 then Inr (of_nat n)
        else Inl (Errorf ''strconv.ParseUint: parsing %q: value out of range'' [s] []))"

definition FormatUint :: "64 word \<Rightarrow> string" where
  "FormatUint w = print_nat (unat w)"

definition parse_number :: "string \<Rightarrow> string \<Rightarrow> string \<Rightarrow> goerr + 64 word" where
  "parse_number what What s =
     (if \<not> containsOnly s is_digit
      then Inl (Errorf (''Invalid character(s) found in '' @ what @ '' number %q'') [s] [])
      else if hasLeadingZeroes s
      then Inl (Errorf (What @ '' number must not contain leading zeroes %q'') [s] [])
      else ParseUint s)"

definition NewPRVersion :: "string \<Rightarrow> goerr + PRVersion" where
  "NewPRVersion s =
     (if s = [] then Inl (ErrorString ''Prerelease is empty'')
      else if containsOnly s is_digit then
        (if hasLeadingZeroes s
         then Inl (Errorf ''Numeric PreRelease version must not contain leading zeroes %q'' [s] [])
         else (case ParseUint s of
            Inl err \<Rightarrow> Inl err
          | Inr num \<Rightarrow> Inr \<lparr>VersionStr = [], VersionNum = num, IsNum = True\<rparr>))
      else if containsOnly s alphanum then Inr \<lparr>VersionStr = s, VersionNum = 0, IsNum = False\<rparr>
      else Inl (Errorf ''Invalid character(s) found in prerelease %q'' [s] []))"

definition parse_build :: "string \<Rightarrow> goerr + string" where
  "parse_build s =
     (if s = [] then Inl (ErrorString ''Build meta data is empty'')
      else if \<not> containsOnly s alphanum
      then Inl (Errorf ''Invalid character(s) found in build meta data %q'' [s] [])
      else Inr s)"

text \<open>A loop that appends the parsed items and returns at the first error.\<close>

fun parse_each :: "('a \<Rightarrow> goerr + 'b) \<Rightarrow> 'a list \<Rightarrow> goerr + 'b list" where
  "parse_each f [] = Inr []"
| "parse_each f (x # xs) = (case f x of
      Inl e \<Rightarrow> Inl e
    | Inr y \<Rightarrow> (case parse_each f xs of Inl e \<Rightarrow> Inl e | Inr ys \<Rightarrow> Inr (y # ys)))"

text \<open>The text before the first \<open>c\<close>, and the dot-separated parts after it if there is one.\<close>

definition cut_at :: "char \<Rightarrow> string \<Rightarrow> string \<times> string list" where
  "cut_at c s = (case dropWhile (\<lambda>x. x \<noteq> c) s of
      [] \<Rightarrow> (s, [])
    | _ # rest \<Rightarrow> (takeWhile (\<lambda>x. x \<noteq> c) s, Split (CHR ''.'') rest))"

definition Parse :: "string \<Rightarrow> goerr + Version" where
  "Parse s =
     (if s = [] then Inl (ErrorString ''Version string empty'')
      else (case SplitN (CHR ''.'') 3 s of
        [p0, p1, p2] \<Rightarrow>
         (case parse_number ''major'' ''Major'' p0 of Inl e \<Rightarrow> Inl e | Inr major \<Rightarrow>
         (case parse_number ''minor'' ''Minor'' p1 of Inl e \<Rightarrow> Inl e | Inr minor \<Rightarrow>
         (let (patchStr, build) = cut_at (CHR ''+'') p2;
              (patchStr', prerelease) = cut_at (CHR ''-'') patchStr
          in (case parse_number ''patch'' ''Patch'' patchStr' of Inl e \<Rightarrow> Inl e | Inr patch \<Rightarrow>
             (case parse_each NewPRVersion prerelease of Inl e \<Rightarrow> Inl e | Inr pre \<Rightarrow>
             (case parse_each parse_build build of Inl e \<Rightarrow> Inl e | Inr bld \<Rightarrow>
                Inr \<lparr>Major = major, Minor = minor, Patch = patch, Pre = pre, Build = bld\<rparr>))))))
      | _ \<Rightarrow> Inl (ErrorString ''No Major.Minor.Patch elements found'')))"

definition PRVersion_String :: "PRVersion \<Rightarrow> string" where
  "PRVersion_String v = (if IsNum v then FormatUint (VersionNum v) else VersionStr v)"

definition Version_String :: "Version \<Rightarrow> string" where
  "Version_String v =
     FormatUint (Major v) @ ''.'' @ FormatUint (Minor v) @ ''.'' @ FormatUint (Patch v) @
     (if Pre v \<noteq> [] then ''-'' @ Join ''.'' (map PRVersion_String (Pre v)) else []) @
     (if Build v \<noteq> [] then ''+'' @ Join ''.'' (Build v) else [])"

definition PRVersion_Compare :: "PRVersion \<Rightarrow> PRVersion \<Rightarrow> int" where
  "PRVersion_Compare v o' =
     (if IsNum v \<and> \<not> IsNum o' then - 1
      else if \<not> IsNum v \<and> IsNum o' then 1
      else if IsNum v \<and> IsNum o' then
        (if VersionNum v = VersionNum o' then 0 else if VersionNum v > VersionNum o' then 1 else - 1)
      else
        (if VersionStr v = VersionStr o' then 0 else if VersionStr v > VersionStr o' then 1 else - 1))"

fun pre_loop :: "PRVersion list \<Rightarrow> PRVersion list \<Rightarrow> int" where
  "pre_loop [] [] = 0"
| "pre_loop [] (_ # _) = - 1"
| "pre_loop (_ # _) [] = 1"
| "pre_loop (v # vs) (o' # os) =
     (let comp = PRVersion_Compare v o' in
      if comp = 0 then pre_loop vs os else if comp = 1 then 1 else - 1)"

definition Compare :: "Version \<Rightarrow> Version \<Rightarrow> int" where
  "Compare v o' =
     (if Major v \<noteq> Major o' then (if Major v > Major o' then 1 else - 1)
      else if Minor v \<noteq> Minor o' then (if Minor v > Minor o' then 1 else - 1)
      else if Patch v \<noteq> Patch o' then (if Patch v > Patch o' then 1 else - 1)
      else if Pre v = [] \<and> Pre o' = [] then 0
      else if Pre v = [] \<and> Pre o' \<noteq> [] then 1
      else if Pre v \<noteq> [] \<and> Pre o' = [] then - 1
      else pre_loop (Pre v) (Pre o'))"

definition LT :: "Version \<Rightarrow> Version \<Rightarrow> bool" where
  "LT v o' \<longleftrightarrow> Compare v o' = - 1"

section \<open>Comparisons\<close>

locale three_way =
  fixes cmp :: "'a \<Rightarrow> 'a \<Rightarrow> int"
  assumes anti: "cmp y x = - cmp x y"
    and range: "cmp x y = - 1 \<or> cmp x y = 0 \<or> cmp x y = 1"
    and eq_left: "cmp x y = 0 \<Longrightarrow> cmp x z = cmp y z"
    and trans: "cmp x y = - 1 \<Longrightarrow> cmp y z = - 1 \<Longrightarrow> cmp x z = - 1"
begin

lemma cmp_refl: "cmp x x = 0"
  using anti [of x x] by simp

lemma lt_asym: "cmp x y = - 1 \<Longrightarrow> cmp y x \<noteq> - 1"
  using anti [of x y] by simp

lemma lt_total: "cmp x y = - 1 \<or> cmp x y = 0 \<or> cmp y x = - 1"
  using range [of x y] anti [of x y] by auto

lemma le_trans: "cmp x y \<le> 0 \<Longrightarrow> cmp y z \<le> 0 \<Longrightarrow> cmp x z \<le> 0"
  using range [of x y] range [of y z] trans [of x y z] eq_left [of x y z] eq_left [of z y x]
    anti [of y z] anti [of x y] anti [of x z] by auto

end

text \<open>First one comparison, then another if the first is undecided.\<close>

definition then_cmp :: "int \<Rightarrow> int \<Rightarrow> int" where
  "then_cmp a b = (if a = 0 then b else a)"

lemma three_way_then:
  assumes "three_way c" "three_way d"
  shows "three_way (\<lambda>x y. then_cmp (c x y) (d x y))"
proof -
  note c = three_way.anti [OF assms(1)] three_way.range [OF assms(1)] three_way.eq_left [OF assms(1)]
    three_way.trans [OF assms(1)]
  note d = three_way.anti [OF assms(2)] three_way.range [OF assms(2)] three_way.eq_left [OF assms(2)]
    three_way.trans [OF assms(2)]
  show ?thesis
  proof
    fix x y z
    show "then_cmp (c y x) (d y x) = - then_cmp (c x y) (d x y)"
      using c(1) [of y x] d(1) [of y x] by (simp add: then_cmp_def)
    show "then_cmp (c x y) (d x y) = - 1 \<or> then_cmp (c x y) (d x y) = 0 \<or> then_cmp (c x y) (d x y) = 1"
      using c(2) [of x y] d(2) [of x y] by (auto simp: then_cmp_def)
    show "then_cmp (c x y) (d x y) = 0 \<Longrightarrow> then_cmp (c x z) (d x z) = then_cmp (c y z) (d y z)"
      using c(3) [of x y z] d(3) [of x y z] by (simp add: then_cmp_def split: if_splits)
    show "then_cmp (c x y) (d x y) = - 1 \<Longrightarrow> then_cmp (c y z) (d y z) = - 1 \<Longrightarrow>
        then_cmp (c x z) (d x z) = - 1"
      using c(3) [of x y z] c(3) [of z y x] c(4) [of x y z] c(1) [of y z] c(1) [of x z] c(1) [of x y] d(4) [of x y z]
      by (auto simp: then_cmp_def split: if_splits)
  qed
qed

definition order_cmp :: "'a :: linorder \<Rightarrow> 'a \<Rightarrow> int" where
  "order_cmp a b = (if a = b then 0 else if a > b then 1 else - 1)"

lemma three_way_order: "three_way (\<lambda>x y. order_cmp (f x) (f y))"
  by unfold_locales (auto simp: order_cmp_def split: if_splits)

lemma PRVersion_Compare_eq:
  "PRVersion_Compare v o' = then_cmp (order_cmp (\<not> IsNum v) (\<not> IsNum o'))
     (if IsNum v \<and> IsNum o' then order_cmp (VersionNum v) (VersionNum o')
      else order_cmp (VersionStr v) (VersionStr o'))"
  by (simp add: PRVersion_Compare_def then_cmp_def order_cmp_def)

interpretation pre: three_way PRVersion_Compare
proof
  fix x y z
  show "PRVersion_Compare y x = - PRVersion_Compare x y"
    by (auto simp: PRVersion_Compare_def)
  show "PRVersion_Compare x y = - 1 \<or> PRVersion_Compare x y = 0 \<or> PRVersion_Compare x y = 1"
    by (auto simp: PRVersion_Compare_def)
  show "PRVersion_Compare x y = 0 \<Longrightarrow> PRVersion_Compare x z = PRVersion_Compare y z"
    by (auto simp: PRVersion_Compare_def split: if_splits)
  show "PRVersion_Compare x y = - 1 \<Longrightarrow> PRVersion_Compare y z = - 1 \<Longrightarrow> PRVersion_Compare x z = - 1"
    by (auto simp: PRVersion_Compare_def split: if_splits)
qed

lemma pre_loop_Cons:
  "pre_loop (v # vs) (o' # os) = then_cmp (PRVersion_Compare v o') (pre_loop vs os)"
  using pre.range [of v o'] by (auto simp: then_cmp_def)

lemma pre_loop_anti: "pre_loop ys xs = - pre_loop xs ys"
proof (induction xs ys rule: pre_loop.induct)
  case (4 v vs o' os)
  then show ?case
    using pre.anti [of o' v] by (simp add: pre_loop_Cons then_cmp_def del: pre_loop.simps)
qed simp_all

lemma pre_loop_range: "pre_loop xs ys = - 1 \<or> pre_loop xs ys = 0 \<or> pre_loop xs ys = 1"
  by (induction xs ys rule: pre_loop.induct) (auto simp: Let_def)

lemma pre_loop_eq_left: "pre_loop xs ys = 0 \<Longrightarrow> pre_loop xs zs = pre_loop ys zs"
proof (induction xs ys arbitrary: zs rule: pre_loop.induct)
  case (4 v vs o' os)
  then have "PRVersion_Compare v o' = 0" "pre_loop vs os = 0"
    by (auto simp: Let_def split: if_splits)
  with 4(1) pre.eq_left [of v o'] show ?case
    by (cases zs) (auto simp: Let_def)
qed auto

lemma pre_loop_trans: "pre_loop xs ys = - 1 \<Longrightarrow> pre_loop ys zs = - 1 \<Longrightarrow> pre_loop xs zs = - 1"
proof (induction xs ys arbitrary: zs rule: pre_loop.induct)
  case (2 y ys)
  then show ?case by (cases zs) auto
next
  case (4 v vs o' os)
  then obtain z zs' where zs: "zs = z # zs'" by (cases zs) auto
  have eq: "PRVersion_Compare o' z = 0 \<Longrightarrow> PRVersion_Compare v z = PRVersion_Compare v o'"
    using pre.eq_left [of z o' v] pre.anti [of o' z] pre.anti [of v z] pre.anti [of v o'] by simp
  show ?case
    using 4 zs pre.eq_left [of v o' z] pre.trans [of v o' z] eq
    by (auto simp: pre_loop_Cons then_cmp_def simp del: pre_loop.simps split: if_splits)
qed auto

lemma three_way_pre: "three_way (\<lambda>x y. pre_loop (f x) (f y))"
  by unfold_locales (rule pre_loop_anti, rule pre_loop_range, erule pre_loop_eq_left, erule pre_loop_trans)

lemma Compare_eq:
  "Compare v o' =
     then_cmp (order_cmp (Major v) (Major o')) (then_cmp (order_cmp (Minor v) (Minor o'))
       (then_cmp (order_cmp (Patch v) (Patch o')) (then_cmp (order_cmp (Pre v = []) (Pre o' = []))
         (pre_loop (Pre v) (Pre o')))))"
  by (auto simp: Compare_def then_cmp_def order_cmp_def)

interpretation version: three_way Compare
  unfolding Compare_eq by (intro three_way_then three_way_order three_way_pre)

lemma PRVersion_Compare_0:
  "PRVersion_Compare v o' = 0 \<longleftrightarrow> PRVersion_String v = PRVersion_String o' \<and> IsNum v = IsNum o'"
proof -
  have "print_nat (unat (VersionNum v)) = print_nat (unat (VersionNum o')) \<longleftrightarrow> VersionNum v = VersionNum o'"
    by (metis digits_value_print word_unat_eq_iff)
  then show ?thesis
    by (auto simp: PRVersion_Compare_def PRVersion_String_def FormatUint_def)
qed

section \<open>Reading and writing\<close>

text \<open>The versions \<open>Parse\<close> produces.\<close>

definition canonical_pre :: "PRVersion \<Rightarrow> bool" where
  "canonical_pre p \<longleftrightarrow>
     (if IsNum p then VersionStr p = []
      else VersionNum p = 0 \<and> VersionStr p \<noteq> [] \<and> list_all alphanum (VersionStr p) \<and>
        \<not> list_all is_digit (VersionStr p))"

definition canonical :: "Version \<Rightarrow> bool" where
  "canonical v \<longleftrightarrow> list_all canonical_pre (Pre v) \<and>
     list_all (\<lambda>b. b \<noteq> [] \<and> list_all alphanum b) (Build v)"

lemma ParseUint_FormatUint: "ParseUint (FormatUint w) = Inr w"
proof -
  have "int (unat w) < 2 ^ 64" using unsigned_less [of w, where ?'a = int] by simp
  then show ?thesis by (simp add: ParseUint_def FormatUint_def parse_print_nat)
qed

lemma parse_number_FormatUint: "parse_number a b (FormatUint w) = Inr w"
  using print_nat_digits [of "unat w"] print_nat_no_leading_zero [of "unat w"] ParseUint_FormatUint [of w]
  by (simp add: parse_number_def containsOnly_def FormatUint_def)

lemma ParseUint_Inr:
  assumes "ParseUint s = Inr w" "\<not> hasLeadingZeroes s"
  shows "FormatUint w = s"
proof -
  from assms(1) have s: "s \<noteq> []" "list_all is_digit s" "digits_value s < 2 ^ 64" "w = of_nat (digits_value s)"
    by (auto simp: ParseUint_def parse_digits_def nat_less_iff [symmetric] nat_power_eq split: if_splits)
  then have "unat w = digits_value s" by (simp add: unat_of_nat take_bit_nat_eq_self)
  with print_digits_value [OF s(1,2) assms(2)] show ?thesis by (simp add: FormatUint_def)
qed

lemma parse_number_Inr: "parse_number a b s = Inr w \<Longrightarrow> FormatUint w = s"
  by (auto simp: parse_number_def split: if_splits intro: ParseUint_Inr)

lemma NewPRVersion_String: "canonical_pre p \<Longrightarrow> NewPRVersion (PRVersion_String p) = Inr p"
  using print_nat_digits [of "unat (VersionNum p)"] print_nat_no_leading_zero [of "unat (VersionNum p)"]
    ParseUint_FormatUint [of "VersionNum p"]
  by (auto simp: NewPRVersion_def PRVersion_String_def canonical_pre_def containsOnly_def FormatUint_def)

lemma NewPRVersion_Inr:
  "NewPRVersion s = Inr p \<Longrightarrow> canonical_pre p \<and> PRVersion_String p = s"
  by (auto simp: NewPRVersion_def canonical_pre_def PRVersion_String_def containsOnly_def
      split: if_splits sum.splits intro: ParseUint_Inr)

lemma parse_each_map: "list_all (\<lambda>x. f (g x) = Inr x) xs \<Longrightarrow> parse_each f (map g xs) = Inr xs"
  by (induction xs) auto

lemma parse_each_Inr:
  "parse_each f xs = Inr ys \<Longrightarrow> (\<And>x y. f x = Inr y \<Longrightarrow> P y \<and> g y = x) \<Longrightarrow> list_all P ys \<and> map g ys = xs"
  by (induction xs arbitrary: ys) (auto split: sum.splits)

lemma cut_at_none: "c \<notin> set s \<Longrightarrow> cut_at c s = (s, [])"
proof -
  assume "c \<notin> set s"
  then have "dropWhile (\<lambda>x. x \<noteq> c) s = []" by (auto simp: dropWhile_eq_Nil_conv)
  then show ?thesis by (simp only: cut_at_def list.case)
qed

lemma cut_at_some: "c \<notin> set x \<Longrightarrow> cut_at c (x @ c # rest) = (x, Split (CHR ''.'') rest)"
  by (auto simp: cut_at_def dropWhile_append takeWhile_append dropWhile_eq_Nil_conv)

lemma cut_at_join:
  assumes "cut_at c s = (x, parts)"
  shows "s = x @ (if parts \<noteq> [] then [c] @ Join ''.'' parts else [])"
proof (cases "dropWhile (\<lambda>y. y \<noteq> c) s")
  case Nil
  with assms show ?thesis by (simp add: cut_at_def)
next
  case (Cons d rest)
  then have "d = c" using hd_dropWhile [of "\<lambda>y. y \<noteq> c" s] by simp
  moreover have "s = takeWhile (\<lambda>y. y \<noteq> c) s @ d # rest"
    using takeWhile_dropWhile_id [of "\<lambda>y. y \<noteq> c" s] Cons by simp
  moreover have "Split (CHR ''.'') rest \<noteq> []" by simp
  ultimately show ?thesis using assms Cons by (auto simp: cut_at_def Join_Split)
qed

lemma digit_chars: "list_all is_digit s \<Longrightarrow> CHR ''.'' \<notin> set s \<and> CHR ''+'' \<notin> set s \<and> CHR ''-'' \<notin> set s"
  by (auto simp: list_all_iff is_digit_def less_eq_char_def)

lemma alphanum_chars: "list_all alphanum s \<Longrightarrow> CHR ''.'' \<notin> set s \<and> CHR ''+'' \<notin> set s"
  by (auto simp: list_all_iff alphanum_def alpha_def is_digit_def less_eq_char_def)

lemma FormatUint_chars:
  "CHR ''.'' \<notin> set (FormatUint w)" "CHR ''+'' \<notin> set (FormatUint w)" "CHR ''-'' \<notin> set (FormatUint w)"
  "FormatUint w \<noteq> []"
  using digit_chars [of "FormatUint w"] print_nat_digits [of "unat w"] by (auto simp: FormatUint_def)

lemma PRVersion_String_chars:
  "canonical_pre p \<Longrightarrow> CHR ''.'' \<notin> set (PRVersion_String p) \<and> CHR ''+'' \<notin> set (PRVersion_String p)"
  using alphanum_chars [of "VersionStr p"] FormatUint_chars [of "VersionNum p"]
  by (auto simp: PRVersion_String_def canonical_pre_def split: if_splits)

lemma patch_part:
  assumes "canonical v"
  shows "cut_at (CHR ''-'') (FormatUint (Patch v) @
      (if Pre v \<noteq> [] then ''-'' @ Join ''.'' (map PRVersion_String (Pre v)) else [])) =
    (FormatUint (Patch v), map PRVersion_String (Pre v))"
proof (cases "Pre v = []")
  case True
  then show ?thesis by (simp add: cut_at_none FormatUint_chars)
next
  case False
  have "list_all (\<lambda>x. CHR ''.'' \<notin> set x) (map PRVersion_String (Pre v))"
    using assms PRVersion_String_chars by (auto simp: canonical_def list_all_iff)
  with False have "Split (CHR ''.'') (Join ''.'' (map PRVersion_String (Pre v))) = map PRVersion_String (Pre v)"
    by (intro Split_Join) auto
  with False show ?thesis by (simp add: cut_at_some FormatUint_chars)
qed

lemma build_part:
  assumes "canonical v"
  shows "cut_at (CHR ''+'') (FormatUint (Patch v) @
      (if Pre v \<noteq> [] then ''-'' @ Join ''.'' (map PRVersion_String (Pre v)) else []) @
      (if Build v \<noteq> [] then ''+'' @ Join ''.'' (Build v) else [])) =
    (FormatUint (Patch v) @ (if Pre v \<noteq> [] then ''-'' @ Join ''.'' (map PRVersion_String (Pre v)) else []),
     Build v)"
proof -
  let ?x = "FormatUint (Patch v) @ (if Pre v \<noteq> [] then ''-'' @ Join ''.'' (map PRVersion_String (Pre v)) else [])"
  have "\<forall>p\<in>set (Pre v). CHR ''+'' \<notin> set (PRVersion_String p)"
    using assms PRVersion_String_chars by (auto simp: canonical_def list_all_iff)
  then have x: "CHR ''+'' \<notin> set ?x"
    using Join_set [of "''.''" "map PRVersion_String (Pre v)"] FormatUint_chars(2) by auto
  have b: "Split (CHR ''.'') (Join ''.'' (Build v)) = Build v" if "Build v \<noteq> []"
    using assms that alphanum_chars by (intro Split_Join) (auto simp: canonical_def list_all_iff)
  from cut_at_none [OF x] cut_at_some [OF x, of "Join ''.'' (Build v)"] b show ?thesis
    by (cases "Build v = []") simp_all
qed

lemma Parse_Version_String:
  assumes "canonical v"
  shows "Parse (Version_String v) = Inr v"
proof -
  let ?p2 = "FormatUint (Patch v) @
      (if Pre v \<noteq> [] then ''-'' @ Join ''.'' (map PRVersion_String (Pre v)) else []) @
      (if Build v \<noteq> [] then ''+'' @ Join ''.'' (Build v) else [])"
  have split: "SplitN (CHR ''.'') 3 (Version_String v) = [FormatUint (Major v), FormatUint (Minor v), ?p2]"
    using SplitN_three [OF FormatUint_chars(1) FormatUint_chars(1), of "Major v" "Minor v" ?p2]
    by (simp add: Version_String_def)
  have "parse_each NewPRVersion (map PRVersion_String (Pre v)) = Inr (Pre v)"
    using assms NewPRVersion_String by (intro parse_each_map) (auto simp: canonical_def list_all_iff)
  moreover have "parse_each parse_build (map id (Build v)) = Inr (Build v)"
    using assms by (intro parse_each_map) (auto simp: canonical_def list_all_iff parse_build_def containsOnly_def)
  moreover have "Version_String v \<noteq> []" by (simp add: Version_String_def)
  ultimately show ?thesis
    unfolding Parse_def split by (simp only: list.case build_part [OF assms] patch_part [OF assms]
        parse_number_FormatUint sum.case Let_def prod.case if_False list.map_id) simp
qed

lemma Version_String_Parse:
  assumes "Parse s = Inr v"
  shows "canonical v \<and> Version_String v = s"
proof -
  from assms obtain p0 p1 p2 where split: "SplitN (CHR ''.'') 3 s = [p0, p1, p2]"
    by (auto simp: Parse_def split: if_splits list.splits)
  obtain x build where b: "cut_at (CHR ''+'') p2 = (x, build)" by fastforce
  obtain y pre where p: "cut_at (CHR ''-'') x = (y, pre)" by fastforce
  from assms split b p have
    n: "parse_number ''major'' ''Major'' p0 = Inr (Major v)" "parse_number ''minor'' ''Minor'' p1 = Inr (Minor v)"
      "parse_number ''patch'' ''Patch'' y = Inr (Patch v)"
    and each: "parse_each NewPRVersion pre = Inr (Pre v)" "parse_each parse_build build = Inr (Build v)"
    by (auto simp: Parse_def split: if_splits sum.splits)
  from parse_each_Inr [OF each(1), of canonical_pre PRVersion_String]
  have pre: "list_all canonical_pre (Pre v)" "map PRVersion_String (Pre v) = pre"
    using NewPRVersion_Inr by blast+
  have ok: "(y \<noteq> [] \<and> list_all alphanum y) \<and> id y = x" if "parse_build x = Inr y" for x y
    using that by (simp add: parse_build_def containsOnly_def split: if_splits)
  have "list_all (\<lambda>b. b \<noteq> [] \<and> list_all alphanum b) (Build v) \<and> map id (Build v) = build"
    by (rule parse_each_Inr [OF each(2)]) (rule ok)
  then have build: "list_all (\<lambda>b. b \<noteq> [] \<and> list_all alphanum b) (Build v)" "build = Build v"
    unfolding list.map_id by blast+
  have "s = Join ''.'' [p0, p1, p2]" using Join_SplitN [of "CHR ''.''" 3 s] split by simp
  also have "\<dots> = Version_String v"
  proof -
    have f: "FormatUint (Major v) = p0" "FormatUint (Minor v) = p1" "FormatUint (Patch v) = y"
      using n [THEN parse_number_Inr] by simp_all
    have "pre \<noteq> [] \<longleftrightarrow> Pre v \<noteq> []" using pre(2) by auto
    then have x: "x = y @ (if Pre v \<noteq> [] then ''-'' @ Join ''.'' (map PRVersion_String (Pre v)) else [])"
      using cut_at_join [OF p] unfolding pre(2) by (simp only: append.simps)
    have "p2 = x @ (if Build v \<noteq> [] then ''+'' @ Join ''.'' (Build v) else [])"
      using cut_at_join [OF b] unfolding build(2) by (simp only: append.simps)
    then show ?thesis
      unfolding Version_String_def f x by simp
  qed
  finally show ?thesis using pre(1) build(1) by (simp add: canonical_def)
qed

section \<open>Properties\<close>

text \<open>
  C19: Parsing and printing versions are inverse to each other: \<open>Parse\<close> accepts a string as the version
  \<open>v\<close> exactly if the string is the print of \<open>v\<close> and \<open>v\<close> is canonical (its identifiers are well-formed).
\<close>

theorem version_roundtrip:
  "(Parse s = Inr v) = (canonical v \<and> Version_String v = s)"
  using Version_String_Parse [of s v] Parse_Version_String [of v] by blast

text \<open>
  C18: \<open>Compare\<close> orders versions linearly: it answers -1, 0 or 1, reversing the arguments reverses the
  answer, "not greater" is transitive, and two versions compare equal exactly if they agree in the
  three numbers and in the printed pre-release identifiers with their kinds; build metadata never counts.
\<close>

theorem version_order:
  "Compare x y \<in> {- 1, 0, 1} \<and> Compare y x = - Compare x y \<and>
   (Compare x y \<le> 0 \<and> Compare y z \<le> 0 \<longrightarrow> Compare x z \<le> 0) \<and>
   (Compare x y = 0) = (Major x = Major y \<and> Minor x = Minor y \<and> Patch x = Patch y \<and>
      map (\<lambda>p. (PRVersion_String p, IsNum p)) (Pre x) = map (\<lambda>p. (PRVersion_String p, IsNum p)) (Pre y))"
proof (intro conjI impI)
  show "Compare x y \<in> {- 1, 0, 1}" using version.range [of x y] by auto
  show "Compare y x = - Compare x y" by (rule version.anti)
  show "Compare x z \<le> 0" if "Compare x y \<le> 0 \<and> Compare y z \<le> 0" using version.le_trans that by blast
  have "(pre_loop ps qs = 0) = (map (\<lambda>p. (PRVersion_String p, IsNum p)) ps = map (\<lambda>p. (PRVersion_String p, IsNum p)) qs)" for ps qs
  proof (induction ps qs rule: pre_loop.induct)
    case (4 p ps q qs)
    then show ?case using PRVersion_Compare_0 [of p q] by (auto simp: Let_def)
  qed simp_all
  then show "(Compare x y = 0) = (Major x = Major y \<and> Minor x = Minor y \<and> Patch x = Patch y \<and>
      map (\<lambda>p. (PRVersion_String p, IsNum p)) (Pre x) = map (\<lambda>p. (PRVersion_String p, IsNum p)) (Pre y))"
    by (auto simp: Compare_eq then_cmp_def order_cmp_def)
qed

definition release :: "64 word \<Rightarrow> 64 word \<Rightarrow> 64 word \<Rightarrow> Version" where
  "release a b c = \<lparr>Major = a, Minor = b, Patch = c, Pre = [], Build = []\<rparr>"

theorem version_order_witness:
  "Compare (release 0 3 0) (release 0 4 1) \<le> 0 \<and> Compare (release 0 4 1) (release 1 0 0) \<le> 0 \<and>
   Compare (release 0 3 0) (release 1 0 0) \<le> 0"
  using version_order [of "release 0 3 0" "release 0 4 1" "release 1 0 0"]
  by (simp add: Compare_def release_def)

end
