(* ===== verification/Agent_Manager.thy ===== *)
theory Agent_Manager
  imports Operator Semver
begin

text \<open>
  The deprecated part of the operator that labels nodes for the agent and keeps the daemon set
  of the agents at the version of the operator: \<open>src/pkg/operator/agent_manager.go\<close> and
  \<open>src/pkg/version/version.go\<close>. The version string is set when the program is built; it is the
  parameter \<open>Version\<close> here, and \<open>Semver\<close> is what \<open>init\<close> makes of it.

  \<open>daemonset_api\<close> is the contract of the daemon sets of one namespace, and
  \<open>daemonset_store\<close> an executable server that meets it. Under this contract a successful
  \<open>runDaemonsetUpdate\<close> leaves exactly one managed daemon set, not older than the operator.
\<close>

section \<open>The version package\<close>

definition version_init :: "string \<Rightarrow> goerr + Version" where
  "version_init Version = (case Parse Version of
      Inl err \<Rightarrow> Inl (Errorf (''invalid build of update operator; version.Version must be set at compiletime '' @
          ''to a valid semver value. %v could not parse: %v'') [Version] [err])
    | Inr v \<Rightarrow> Inr v)"

definition version_Format :: "string \<Rightarrow> string \<Rightarrow> string" where
  "version_Format Version Commit = ''Version: '' @ Version @ [CHR 0x0A] @ ''Commit: '' @ Commit"

section \<open>Labelling nodes\<close>

definition enableUpdateAgentLabel :: "(string \<times> string) list" where
  "enableUpdateAgentLabel = [(LabelUpdateAgentEnabled, constTrue)]"

definition updateAgentLabelMissing :: Requirement where
  "updateAgentLabelMissing =
     initialised no_requirement (NewRequirementOrDie LabelUpdateAgentEnabled DoesNotExist [])"

text \<open>A call whose error is only logged.\<close>

definition go_logged :: "('w, unit) go \<Rightarrow> ('w, unit) go" where
  "go_logged m w = (case m w of
      (w', OK _) \<Rightarrow> (w', OK ())
    | (w', Err _) \<Rightarrow> (w', OK ())
    | (w', Panic p) \<Rightarrow> (w', Panic p))"

definition nodes_to_label :: "node list \<Rightarrow> node list" where
  "nodes_to_label nodelist =
     FilterContainerLinuxNodes (FilterNodesByRequirement nodelist updateAgentLabelMissing)"

definition legacyLabeler :: "'w Kontroller \<Rightarrow> ('w, unit) go" where
  "legacyLabeler k w = (case nc_List (nc k) w of
      (w', Inl err) \<Rightarrow> (w', OK ())
    | (w', Inr nodelist) \<Rightarrow>
        range_loop (\<lambda>n. go_logged (SetNodeLabels (nc k) (Name n) enableUpdateAgentLabel))
          (nodes_to_label nodelist) w')"

section \<open>The daemon set of the agents\<close>

definition daemonsetName :: string where
  "daemonsetName = ''container-linux-update-agent-ds''"

definition agentDefaultAppName :: string where
  "agentDefaultAppName = ''container-linux-update-agent''"

definition managedByOperatorLabels :: "(string \<times> string) list" where
  "managedByOperatorLabels =
     [(''managed-by'', ''container-linux-update-operator''), (''app'', agentDefaultAppName)]"

definition agentImageName :: "string \<Rightarrow> string \<Rightarrow> string" where
  "agentImageName Version repo = repo @ '':v'' @ Version"

definition agentCommand :: "string list" where
  "agentCommand = [''/bin/update-agent'']"

definition agentDaemonsetSpec :: "string \<Rightarrow> string \<Rightarrow> DaemonSet" where
  "agentDaemonsetSpec Version repo =
     (let versionedSelector = Some ((map_of managedByOperatorLabels)(AgentVersion \<mapsto> Version))
      in \<lparr>ds_Name = daemonsetName,
          ds_Labels = Some (map_of managedByOperatorLabels),
          ds_Annotations = Some [AgentVersion \<mapsto> Version],
          ds_MatchLabels = versionedSelector,
          ds_Template =
            \<lparr>tmpl_Name = agentDefaultAppName,
             tmpl_Labels = versionedSelector,
             tmpl_Annotations = Some [AgentVersion \<mapsto> Version],
             tmpl_Tolerations =
               [\<lparr>tol_Key = ''node-role.kubernetes.io/master'', tol_Operator = ''Exists'',
                 tol_Effect = ''NoSchedule''\<rparr>],
             tmpl_Containers =
               [\<lparr>ctr_Name = ''update-agent'', ctr_Image = agentImageName Version repo,
                 ctr_Command = agentCommand,
                 ctr_VolumeMounts =
                   [\<lparr>vm_Name = ''var-run-dbus'', vm_MountPath = ''/var/run/dbus''\<rparr>,
                    \<lparr>vm_Name = ''etc-coreos'', vm_MountPath = ''/etc/coreos''\<rparr>,
                    \<lparr>vm_Name = ''usr-share-coreos'', vm_MountPath = ''/usr/share/coreos''\<rparr>,
                    \<lparr>vm_Name = ''etc-os-release'', vm_MountPath = ''/etc/os-release''\<rparr>],
                 ctr_Env =
                   [\<lparr>env_Name = ''UPDATE_AGENT_NODE'', env_FieldPath = ''spec.nodeName''\<rparr>,
                    \<lparr>env_Name = ''POD_NAMESPACE'', env_FieldPath = ''metadata.namespace''\<rparr>]\<rparr>],
             tmpl_Volumes =
               [\<lparr>vol_Name = ''var-run-dbus'', vol_HostPath = ''/var/run/dbus''\<rparr>,
                \<lparr>vol_Name = ''etc-coreos'', vol_HostPath = ''/etc/coreos''\<rparr>,
                \<lparr>vol_Name = ''usr-share-coreos'', vol_HostPath = ''/usr/share/coreos''\<rparr>,
                \<lparr>vol_Name = ''etc-os-release'', vol_HostPath = ''/etc/os-release''\<rparr>]\<rparr>\<rparr>)"

definition createAgentDamonset :: "'w Kontroller \<Rightarrow> string \<Rightarrow> string \<Rightarrow> ('w, unit) go" where
  "createAgentDamonset k Version repo =
     go_error (ds_Create (kc k) (namespace k) (agentDaemonsetSpec Version repo))"

definition managed_selector :: "Requirement list" where
  "managed_selector = labels_SelectorFromSet managedByOperatorLabels"

text \<open>The version of a listed daemon set, with the two errors of its annotation.\<close>

definition daemonset_version :: "DaemonSet \<Rightarrow> goerr + Version" where
  "daemonset_version agentDS =
     (if gomap_has (ds_Annotations agentDS) AgentVersion then
        (let dsVersion = gomap_get (ds_Annotations agentDS) AgentVersion
         in case Parse dsVersion of
              Inl err \<Rightarrow> Inl (Errorf (''agent daemonset had version annotation, '' @
                  ''but it was not valid semver: %v[%v] = %v'') [ds_Name agentDS, AgentVersion, dsVersion] [])
            | Inr ver \<Rightarrow> Inr ver)
      else Inl (Errorf ''managed daemonset did not have a version annotation'' [] []))"

definition runDaemonsetUpdate :: "'w Kontroller \<Rightarrow> string \<Rightarrow> Version \<Rightarrow> string \<Rightarrow> ('w, unit) go" where
  "runDaemonsetUpdate k Version Semver repo =
     go_bind (go_call (ds_List (kc k) (namespace k) (labels_String managed_selector))) (\<lambda>agentDaemonsets.
       case agentDaemonsets of
         [] \<Rightarrow> createAgentDamonset k Version repo
       | [agentDS] \<Rightarrow>
           (case daemonset_version agentDS of
              Inl err \<Rightarrow> (\<lambda>w. (w, Err err))
            | Inr dsSemver \<Rightarrow>
                if LT dsSemver Semver then
                  go_bind (go_error (ds_Delete (kc k) (namespace k) (ds_Name agentDS)))
                    (\<lambda>_. createAgentDamonset k Version repo)
                else go_return ())
       | _ \<Rightarrow> (\<lambda>w. (w, Err (Errorf ''only expected one daemonset managed by operator; found %v''
                 [print_nat (length agentDaemonsets)] []))))"

section \<open>Lemmas\<close>

lemma updateAgentLabelMissing_matches [sel_simps]:
  "req_Matches updateAgentLabelMissing ls \<longleftrightarrow> \<not> gomap_has ls LabelUpdateAgentEnabled"
proof -
  have "NewRequirementOrDie LabelUpdateAgentEnabled DoesNotExist [] =
      OK \<lparr>req_key = LabelUpdateAgentEnabled, req_operator = DoesNotExist, req_strValues = []\<rparr>"
    by code_simp
  then show ?thesis
    by (simp add: updateAgentLabelMissing_def initialised_def req_Matches_def)
qed

lemma nodes_to_label_iff:
  "n \<in> set (nodes_to_label xs) \<longleftrightarrow>
     n \<in> set xs \<and> HasPrefix (OSImage n) ''Container Linux'' \<and> \<not> gomap_has (Labels n) LabelUpdateAgentEnabled"
  by (auto simp: nodes_to_label_def containerLinux.flt_set byRequirement.flt_set updateAgentLabelMissing_matches)

lemma managed_selector_String:
  "labels_String managed_selector = ''app=container-linux-update-agent,managed-by=container-linux-update-operator''"
  by code_simp

lemma managed_selector_eq:
  "managed_selector =
     [\<lparr>req_key = ''app'', req_operator = Equals, req_strValues = [agentDefaultAppName]\<rparr>,
      \<lparr>req_key = ''managed-by'', req_operator = Equals, req_strValues = [''container-linux-update-operator'']\<rparr>]"
  by code_simp

lemma spec_managed: "labels_Matches managed_selector (ds_Labels (agentDaemonsetSpec Version repo))"
  by (simp add: managed_selector_eq labels_Matches_def req_Matches_def hasValue_def agentDaemonsetSpec_def
      managedByOperatorLabels_def Let_def)

lemma spec_version: "Parse Version = Inr v \<Longrightarrow> daemonset_version (agentDaemonsetSpec Version repo) = Inr v"
  by (simp add: daemonset_version_def agentDaemonsetSpec_def Let_def)

lemma LT_irrefl: "\<not> LT v v"
  by (simp add: LT_def version.cmp_refl)

section \<open>The contract of the daemon sets\<close>

definition managed_daemonsets :: "DaemonSet list \<Rightarrow> DaemonSet list" where
  "managed_daemonsets ds = filter (\<lambda>d. labels_Matches managed_selector (ds_Labels d)) ds"

locale daemonset_api =
  fixes kc :: "'w kube_iface" and ns :: string and dss :: "'w \<Rightarrow> DaemonSet list"
  assumes ds_list: "ds_List kc ns (labels_String managed_selector) w = (w', Inr xs) \<Longrightarrow>
      dss w' = dss w \<and> xs = managed_daemonsets (dss w)"
    and ds_create: "ds_Create kc ns d w = (w', None) \<Longrightarrow> dss w' = dss w @ [d]"
    and ds_delete: "ds_Delete kc ns name w = (w', None) \<Longrightarrow> dss w' = filter (\<lambda>d. ds_Name d \<noteq> name) (dss w)"
begin

abbreviation managed :: "'w \<Rightarrow> DaemonSet list" where
  "managed w \<equiv> managed_daemonsets (dss w)"

lemma delete_sole:
  assumes "managed w = [d]" "ds_Delete kc ns (ds_Name d) w = (w', None)"
  shows "managed w' = []"
proof -
  have "managed w' = filter (\<lambda>d'. ds_Name d' \<noteq> ds_Name d) (managed w)"
    using ds_delete [OF assms(2)] by (simp add: managed_daemonsets_def conj_commute)
  with assms(1) show ?thesis by simp
qed

lemma create_managed:
  assumes "ds_Create kc ns (agentDaemonsetSpec Version repo) w = (w', None)"
  shows "managed w' = managed w @ [agentDaemonsetSpec Version repo]"
  using ds_create [OF assms] by (simp add: managed_daemonsets_def spec_managed)

lemma update_OK:
  assumes run: "runDaemonsetUpdate k Version Semver repo w = (w', OK ())"
    and k: "Operator.kc k = kc" "namespace k = ns"
    and ver: "Parse Version = Inr Semver"
  shows "\<exists>d v. managed w' = [d] \<and> daemonset_version d = Inr v \<and> \<not> LT v Semver"
proof -
  let ?spec = "agentDaemonsetSpec Version repo"
  have new: ?thesis if "managed w' = [?spec]"
    using that spec_version [OF ver] LT_irrefl by blast
  from run k obtain w1 xs where list: "ds_List kc ns (labels_String managed_selector) w = (w1, Inr xs)"
    by (auto simp: runDaemonsetUpdate_def go_bind_OK_iff)
  from ds_list [OF list] have m: "managed w1 = xs" by simp
  show ?thesis
  proof (cases xs)
    case Nil
    with run k list have "ds_Create kc ns ?spec w1 = (w', None)"
      by (simp add: runDaemonsetUpdate_def createAgentDamonset_def go_simps)
    with create_managed m Nil new show ?thesis by simp
  next
    case (Cons d rest)
    with run k list have rest: "rest = []"
      by (cases rest) (simp_all add: runDaemonsetUpdate_def go_simps)
    with run k list Cons obtain v where v: "daemonset_version d = Inr v"
      by (cases "daemonset_version d") (simp_all add: runDaemonsetUpdate_def go_simps)
    show ?thesis
    proof (cases "LT v Semver")
      case True
      with run k list Cons rest v obtain w2 where
        "ds_Delete kc ns (ds_Name d) w1 = (w2, None)" "ds_Create kc ns ?spec w2 = (w', None)"
        by (auto simp: runDaemonsetUpdate_def createAgentDamonset_def go_simps go_bind_OK_iff)
      with delete_sole [of w1 d w2] create_managed m Cons rest new show ?thesis by simp
    next
      case False
      with run k list Cons rest v have "w' = w1"
        by (simp add: runDaemonsetUpdate_def go_simps)
      with m Cons rest v False show ?thesis by simp
    qed
  qed
qed

end

text \<open>
  A server for one namespace: the stored daemon sets, and for every call in turn whether it
  fails. It answers to the selector of the operator only.
\<close>

record daemonset_store =
  dst_items :: "DaemonSet list"
  dst_faults :: "goerr option list"

definition dst_next :: "daemonset_store \<Rightarrow> daemonset_store \<times> goerr option" where
  "dst_next w = (case dst_faults w of [] \<Rightarrow> (w, None) | f # fs \<Rightarrow> (w\<lparr>dst_faults := fs\<rparr>, f))"

definition dst_List :: "string \<Rightarrow> string \<Rightarrow> daemonset_store \<Rightarrow> daemonset_store \<times> (goerr + DaemonSet list)" where
  "dst_List ns sel w = (case dst_next w of
      (w', Some e) \<Rightarrow> (w', Inl e)
    | (w', None) \<Rightarrow>
        (w', if sel = labels_String managed_selector then Inr (managed_daemonsets (dst_items w'))
             else Inl (ErrorString ''unknown selector'')))"

definition dst_Create :: "string \<Rightarrow> DaemonSet \<Rightarrow> daemonset_store \<Rightarrow> daemonset_store \<times> goerr option" where
  "dst_Create ns d w = (case dst_next w of
      (w', Some e) \<Rightarrow> (w', Some e)
    | (w', None) \<Rightarrow>
        if list_ex (\<lambda>x. ds_Name x = ds_Name d) (dst_items w')
        then (w', Some (StatusError ''AlreadyExists'' (ds_Name d)))
        else (w'\<lparr>dst_items := dst_items w' @ [d]\<rparr>, None))"

definition dst_Delete :: "string \<Rightarrow> string \<Rightarrow> daemonset_store \<Rightarrow> daemonset_store \<times> goerr option" where
  "dst_Delete ns name w = (case dst_next w of
      (w', Some e) \<Rightarrow> (w', Some e)
    | (w', None) \<Rightarrow>
        if list_ex (\<lambda>x. ds_Name x = name) (dst_items w')
        then (w'\<lparr>dst_items := filter (\<lambda>x. ds_Name x \<noteq> name) (dst_items w')\<rparr>, None)
        else (w', Some (StatusError StatusReasonNotFound name)))"

definition dst_kube :: "daemonset_store kube_iface" where
  "dst_kube = \<lparr>ds_List = dst_List, ds_Get = (\<lambda>_ name w. (w, Inl (StatusError StatusReasonNotFound name))),
     ds_Create = dst_Create, ds_Delete = dst_Delete, pods_List = (\<lambda>_ _ w. (w, Inr [])),
     pods_Get = (\<lambda>_ name w. (w, zero_pod, Some (StatusError StatusReasonNotFound name))),
     pods_Delete = (\<lambda>_ _ w. (w, None))\<rparr>"

interpretation daemonsets: daemonset_api dst_kube ns dst_items
  by unfold_locales
     (auto simp: dst_kube_def dst_List_def dst_Create_def dst_Delete_def dst_next_def
       split: prod.splits option.splits list.splits if_splits)

section \<open>Properties\<close>

text \<open>
  C17: A successful update of the managed agents leaves exactly one managed daemon set, and its version is
  not older than the operator's, whether there was none before, an outdated one, or a newer one. A
  second successful update then changes no daemon set.
\<close>

theorem agents_up_to_date:
  assumes "daemonset_api kube ns dss" "Operator.kc k = kube" "namespace k = ns" "Parse Version = Inr Semver"
    and "runDaemonsetUpdate k Version Semver repo w = (w1, OK ())"
  shows "(\<exists>d v. managed_daemonsets (dss w1) = [d] \<and> daemonset_version d = Inr v \<and> \<not> LT v Semver) \<and>
     (\<forall>w2. runDaemonsetUpdate k Version Semver repo w1 = (w2, OK ()) \<longrightarrow> dss w2 = dss w1)"
proof -
  obtain d v where d: "managed_daemonsets (dss w1) = [d]" "daemonset_version d = Inr v" "\<not> LT v Semver"
    using daemonset_api.update_OK [OF assms(1,5,2,3,4)] by blast
  have "dss w2 = dss w1" if again: "runDaemonsetUpdate k Version Semver repo w1 = (w2, OK ())" for w2
  proof -
    from assms(2,3) again obtain w' xs where list: "ds_List kube ns (labels_String managed_selector) w1 = (w', Inr xs)"
      by (auto simp: runDaemonsetUpdate_def go_bind_OK_iff)
    from daemonset_api.ds_list [OF assms(1) list] d(1) have "xs = [d]" "dss w' = dss w1" by simp_all
    with assms(2,3) again list d(2,3) show ?thesis by (simp add: runDaemonsetUpdate_def go_simps)
  qed
  with d show ?thesis by blast
qed

definition managing :: "daemonset_store Kontroller" where
  "managing = \<lparr>kc = dst_kube, nc = \<lparr>nc_Get = (\<lambda>_ w. (w, Inl ErrWaitTimeout)), nc_List = (\<lambda>w. (w, Inr [])),
     nc_Update = (\<lambda>n w. (w, n, None)), nc_Watch = (\<lambda>_ _ w. (w, Inr 0)), nc_Next = (\<lambda>_ w. (w, Closed))\<rparr>,
     beforeRebootAnnotations = [], afterRebootAnnotations = [], namespace = ''ns'', autoLabelContainerLinux = False,
     rebootWindow = None, manageAgent = True, agentImageRepo = ''repo'', clock_Now = (\<lambda>w. (w, 0)), clock_loc = 0\<rparr>"

definition outdated :: daemonset_store where
  "outdated = \<lparr>dst_items = [agentDaemonsetSpec ''0.4.0-rc.1'' ''repo''], dst_faults = []\<rparr>"

definition current :: Version where
  "current = \<lparr>Major = 0, Minor = 4, Patch = 0, Pre = [], Build = []\<rparr>"

theorem agents_up_to_date_witness:
  "let w1 = fst (runDaemonsetUpdate managing ''0.4.0'' current ''repo'' outdated)
   in (\<exists>d v. managed_daemonsets (dst_items w1) = [d] \<and> daemonset_version d = Inr v \<and> \<not> LT v current) \<and>
      dst_items (fst (runDaemonsetUpdate managing ''0.4.0'' current ''repo'' w1)) = dst_items w1"
proof -
  let ?w1 = "fst (runDaemonsetUpdate managing ''0.4.0'' current ''repo'' outdated)"
  let ?w2 = "fst (runDaemonsetUpdate managing ''0.4.0'' current ''repo'' ?w1)"
  have "canonical current" "Version_String current = ''0.4.0''" by code_simp+
  then have ver: "Parse ''0.4.0'' = Inr current" using Parse_Version_String [of current] by simp
  have "is_OK (snd (runDaemonsetUpdate managing ''0.4.0'' current ''repo'' outdated))"
    "is_OK (snd (runDaemonsetUpdate managing ''0.4.0'' current ''repo'' ?w1))" by code_simp+
  then have run: "runDaemonsetUpdate managing ''0.4.0'' current ''repo'' outdated = (?w1, OK ())"
    and again: "runDaemonsetUpdate managing ''0.4.0'' current ''repo'' ?w1 = (?w2, OK ())"
    by (metis prod.collapse is_OK_unit)+
  from agents_up_to_date [OF daemonsets.daemonset_api_axioms _ _ ver run] again
  show ?thesis by (simp add: managing_def Let_def)
qed

text \<open>
  C30: When the operator refuses to touch the agents. With several managed daemon sets, or one without a
  valid version annotation, the update ends with an error and no daemon set is changed.
\<close>

theorem unclear_agents_untouched:
  assumes "daemonset_api kube ns dss" "Operator.kc k = kube" "namespace k = ns"
    and "length (managed_daemonsets (dss w)) > 1 \<or>
      (\<exists>d e. managed_daemonsets (dss w) = [d] \<and> daemonset_version d = Inl e)"
    and "ds_List kube ns (labels_String managed_selector) w = (w1, Inr xs)"
  shows "\<exists>e. runDaemonsetUpdate k Version Semver repo w = (w1, Err e) \<and> dss w1 = dss w"
proof -
  from daemonset_api.ds_list [OF assms(1,5)] have xs: "managed_daemonsets (dss w) = xs" "dss w1 = dss w" by simp_all
  from assms(4) [unfolded xs] consider d d' ds where "xs = d # d' # ds" | d e where "xs = [d]" "daemonset_version d = Inl e"
    by (cases xs; cases "tl xs") auto
  then show ?thesis
    using assms(2,3,5) xs(2) by cases (auto simp: runDaemonsetUpdate_def go_simps)
qed

definition two_agents :: daemonset_store where
  "two_agents = \<lparr>dst_items = [agentDaemonsetSpec ''0.3.0'' ''repo'', (agentDaemonsetSpec ''0.4.0'' ''repo'')\<lparr>ds_Name := ''copy''\<rparr>],
     dst_faults = []\<rparr>"

theorem unclear_agents_untouched_witness:
  "\<exists>e. runDaemonsetUpdate managing ''0.4.0'' current ''repo'' two_agents = (two_agents, Err e)"
proof -
  have "ds_List dst_kube ''ns'' (labels_String managed_selector) two_agents =
      (two_agents, Inr (managed_daemonsets (dst_items two_agents)))"
    by (simp add: dst_kube_def dst_List_def dst_next_def two_agents_def)
  moreover have "length (managed_daemonsets (dst_items two_agents)) > 1" by code_simp
  ultimately show ?thesis
    using unclear_agents_untouched [OF daemonsets.daemonset_api_axioms, of managing "''ns''" two_agents two_agents
        "managed_daemonsets (dst_items two_agents)" "''0.4.0''" current "''repo''"]
    by (simp add: managing_def)
qed

end
