(* ===== verification/Window_Config.thy ===== *)
theory Window_Config
  imports Reboot_Window Decimal
begin

text \<open>
  The configuration of a reboot window: \<open>ParsePeriodic\<close> and \<open>parseStart\<close> of
  \<open>src/vendor/github.com/coreos/locksmith/pkg/timeutil/periodic.go\<close>, with the functions of the
  standard library they call: \<open>strings.Fields\<close> and \<open>strings.ToLower\<close> on ASCII,
  \<open>fmt.Sscanf\<close> with the format \<open>%d:%d\<close> (which leaves what follows the second number unread),
  and \<open>time.ParseDuration\<close> (a fraction of a unit is rounded down exactly, where the library
  computes it with float64).

  \<open>ParsePeriodic_valid\<close> closes the gap to \<open>Reboot_Window\<close>: every window that is accepted meets
  the hypothesis of the theorems there and is shorter than its period.
\<close>

section \<open>The standard library\<close>

definition is_space :: "char \<Rightarrow> bool" where
  "is_space c \<longleftrightarrow> c = CHR '' '' \<or> (CHR 0x09 \<le> c \<and> c \<le> CHR 0x0D)"

fun fields_loop :: "string \<Rightarrow> string \<Rightarrow> string list" where
  "fields_loop cur [] = (if cur = [] then [] else [cur])"
| "fields_loop cur (c # cs) =
     (if is_space c then (if cur = [] then fields_loop [] cs else cur # fields_loop [] cs)
      else fields_loop (cur @ [c]) cs)"

definition Fields :: "string \<Rightarrow> string list" where
  "Fields s = fields_loop [] s"

definition ToLower :: "string \<Rightarrow> string" where
  "ToLower s = map (\<lambda>c. if CHR ''A'' \<le> c \<and> c \<le> CHR ''Z'' then char_of (of_char c + (32 :: nat)) else c) s"

text \<open>\<open>%d\<close>: an optional sign and digits whose value fits into an int; the rest is left.\<close>

definition scan_int :: "string \<Rightarrow> (int \<times> string) option" where
  "scan_int s =
     (let (neg, t) = (case s of
            c # cs \<Rightarrow> if c = CHR ''-'' then (True, cs) else if c = CHR ''+'' then (False, cs) else (False, s)
          | [] \<Rightarrow> (False, []));
          ds = takeWhile is_digit t;
          v = (if neg then - int (digits_value ds) else int (digits_value ds))
      in if ds = [] then None
         else if - (2 ^ 63) \<le> v \<and> v < 2 ^ 63 then Some (v, dropWhile is_digit t) else None)"

definition Sscanf_time :: "string \<Rightarrow> (int \<times> int) option" where
  "Sscanf_time s = (case scan_int s of
      Some (h, c # rest) \<Rightarrow>
        if c = CHR '':'' then (case scan_int rest of Some (m, _) \<Rightarrow> Some (h, m) | None \<Rightarrow> None) else None
    | _ \<Rightarrow> None)"

definition max_int64 :: int where
  "max_int64 = 2 ^ 63 - 1"

definition unit_ns :: "string \<Rightarrow> int option" where
  "unit_ns u =
     (if u = ''ns'' then Some 1
      else if u = ''us'' \<or> u = [CHR 0xC2, CHR 0xB5, CHR ''s''] \<or> u = [CHR 0xCE, CHR 0xBC, CHR ''s''] then Some 1000
      else if u = ''ms'' then Some 1000000
      else if u = ''s'' then Some 1000000000
      else if u = ''m'' then Some 60000000000
      else if u = ''h'' then Some 3600000000000
      else None)"

definition duration_error :: "string \<Rightarrow> string \<Rightarrow> goerr" where
  "duration_error what orig = Errorf (''time: '' @ what @ '' duration '' @ ''%s'') [orig] []"

text \<open>One term of a duration such as \<open>1h30m\<close>: its nanoseconds and the rest.\<close>

definition duration_term :: "string \<Rightarrow> string \<Rightarrow> goerr + int \<times> string" where
  "duration_term orig s =
     (if \<not> (hd s = CHR ''.'' \<or> is_digit (hd s)) then Inl (duration_error ''invalid'' orig)
      else
        let ds = takeWhile is_digit s;
            s1 = dropWhile is_digit s;
            v = int (digits_value ds);
            dot = (s1 \<noteq> [] \<and> hd s1 = CHR ''.'');
            fs = (if dot then takeWhile is_digit (tl s1) else []);
            s2 = (if dot then dropWhile is_digit (tl s1) else s1);
            u = takeWhile (\<lambda>c. c \<noteq> CHR ''.'' \<and> \<not> is_digit c) s2;
            s3 = dropWhile (\<lambda>c. c \<noteq> CHR ''.'' \<and> \<not> is_digit c) s2
        in if v > max_int64 then Inl (duration_error ''invalid'' orig)
           else if ds = [] \<and> fs = [] then Inl (duration_error ''invalid'' orig)
           else if u = [] then Inl (duration_error ''missing unit in'' orig)
           else (case unit_ns u of
               None \<Rightarrow> Inl (Errorf ''time: unknown unit %s in duration %s'' [u, orig] [])
             | Some ns \<Rightarrow>
                 (let amount = v * ns + int (digits_value fs) * ns div 10 ^ length fs
                  in if amount > max_int64 then Inl (duration_error ''invalid'' orig)
                     else Inr (amount, s3))))"

lemma drop_unit_shorter:
  assumes "takeWhile P t \<noteq> []"
  shows "length (dropWhile P t) < length t"
proof -
  have "length t = length (takeWhile P t) + length (dropWhile P t)"
    by (metis length_append takeWhile_dropWhile_id)
  with assms show ?thesis by (cases "takeWhile P t") auto
qed

lemma duration_term_shorter:
  assumes "duration_term orig s = Inr (amount, rest)"
  shows "length rest < length s"
proof -
  define t where "t = (if dropWhile is_digit s \<noteq> [] \<and> hd (dropWhile is_digit s) = CHR ''.''
      then dropWhile is_digit (tl (dropWhile is_digit s)) else dropWhile is_digit s)"
  have "length (dropWhile is_digit (tl (dropWhile is_digit s))) \<le> length (tl (dropWhile is_digit s))"
    by (rule length_dropWhile_le)
  also have "\<dots> \<le> length s" using length_dropWhile_le [of is_digit s] by simp
  finally have "length t \<le> length s" by (simp add: t_def length_dropWhile_le)
  moreover have "takeWhile (\<lambda>c. c \<noteq> CHR ''.'' \<and> \<not> is_digit c) t \<noteq> []"
    and "rest = dropWhile (\<lambda>c. c \<noteq> CHR ''.'' \<and> \<not> is_digit c) t"
    using assms unfolding duration_term_def Let_def t_def [symmetric] by (auto split: if_splits option.splits)
  ultimately show ?thesis using drop_unit_shorter by (metis order_less_le_trans)
qed

text \<open>The loop over the terms; \<open>d\<close> is the sum so far.\<close>

function duration_loop :: "string \<Rightarrow> int \<Rightarrow> string \<Rightarrow> goerr + int" where
  "duration_loop orig d [] = Inr d"
| "duration_loop orig d (c # cs) = (case duration_term orig (c # cs) of
      Inl e \<Rightarrow> Inl e
    | Inr (amount, rest) \<Rightarrow>
        if d + amount > max_int64 then Inl (duration_error ''invalid'' orig)
        else duration_loop orig (d + amount) rest)"
  by pat_completeness auto

termination
  by (relation "measure (\<lambda>(orig, d, s). length s)") (auto dest: duration_term_shorter)

definition ParseDuration :: "string \<Rightarrow> goerr + int" where
  "ParseDuration s =
     (let (neg, t) = (case s of
            c # cs \<Rightarrow> if c = CHR ''-'' then (True, cs) else if c = CHR ''+'' then (False, cs) else (False, s)
          | [] \<Rightarrow> (False, []))
      in if t = ''0'' then Inr 0
         else if t = [] then Inl (duration_error ''invalid'' s)
         else map_sum id (\<lambda>d. if neg then - d else d) (duration_loop s 0 t))"

section \<open>The configuration\<close>

definition weekdays :: "string \<Rightarrow> int option" where
  "weekdays = map_of [(''sun'', 0), (''mon'', 1), (''tue'', 2), (''wed'', 3), (''thu'', 4), (''fri'', 5), (''sat'', 6)]"

definition parse_time_of_day :: "int \<Rightarrow> string \<Rightarrow> goerr + periodicStart" where
  "parse_time_of_day dow f = (case Sscanf_time f of
      None \<Rightarrow> Inl (Errorf ''invalid time of day %q: %v'' [f] [])
    | Some (h, m) \<Rightarrow>
        if h < 0 \<or> h > 23 then Inl (Errorf ''invalid time of day %q: hour must be >= 0 and <= 23'' [f] [])
        else if m < 0 \<or> m > 59 then Inl (Errorf ''invalid time of day %q: minute must be >= 0 and <= 59'' [f] [])
        else Inr \<lparr>dayOfWeek = dow, hourOfDay = h, minuteOfHour = m, secondOfMinute = 0\<rparr>)"

definition parseStart :: "string \<Rightarrow> goerr + periodicStart" where
  "parseStart start = (case Fields start of
      [f] \<Rightarrow> parse_time_of_day (- 1) f
    | [d, f] \<Rightarrow> (case weekdays (ToLower d) of
          Some dow \<Rightarrow> parse_time_of_day dow f
        | None \<Rightarrow> Inl (Errorf ''invalid day of week %q'' [d] []))
    | _ \<Rightarrow> Inl (Errorf ''wrong number of fields'' [] []))"

definition ParsePeriodic :: "string \<Rightarrow> string \<Rightarrow> goerr + Periodic" where
  "ParsePeriodic start duration = (case parseStart start of
      Inl err \<Rightarrow> Inl (Errorf ''unable to parse start: %v'' [] [err])
    | Inr ps \<Rightarrow> (case ParseDuration duration of
          Inl err \<Rightarrow> Inl (Errorf ''unable to parse duration: %v'' [] [err])
        | Inr d \<Rightarrow>
            if d < 0 then Inl (Errorf ''duration cannot be negative'' [] [])
            else if (dayOfWeek ps = - 1 \<and> d \<ge> ns_day) \<or> d \<ge> 7 * ns_day
            then Inl (Errorf ''duration cannot exceed period'' [] [])
            else Inr \<lparr>pc_start = ps, pc_duration = d\<rparr>))"

section \<open>Every accepted window is valid\<close>

lemma parse_time_of_day_valid:
  "parse_time_of_day dow f = Inr ps \<Longrightarrow> - 1 \<le> dow \<Longrightarrow> dow \<le> 6 \<Longrightarrow> valid_start ps \<and> dayOfWeek ps = dow"
  by (auto simp: parse_time_of_day_def valid_start_def split: option.splits if_splits)

lemma weekdays_range: "weekdays d = Some dow \<Longrightarrow> 0 \<le> dow \<and> dow \<le> 6"
  by (auto simp: weekdays_def split: if_splits)

lemma parseStart_valid: "parseStart s = Inr ps \<Longrightarrow> valid_start ps"
  by (fastforce simp: parseStart_def split: list.splits option.splits
      dest: parse_time_of_day_valid weekdays_range)

lemma ParsePeriodic_valid:
  assumes "ParsePeriodic start duration = Inr pc"
  shows "valid_start (pc_start pc)" "0 \<le> pc_duration pc"
    "pc_duration pc < (if dayOfWeek (pc_start pc) = - 1 then ns_day else 7 * ns_day)"
  using assms by (auto simp: ParsePeriodic_def split: sum.splits if_splits intro: parseStart_valid)

text \<open>The two examples of \<open>src/doc/reboot-windows.md\<close>.\<close>

lemma ParsePeriodic_examples:
  "ParsePeriodic ''14:00'' ''1h'' = Inr
     \<lparr>pc_start = \<lparr>dayOfWeek = - 1, hourOfDay = 14, minuteOfHour = 0, secondOfMinute = 0\<rparr>,
      pc_duration = 3600 * ns_second\<rparr>"
  "ParsePeriodic ''Thu 23:00'' ''1h30m'' = Inr
     \<lparr>pc_start = \<lparr>dayOfWeek = 4, hourOfDay = 23, minuteOfHour = 0, secondOfMinute = 0\<rparr>,
      pc_duration = 5400 * ns_second\<rparr>"
  by code_simp+

section \<open>Properties\<close>

text \<open>
  C10: The test of the reboot window is exact. For every window the configuration accepts, the operator's
  test (the end of the previous period lies in the future) holds exactly at the instants that lie in
  some occurrence of the window.
\<close>

theorem window_test_exact:
  assumes "ParsePeriodic start duration = Inr pc"
  shows "now < End (Previous loc pc now) \<longleftrightarrow>
     (\<exists>s. occurrence loc pc s \<and> s \<le> now \<and> now < s + pc_duration pc)"
  by (rule window_open_iff [OF ParsePeriodic_valid(1) [OF assms]])

text \<open>Thursday, 1 January 1970, 23:30 lies in the window \<open>Thu 23:00\<close> of ninety minutes, in UTC.\<close>

theorem window_test_exact_witness:
  "\<exists>pc. ParsePeriodic ''Thu 23:00'' ''1h30m'' = Inr pc \<and>
     (\<exists>s. occurrence 0 pc s \<and> s \<le> 84600 * ns_second \<and> 84600 * ns_second < s + pc_duration pc)"
proof -
  let ?pc = "\<lparr>pc_start = \<lparr>dayOfWeek = 4, hourOfDay = 23, minuteOfHour = 0, secondOfMinute = 0\<rparr>,
      pc_duration = 5400 * ns_second\<rparr>"
  have "84600 * ns_second < End (Previous 0 ?pc (84600 * ns_second))" by code_simp
  with window_test_exact [OF ParsePeriodic_examples(2)] ParsePeriodic_examples(2) show ?thesis by blast
qed

text \<open>
  C23: \<open>Previous\<close> and \<open>Next\<close> of an accepted window are neighbours of the reference instant: the latest start
  that is not after it and the earliest start after it. \<open>DurationToStart\<close> leads to the start of an
  occurrence, and it is positive exactly when every occurrence that has started is over.
\<close>

theorem window_neighbours:
  assumes "ParsePeriodic start duration = Inr pc"
  shows "latest_start loc pc ref (Start (Previous loc pc ref)) \<and>
     earliest_start loc pc ref (Start (Next loc pc ref)) \<and>
     occurrence loc pc (ref + DurationToStart loc pc ref) \<and>
     (0 < DurationToStart loc pc ref \<longleftrightarrow> (\<forall>s. occurrence loc pc s \<and> s \<le> ref \<longrightarrow> s + pc_duration pc < ref))"
proof -
  let ?p = "Start (Previous loc pc ref)" and ?n = "Start (Next loc pc ref)"
  have pn: "latest_start loc pc ref ?p" "earliest_start loc pc ref ?n"
    using Previous_Next_correct [OF ParsePeriodic_valid(1) [OF assms]] by blast+
  have "End (Previous loc pc ref) = ?p + pc_duration pc" by (simp add: Previous_def Let_def)
  then have D: "DurationToStart loc pc ref = (if ref \<le> ?p + pc_duration pc then ?p - ref else ?n - ref)"
    by (auto simp: DurationToStart_def Let_def)
  have p: "occurrence loc pc ?p" "?p \<le> ref" "\<And>s. occurrence loc pc s \<Longrightarrow> s \<le> ref \<Longrightarrow> s \<le> ?p"
    using pn(1) by (auto simp: latest_start_def)
  have n: "occurrence loc pc ?n" "ref < ?n" using pn(2) by (auto simp: earliest_start_def)
  have "(\<forall>s. occurrence loc pc s \<and> s \<le> ref \<longrightarrow> s + pc_duration pc < ref) \<longleftrightarrow> ?p + pc_duration pc < ref"
    using p by fastforce
  with pn p n D show ?thesis by auto
qed

theorem window_neighbours_witness:
  "\<exists>pc. ParsePeriodic ''14:00'' ''1h'' = Inr pc \<and> earliest_start 0 pc 0 (50400 * ns_second)"
proof -
  let ?pc = "\<lparr>pc_start = \<lparr>dayOfWeek = - 1, hourOfDay = 14, minuteOfHour = 0, secondOfMinute = 0\<rparr>,
      pc_duration = 3600 * ns_second\<rparr>"
  have "Start (Next 0 ?pc 0) = 50400 * ns_second" by code_simp
  with window_neighbours [OF ParsePeriodic_examples(1), of 0 0] ParsePeriodic_examples(1) show ?thesis by auto
qed

text \<open>
  C24: The bounds of an accepted window: a day of the week or none, an hour and a minute of a day, and a
  duration that is not negative and shorter than the period, a day or a week.
\<close>

theorem accepted_window_bounds:
  assumes "ParsePeriodic start duration = Inr pc"
  shows "dayOfWeek (pc_start pc) \<in> {- 1..6} \<and> hourOfDay (pc_start pc) \<in> {0..23} \<and>
     minuteOfHour (pc_start pc) \<in> {0..59} \<and> 0 \<le> pc_duration pc \<and>
     pc_duration pc < (if dayOfWeek (pc_start pc) = - 1 then ns_day else 7 * ns_day)"
  using ParsePeriodic_valid [OF assms] by (auto simp: valid_start_def)

theorem accepted_window_bounds_witness:
  "\<exists>pc. ParsePeriodic ''Thu 23:00'' ''1h30m'' = Inr pc \<and> pc_duration pc < 7 * ns_day"
  using accepted_window_bounds [OF ParsePeriodic_examples(2)] ParsePeriodic_examples(2) by auto

end
