(* ===== verification/Cycle_Spec.thy ===== *)
theory Cycle_Spec
  imports Store
begin

text \<open>
  What one cycle of the operator does to a cluster that nobody else touches and whose API server
  does not fail, as a function on the list of nodes (\<open>cycle_spec\<close>): the specification of
  \<open>process\<close>. \<open>process_refines\<close> shows that the phases, which list the nodes and change them one
  by one through the API by read, write and retry, implement it; resource versions are the
  server's business and abstracted away (\<open>view\<close>).

  On the specification, progress is a matter of lists: \<open>cycle_chooses\<close> and \<open>cycle_permits\<close>
  say how a waiting node gets the permission to reboot.
\<close>

section \<open>The specification\<close>

definition unversioned :: "node \<Rightarrow> node" where
  "unversioned x = x\<lparr>ResourceVersion := 0\<rparr>"

definition view :: "store \<Rightarrow> node list" where
  "view w = map unversioned (items (st_cluster w))"

definition applied :: "node_mutation \<Rightarrow> node \<Rightarrow> node" where
  "applied f x = (case f x of Inr y \<Rightarrow> y | Inl _ \<Rightarrow> x)"

definition step_nodes :: "(node \<Rightarrow> bool) \<Rightarrow> node_mutation \<Rightarrow> node list \<Rightarrow> node list" where
  "step_nodes P f xs = map (\<lambda>x. if P x then applied f x else x) xs"

fun step_first :: "(node \<Rightarrow> bool) \<Rightarrow> node_mutation \<Rightarrow> node list \<Rightarrow> node list" where
  "step_first P f [] = []"
| "step_first P f (x # xs) = (if P x then applied f x # xs else x # step_first P f xs)"

definition wantsReboot :: "node \<Rightarrow> bool" where
  "wantsReboot x \<longleftrightarrow> Matches wantsRebootSelector (Annotations x)"

definition counted :: "node \<Rightarrow> bool" where
  "counted x \<longleftrightarrow> okToReboot x \<and> rebootNeeded x \<or> beforeChecks x \<or> afterChecks x"

definition settle_spec :: "string list \<Rightarrow> string list \<Rightarrow> node list \<Rightarrow> node list" where
  "settle_spec before after xs =
     step_nodes (\<lambda>x. beforeChecks x \<and> hasAllAnnotations x before) (before_done_mutation before)
      (step_nodes (\<lambda>x. justRebooted x \<and> \<not> afterChecks x) (mark_mutation LabelAfterReboot after)
        (step_nodes (\<lambda>x. afterChecks x \<and> hasAllAnnotations x after) (after_done_mutation after)
          (step_nodes (\<lambda>_. True) (cleanup_mutation before) xs)))"

definition choose_spec :: "string list \<Rightarrow> bool \<Rightarrow> node list \<Rightarrow> node list" where
  "choose_spec before inside xs =
     (if inside \<and> \<not> list_ex counted xs
      then step_first (\<lambda>x. wantsReboot x \<and> \<not> beforeChecks x) (mark_mutation LabelBeforeReboot before) xs
      else xs)"

definition cycle_spec :: "string list \<Rightarrow> string list \<Rightarrow> bool \<Rightarrow> node list \<Rightarrow> node list" where
  "cycle_spec before after inside xs = choose_spec before inside (settle_spec before after xs)"

text \<open>Whether the window is open, for a clock that advances by one each time it is read.\<close>

definition window_test :: "Periodic option \<Rightarrow> int \<Rightarrow> int \<Rightarrow> bool" where
  "window_test window loc t = (case window of
      None \<Rightarrow> True
    | Some rw \<Rightarrow> t + 1 < End (Previous loc rw t))"

text \<open>A cluster at rest: no interference to come, no failures, and no nil map.\<close>

definition mapped :: "node \<Rightarrow> bool" where
  "mapped x \<longleftrightarrow> Labels x \<noteq> None \<and> Annotations x \<noteq> None"

definition calm :: "store \<Rightarrow> bool" where
  "calm w \<longleftrightarrow> st_script w = [] \<and> cluster_wf (st_cluster w) \<and> list_all mapped (items (st_cluster w))"

section \<open>The closures on nodes without versions\<close>

locale plain_mutation = metadata_mutation +
  assumes version_free: "f (x\<lparr>ResourceVersion := v\<rparr>) = map_sum id (\<lambda>y. y\<lparr>ResourceVersion := v\<rparr>) (f x)"
    and keeps_mapped: "f x = Inr y \<Longrightarrow> mapped x \<Longrightarrow> mapped y"
begin

lemma mapped_Inr: "mapped x \<Longrightarrow> f x = Inr (applied f x)"
  using total_on_maps [of x] by (auto simp: mapped_def applied_def)

lemma applied_name [simp]: "Name (applied f x) = Name x"
  by (auto simp: applied_def split: sum.split dest: keeps_name)

lemma applied_version: "f x = Inr y \<Longrightarrow> applied f (unversioned x) = unversioned y"
  by (simp add: applied_def unversioned_def version_free)

lemma applied_mapped: "mapped x \<Longrightarrow> mapped (applied f x)"
  using keeps_mapped [OF mapped_Inr] by blast

end

lemma gomap_set_not_nil: "gomap_set k v m = Inr m' \<Longrightarrow> m' \<noteq> None"
  by (cases m) auto

lemma gomap_delete_Some:
  "\<exists>m'. gomap_delete k (Some m) = Some m'" "\<exists>m'. gomap_delete_all ks (Some m) = Some m'"
  using gomap_delete_nil_iff [of k "Some m"] gomap_delete_all_nil_iff [of ks "Some m"]
  by (simp_all add: not_None_eq [symmetric] del: not_None_eq)

lemma map_sum_comp: "map_sum id g (map_sum id h s) = map_sum id (\<lambda>x. g (h x)) s"
  by (cases s) auto

lemma version_last:
  fixes x :: node
  shows "x\<lparr>ResourceVersion := v, Labels := l, Annotations := a\<rparr> = x\<lparr>Labels := l, Annotations := a, ResourceVersion := v\<rparr>"
    and "x\<lparr>ResourceVersion := v, Annotations := a, Labels := l\<rparr> = x\<lparr>Annotations := a, Labels := l, ResourceVersion := v\<rparr>"
  by simp_all

lemmas plain_simps = op_mutation_defs mutation_simps map_sum_comp mapped_def version_last gomap_delete_Some

interpretation plain_cleanup: plain_mutation "cleanup_mutation as"
  by unfold_locales (auto simp: plain_simps simp del: not_None_eq split: if_splits)

interpretation plain_before: plain_mutation "before_done_mutation as"
  by unfold_locales (auto simp: plain_simps simp del: not_None_eq dest: gomap_set_not_nil)

interpretation plain_after: plain_mutation "after_done_mutation as"
  by unfold_locales (auto simp: plain_simps simp del: not_None_eq dest: gomap_set_not_nil)

interpretation plain_mark: plain_mutation "mark_mutation label as"
  by unfold_locales (auto simp: plain_simps simp del: not_None_eq dest: gomap_set_not_nil)

lemma gomap_set_all_not_nil: "gomap_set_all kvs m = Inr m' \<Longrightarrow> m \<noteq> None \<Longrightarrow> m' \<noteq> None"
  by (induction kvs m rule: gomap_set_all.induct) (auto split: sum.splits dest: gomap_set_not_nil)

lemma version_after_labels:
  fixes x :: node
  shows "x\<lparr>ResourceVersion := v, Labels := l\<rparr> = x\<lparr>Labels := l, ResourceVersion := v\<rparr>"
  by simp

lemma version_after_annotations:
  fixes x :: node
  shows "x\<lparr>ResourceVersion := v, Annotations := a\<rparr> = x\<lparr>Annotations := a, ResourceVersion := v\<rparr>"
  by simp

lemmas set_simps = plain_simps mutation_defs version_after_labels version_after_annotations

interpretation plain_labels: plain_mutation "set_labels m"
  by unfold_locales (auto simp: set_simps simp del: not_None_eq dest: gomap_set_all_not_nil)

interpretation plain_annotations: plain_mutation "set_annotations m"
  by unfold_locales (auto simp: set_simps simp del: not_None_eq dest: gomap_set_all_not_nil)

interpretation plain_annotations_labels: plain_mutation "set_annotations_labels a l"
proof (intro plain_mutation.intro setAnnotationsLabels.metadata_mutation_axioms plain_mutation_axioms.intro)
  fix x y :: node and v :: nat
  show "set_annotations_labels a l (x\<lparr>ResourceVersion := v\<rparr>) =
      map_sum id (\<lambda>y. y\<lparr>ResourceVersion := v\<rparr>) (set_annotations_labels a l x)"
    by (cases "set_annotations a x")
       (simp_all add: set_annotations_labels_def plain_annotations.version_free plain_labels.version_free)
  show "set_annotations_labels a l x = Inr y \<Longrightarrow> mapped x \<Longrightarrow> mapped y"
    by (auto simp: set_annotations_labels_def split: sum.splits
        dest: plain_annotations.keeps_mapped plain_labels.keeps_mapped)
qed

section \<open>The phases on a calm store\<close>

lemma next_entry_calm: "st_script w = [] \<Longrightarrow> next_entry allowed w = (w, None)"
  by (simp add: next_entry_def)

lemma UpdateNodeRetry_calm:
  assumes "metadata_mutation f" "st_script w = []" "obj (st_cluster w) name = Some x" "f x = Inr y"
  shows "UpdateNodeRetry (store_nc allowed) name f w = (w\<lparr>st_cluster := commit y (st_cluster w)\<rparr>, OK ())"
proof -
  have "Name y = name" "ResourceVersion y = ResourceVersion x"
    using metadata_mutation.keeps [OF assms(1,4)] obj_Name [OF assms(3)] by simp_all
  then have "update_attempt (store_nc allowed) name f w = (w\<lparr>st_cluster := commit y (st_cluster w)\<rparr>, OK ())"
    using assms(2-4)
    by (simp add: update_attempt_def store_nc_def store_Get_def store_Update_def next_entry_calm)
  then show ?thesis by (simp add: UpdateNodeRetry_OK_iff)
qed

text \<open>One write, seen through \<open>view\<close>.\<close>

definition touch :: "node_mutation \<Rightarrow> string \<Rightarrow> node list \<Rightarrow> node list" where
  "touch f name xs = map (\<lambda>x. if Name x = name then applied f x else x) xs"

lemma unversioned_simps [simp]:
  "Name (unversioned x) = Name x" "unversioned (x\<lparr>ResourceVersion := v\<rparr>) = unversioned x"
  "mapped (unversioned x) = mapped x" "Annotations (unversioned x) = Annotations x" "Labels (unversioned x) = Labels x"
  by (simp_all add: unversioned_def mapped_def)

lemma view_commit:
  assumes "plain_mutation f" "cluster_wf c" "obj c name = Some x" "f x = Inr y"
  shows "map unversioned (items (commit y c)) = touch f name (map unversioned (items c))"
proof -
  have y: "Name y = name" using obj_Name [OF assms(3)]
      metadata_mutation.keeps_name [OF plain_mutation.axioms(1) [OF assms(1)] assms(4)] by simp
  have "z = x" if "z \<in> set (items c)" "Name z = name" for z
    using that obj_iff [OF assms(2), of name z] assms(3) by simp
  then show ?thesis
    using y plain_mutation.applied_version [OF assms(1,4)] by (auto simp: touch_def commit_def)
qed

lemma commit_mapped:
  "list_all mapped (items c) \<Longrightarrow> mapped y \<Longrightarrow> list_all mapped (items (commit y c))"
  by (auto simp: commit_def list_all_iff mapped_def)

text \<open>\<open>m\<close> succeeds on the calm store \<open>w\<close>, leaves it calm, and \<open>xs\<close> is what is seen then.\<close>

definition yields :: "(store, unit) go \<Rightarrow> store \<Rightarrow> node list \<Rightarrow> bool" where
  "yields m w xs \<longleftrightarrow> (\<exists>w'. m w = (w', OK ()) \<and> calm w' \<and> view w' = xs \<and> st_clock w' = st_clock w)"

lemma yields_bind:
  assumes "yields m w xs"
    and "\<And>w'. calm w' \<Longrightarrow> view w' = xs \<Longrightarrow> st_clock w' = st_clock w \<Longrightarrow> yields k w' ys"
  shows "yields (go_bind m (\<lambda>_. k)) w ys"
  using assms unfolding yields_def by (metis go_bind_OK)

lemma yields_return: "calm w \<Longrightarrow> yields (go_return ()) w (view w)"
  by (simp add: yields_def)

lemma yields_update:
  assumes "plain_mutation f" "calm w" "name \<in> Name ` set (view w)"
  shows "yields (go_wrap g (UpdateNodeRetry (store_nc allowed) name f)) w (touch f name (view w))"
proof -
  let ?c = "st_cluster w"
  from assms obtain x where x: "obj ?c name = Some x" "x \<in> set (items ?c)"
    by (auto simp: view_def calm_def obj_iff)
  let ?w = "w\<lparr>st_cluster := commit (applied f x) ?c\<rparr>"
  have m: "mapped x" using assms(2) x(2) by (auto simp: calm_def list_all_iff)
  have f: "f x = Inr (applied f x)" by (rule plain_mutation.mapped_Inr [OF assms(1) m])
  have "UpdateNodeRetry (store_nc allowed) name f w = (?w, OK ())"
    using UpdateNodeRetry_calm [OF plain_mutation.axioms(1) [OF assms(1)] _ x(1) f] assms(2)
    by (simp add: calm_def)
  moreover have "calm ?w"
    using assms(2) plain_mutation.applied_mapped [OF assms(1) m]
    by (simp add: calm_def cluster_wf_commit commit_mapped)
  moreover have "view ?w = touch f name (view w)"
    using view_commit [OF assms(1) _ x(1) f] assms(2) by (simp add: view_def calm_def)
  ultimately show ?thesis by (auto simp: yields_def)
qed

lemma touch_fold:
  assumes "plain_mutation f" "distinct names"
  shows "fold (touch f) names xs = map (\<lambda>x. if Name x \<in> set names then applied f x else x) xs"
  using assms(2)
proof (induction names arbitrary: xs)
  case (Cons n names)
  then show ?case by (auto simp: touch_def plain_mutation.applied_name [OF assms(1)])
qed simp

lemma touch_names: "plain_mutation f \<Longrightarrow> map Name (touch f name xs) = map Name xs"
  by (auto simp: touch_def plain_mutation.applied_name)

lemma yields_updates:
  assumes "plain_mutation f" "calm w" "Name ` set xs \<subseteq> Name ` set (view w)"
  shows "yields (range_loop (\<lambda>n. go_wrap (g n) (UpdateNodeRetry (store_nc allowed) (Name n) f)) xs) w
           (fold (touch f) (map Name xs) (view w))"
  using assms(2,3)
proof (induction xs arbitrary: w)
  case (Cons n xs)
  let ?v = "touch f (Name n) (view w)"
  let ?loop = "range_loop (\<lambda>n. go_wrap (g n) (UpdateNodeRetry (store_nc allowed) (Name n) f)) xs"
  have names: "Name ` set ?v = Name ` set (view w)"
    using touch_names [OF assms(1)] by (metis list.set_map)
  have "yields ?loop w' (fold (touch f) (map Name xs) ?v)" if "calm w'" "view w' = ?v" for w'
    using Cons.IH [OF that(1)] Cons.prems(2) names that(2) by simp
  moreover have "yields (go_wrap (g n) (UpdateNodeRetry (store_nc allowed) (Name n) f)) w ?v"
    using Cons.prems by (intro yields_update assms(1)) auto
  ultimately show ?case
    using yields_bind [of "go_wrap (g n) (UpdateNodeRetry (store_nc allowed) (Name n) f)" w ?v ?loop] by simp
qed (simp add: yields_return del: go_return_eval)

text \<open>The shape of every phase: list, select by \<open>P\<close>, update.\<close>

lemma filter_names:
  assumes "cluster_wf c" "\<And>x v. P (x\<lparr>ResourceVersion := v\<rparr>) = P x"
  shows "map (\<lambda>x. if Name x \<in> set (map Name (filter P (items c))) then applied f x else x) (map unversioned (items c)) =
    step_nodes P f (map unversioned (items c))"
proof -
  have "Name x \<in> Name ` {y \<in> set (items c). P y} \<longleftrightarrow> P (unversioned x)" if "x \<in> set (items c)" for x
    using that assms(1) assms(2) [where x = x and v = 0] by (auto simp: cluster_wf_def distinct_map inj_on_def unversioned_def)
  then show ?thesis by (simp add: step_nodes_def)
qed

lemma yields_phase:
  assumes "plain_mutation f" "calm w" "\<And>x v. P (x\<lparr>ResourceVersion := v\<rparr>) = P x"
  shows "yields (range_loop (\<lambda>n. go_wrap (g n) (UpdateNodeRetry (store_nc allowed) (Name n) f))
      (filter P (items (st_cluster w)))) w (step_nodes P f (view w))"
proof -
  have wf: "cluster_wf (st_cluster w)" using assms(2) by (simp add: calm_def)
  have "distinct (map Name (filter P (items (st_cluster w))))"
    using wf by (simp add: cluster_wf_def distinct_map_filter)
  from touch_fold [OF assms(1) this] filter_names [where P = P, OF wf assms(3)]
  have "fold (touch f) (map Name (filter P (items (st_cluster w)))) (view w) = step_nodes P f (view w)"
    by (simp add: view_def)
  with yields_updates [OF assms(1,2), of "filter P (items (st_cluster w))" g allowed] show ?thesis
    by (auto simp: view_def image_image)
qed

lemma list_nodes_calm:
  "calm w \<Longrightarrow> list_nodes (store_controller allowed window loc before after) w = (w, OK (items (st_cluster w)))"
  by (simp add: list_nodes_def store_controller_def store_nc_def store_List_def next_entry_calm calm_def)

lemma range_loop_if:
  "range_loop (\<lambda>n. if P n then body n else go_return ()) xs = range_loop body (filter P xs)"
  by (induction xs) auto

lemma yields_list:
  assumes "calm w" "yields (body (items (st_cluster w))) w xs"
  shows "yields (go_bind (list_nodes (store_controller allowed window loc before after)) body) w xs"
  using assms by (simp add: yields_def go_bind_def list_nodes_calm)

lemmas phase_filters = byAnnotation.flt_eq byRequirement.flt_eq filter_filter sel_simps

lemma hasAll_version [simp]: "hasAllAnnotations (x\<lparr>ResourceVersion := v\<rparr>) as = hasAllAnnotations x as"
  by (simp add: hasAllAnnotations_iff)

lemma yields_cleanup:
  assumes "calm w"
  shows "yields (cleanupState (store_controller allowed window loc before after)) w
      (step_nodes (\<lambda>_. True) (cleanup_mutation before) (view w))"
  unfolding cleanupState_def
proof (rule yields_list [OF assms])
  show "yields (range_loop (\<lambda>n. go_wrap (\<lambda>err. Errorf ''Failed to cleanup node %q: %v'' [Name n] [err])
      (UpdateNodeRetry (nc (store_controller allowed window loc before after)) (Name n)
        (cleanup_mutation (beforeRebootAnnotations (store_controller allowed window loc before after)))))
      (items (st_cluster w))) w (step_nodes (\<lambda>_. True) (cleanup_mutation before) (view w))"
    using yields_phase [OF plain_cleanup.plain_mutation_axioms assms, of "\<lambda>_. True"]
    by (simp add: store_controller_def)
qed

lemma yields_check_after:
  assumes "calm w"
  shows "yields (checkAfterReboot (store_controller allowed window loc before after)) w
      (step_nodes (\<lambda>x. afterChecks x \<and> hasAllAnnotations x after) (after_done_mutation after) (view w))"
  unfolding checkAfterReboot_def Let_def
  by (rule yields_list [OF assms])
     (use yields_phase [OF plain_after.plain_mutation_axioms assms, of "\<lambda>x. afterChecks x \<and> hasAllAnnotations x after"] in
       \<open>simp add: store_controller_def range_loop_if phase_filters afterChecks_def conj_commute\<close>)

lemma yields_check_before:
  assumes "calm w"
  shows "yields (checkBeforeReboot (store_controller allowed window loc before after)) w
      (step_nodes (\<lambda>x. beforeChecks x \<and> hasAllAnnotations x before) (before_done_mutation before) (view w))"
  unfolding checkBeforeReboot_def Let_def
  by (rule yields_list [OF assms])
     (use yields_phase [OF plain_before.plain_mutation_axioms assms, of "\<lambda>x. beforeChecks x \<and> hasAllAnnotations x before"] in
       \<open>simp add: store_controller_def range_loop_if phase_filters beforeChecks_def conj_commute\<close>)

lemma yields_mark_after:
  assumes "calm w"
  shows "yields (markAfterReboot (store_controller allowed window loc before after)) w
      (step_nodes (\<lambda>x. justRebooted x \<and> \<not> afterChecks x) (mark_mutation LabelAfterReboot after) (view w))"
  unfolding markAfterReboot_def mark_def Let_def
  by (rule yields_list [OF assms])
     (use yields_phase [OF plain_mark.plain_mutation_axioms assms, of "\<lambda>x. justRebooted x \<and> \<not> afterChecks x"] in
       \<open>simp add: store_controller_def go_wrap_wrap phase_filters afterChecks_def justRebooted_def conj_commute\<close>)

lemma filter_hd: "filter P xs = n # rest \<Longrightarrow> n \<in> set xs"
  by (auto dest!: filter_eq_ConsD)

lemma touch_first:
  assumes "distinct (map Name xs)" "filter P xs = n # rest" "\<And>x v. P (x\<lparr>ResourceVersion := v\<rparr>) = P x"
  shows "touch f (Name n) (map unversioned xs) = step_first P f (map unversioned xs)"
  using assms(1,2)
proof (induction xs)
  case (Cons x xs)
  have P: "P (unversioned x) = P x" by (simp add: unversioned_def assms(3))
  show ?case
  proof (cases "P x")
    case True
    with Cons.prems have "n = x" "Name x \<notin> Name ` set xs" by auto
    then have "map (\<lambda>y. if Name y = Name n then applied f y else y) (map unversioned xs) = map unversioned xs"
      by (auto simp: image_iff)
    with True P \<open>n = x\<close> show ?thesis by (simp add: touch_def)
  next
    case False
    with Cons.prems have "filter P xs = n # rest" by simp
    moreover from this have "n \<in> set xs" by (rule filter_hd)
    ultimately show ?thesis using Cons False P by (auto simp: touch_def)
  qed
qed simp

lemma step_first_none: "\<forall>x\<in>set xs. \<not> P x \<Longrightarrow> step_first P f xs = xs"
  by (induction xs) auto

lemma rebooting_nodes_view: "rebooting_nodes xs = [] \<longleftrightarrow> \<not> list_ex counted (map unversioned xs)"
  by (auto simp: rebooting_nodes_def phase_filters filter_empty_conv list_ex_iff counted_def slot_defs)

lemma inside_window_store:
  "\<exists>w'. inside_window (store_controller allowed window loc before after) w =
     (w', OK (window_test window loc (st_clock w))) \<and> st_cluster w' = st_cluster w \<and> st_script w' = st_script w"
  by (simp add: inside_window_def store_controller_def window_test_def store_Now_def split: option.split)

lemma mark_before_calm:
  assumes "calm w"
  shows "\<exists>w'. markBeforeReboot (store_controller allowed window loc before after) w = (w', OK ()) \<and> calm w' \<and>
     view w' = choose_spec before (window_test window loc (st_clock w)) (view w)"
proof -
  let ?k = "store_controller allowed window loc before after" and ?xs = "items (st_cluster w)"
  let ?P = "\<lambda>x. wantsReboot x \<and> \<not> beforeChecks x" and ?f = "mark_mutation LabelBeforeReboot before"
  obtain w1 where w1: "inside_window ?k w = (w1, OK (window_test window loc (st_clock w)))"
    "st_cluster w1 = st_cluster w" "st_script w1 = st_script w"
    using inside_window_store by blast
  have c1: "calm w1" "view w1 = view w" "view w = map unversioned ?xs"
    using w1 assms by (auto simp: calm_def view_def)
  have able: "rebootable_nodes ?xs = filter ?P ?xs"
    by (simp add: rebootable_nodes_def phase_filters wantsReboot_def beforeChecks_def conj_commute)
  let ?choose = "window_test window loc (st_clock w) \<and> \<not> list_ex counted (view w) \<and> filter ?P ?xs \<noteq> []"
  have run: "markBeforeReboot ?k w = (if ?choose
      then range_loop (\<lambda>n. go_wrap (\<lambda>err. Errorf ''Failed to label node for before reboot checks: %v'' [] [err])
             (mark ?k (Name n) LabelBeforeReboot (beforeRebootAnnotations ?k))) (take 1 (filter ?P ?xs)) w1
      else (w1, OK ()))"
    using list_nodes_calm [OF assms, of allowed window loc before after] w1(1) rebooting_nodes_view [of ?xs]
    by (cases "rebooting_nodes ?xs")
       (simp_all add: markBeforeReboot_def go_bind_def able c1(3) maxRebootingNodes_def Let_def)
  show ?thesis
  proof (cases ?choose)
    case False
    have "step_first ?P ?f (view w) = view w" if "filter ?P ?xs = []"
      using that by (intro step_first_none) (auto simp: c1(3) filter_empty_conv wantsReboot_def beforeChecks_def)
    with False run c1 show ?thesis by (auto simp: choose_spec_def)
  next
    case True
    then obtain n rest where n: "filter ?P ?xs = n # rest" by (cases "filter ?P ?xs") auto
    then have "n \<in> set ?xs" by (rule filter_hd)
    with c1 have "Name n \<in> Name ` set (view w1)" by (auto simp: image_image)
    from yields_update [OF plain_mark.plain_mutation_axioms c1(1) this, of _ allowed LabelBeforeReboot before]
    obtain w2 where w2: "go_wrap g (UpdateNodeRetry (store_nc allowed) (Name n) ?f) w1 = (w2, OK ())" "calm w2"
      "view w2 = touch ?f (Name n) (view w1)" for g
      unfolding yields_def by (metis go_wrap_OK_iff)
    have "touch ?f (Name n) (view w) = step_first ?P ?f (view w)"
      unfolding c1(3) by (rule touch_first [OF _ n]) (use assms in \<open>auto simp: calm_def cluster_wf_def wantsReboot_def\<close>)
    with True run n w2 c1(2) show ?thesis
      by (auto simp: choose_spec_def mark_def store_controller_def go_wrap_wrap go_bind_def)
  qed
qed

lemma process_refines:
  assumes "calm w"
  shows "\<exists>w'. Kontroller_process (store_controller allowed window loc before after) w = (w', OK ()) \<and> calm w' \<and>
     view w' = cycle_spec before after (window_test window loc (st_clock w)) (view w)"
proof -
  let ?k = "store_controller allowed window loc before after"
  obtain w1 where w1: "cleanupState ?k w = (w1, OK ())" "calm w1" "st_clock w1 = st_clock w"
    "view w1 = step_nodes (\<lambda>_. True) (cleanup_mutation before) (view w)"
    using yields_cleanup [OF assms] unfolding yields_def by blast
  obtain w2 where w2: "checkAfterReboot ?k w1 = (w2, OK ())" "calm w2" "st_clock w2 = st_clock w1"
    "view w2 = step_nodes (\<lambda>x. afterChecks x \<and> hasAllAnnotations x after) (after_done_mutation after) (view w1)"
    using yields_check_after [OF w1(2)] unfolding yields_def by blast
  obtain w3 where w3: "markAfterReboot ?k w2 = (w3, OK ())" "calm w3" "st_clock w3 = st_clock w2"
    "view w3 = step_nodes (\<lambda>x. justRebooted x \<and> \<not> afterChecks x) (mark_mutation LabelAfterReboot after) (view w2)"
    using yields_mark_after [OF w2(2)] unfolding yields_def by blast
  obtain w4 where w4: "checkBeforeReboot ?k w3 = (w4, OK ())" "calm w4" "st_clock w4 = st_clock w3"
    "view w4 = step_nodes (\<lambda>x. beforeChecks x \<and> hasAllAnnotations x before) (before_done_mutation before) (view w3)"
    using yields_check_before [OF w3(2)] unfolding yields_def by blast
  obtain w5 where w5: "markBeforeReboot ?k w4 = (w5, OK ())" "calm w5"
    "view w5 = choose_spec before (window_test window loc (st_clock w4)) (view w4)"
    using mark_before_calm [OF w4(2)] by blast
  have "Kontroller_process ?k w = (w5, OK ())"
    by (simp add: Kontroller_process_def process_phases_def go_bind_def w1(1) w2(1) w3(1) w4(1) w5(1))
  moreover have "view w4 = settle_spec before after (view w)"
    by (simp add: settle_spec_def w1 w2 w3 w4)
  ultimately show ?thesis using w5 w1(3) w2(3) w3(3) w4(3) by (simp add: cycle_spec_def)
qed

section \<open>Progress\<close>

text \<open>The configured checks leave the annotations of the protocol alone.\<close>

definition checks_apart :: "string list \<Rightarrow> bool" where
  "checks_apart as \<longleftrightarrow> keys_free as \<and> AnnotationRebootPaused \<notin> set as"

lemma applied_cases: "(\<And>y. f x = Inr y \<Longrightarrow> P y) \<Longrightarrow> P x \<Longrightarrow> P (applied f x)"
  by (auto simp: applied_def split: sum.split)

lemma step_nodes_none: "\<forall>x\<in>set xs. \<not> P x \<Longrightarrow> step_nodes P f xs = xs"
  by (induction xs) (auto simp: step_nodes_def)

lemma step_first_keeps: "x \<in> set xs \<Longrightarrow> \<not> P x \<Longrightarrow> x \<in> set (step_first P f xs)"
  by (induction xs) auto

lemma step_first_applied: "list_ex P xs \<Longrightarrow> \<exists>x\<in>set xs. P x \<and> applied f x \<in> set (step_first P f xs)"
  by (induction xs) auto

lemma wants_cleanup:
  "checks_apart as \<Longrightarrow> wantsReboot (applied (cleanup_mutation as) x) = wantsReboot x"
  by (simp add: applied_def cleanup_mutation_def wantsReboot_def checks_apart_def keys_free_def
      map_simps key_simps sel_simps split: sum.split)

lemma wants_free: "wantsReboot x \<Longrightarrow> \<not> okToReboot x \<and> rebootNeeded x \<and> \<not> justRebooted x"
  by (auto simp: wantsReboot_def sel_simps slot_defs)

lemma cleanup_idle:
  assumes "checks_apart as" "\<not> holds_slot x"
  shows "\<not> holds_slot (applied (cleanup_mutation as) x)"
proof (rule applied_cases)
  fix y assume "cleanup_mutation as x = Inr y"
  from cleanup_slot [OF this] assms show "\<not> holds_slot y" by (auto simp: checks_apart_def holds_slot_def)
qed (rule assms(2))

text \<open>While no node holds the slot, the cycle changes no node before it chooses one.\<close>

lemma settle_idle:
  assumes "checks_apart before" "list_all (\<lambda>x. \<not> holds_slot x) xs"
  shows "settle_spec before after xs = map (applied (cleanup_mutation before)) xs"
proof -
  let ?ys = "map (applied (cleanup_mutation before)) xs"
  have idle: "\<not> holds_slot y" if "y \<in> set ?ys" for y
    using that assms cleanup_idle by (auto simp: list_all_iff)
  have none: "step_nodes P f ?ys = ?ys" if "\<And>x. \<not> holds_slot x \<Longrightarrow> \<not> P x" for P f
    by (rule step_nodes_none) (use idle that in blast)
  have "step_nodes (\<lambda>x. afterChecks x \<and> hasAllAnnotations x after) f ?ys = ?ys"
    "step_nodes (\<lambda>x. beforeChecks x \<and> hasAllAnnotations x before) f ?ys = ?ys"
    "step_nodes (\<lambda>x. justRebooted x \<and> \<not> afterChecks x) f ?ys = ?ys" for f
    by (rule none, simp add: holds_slot_def slot_defs sel_simps)+
  moreover have "step_nodes (\<lambda>_. True) (cleanup_mutation before) xs = ?ys" by (simp add: step_nodes_def)
  ultimately show ?thesis by (simp only: settle_spec_def)
qed

lemma marked_before:
  assumes "mark_mutation LabelBeforeReboot as x = Inr y" "checks_apart as"
  shows "beforeChecks y" "wantsReboot y = wantsReboot x" "afterChecks y = afterChecks x"
  using assms by (auto simp: slot_defs wantsReboot_def mark_mutation_def checks_apart_def keys_free_def mutation_simps
      map_simps key_simps sel_simps)

lemma cycle_chooses:
  assumes "checks_apart before" "list_all mapped xs" "list_all (\<lambda>x. \<not> holds_slot x) xs" "list_ex wantsReboot xs"
  shows "\<exists>y\<in>set (cycle_spec before after True xs). beforeChecks y \<and> wantsReboot y \<and> \<not> afterChecks y"
proof -
  let ?ys = "map (applied (cleanup_mutation before)) xs" and ?P = "\<lambda>x. wantsReboot x \<and> \<not> beforeChecks x"
  have idle: "\<not> holds_slot y" "mapped y" if "y \<in> set ?ys" for y
    using that assms(1-3) cleanup_idle plain_cleanup.applied_mapped by (auto simp: list_all_iff)
  then have none: "\<not> list_ex counted ?ys"
    by (fastforce simp: list_ex_iff counted_def holds_slot_def)
  have "list_ex ?P ?ys"
    using assms(1,4) idle(1) by (auto simp: list_ex_iff wants_cleanup holds_slot_def)
  then obtain y where y: "y \<in> set ?ys" "?P y"
    "applied (mark_mutation LabelBeforeReboot before) y \<in> set (step_first ?P (mark_mutation LabelBeforeReboot before) ?ys)"
    using step_first_applied by blast
  have "mark_mutation LabelBeforeReboot before y = Inr (applied (mark_mutation LabelBeforeReboot before) y)"
    by (rule plain_mark.mapped_Inr) (use idle y in blast)
  from marked_before [OF this assms(1)] y idle(1) [OF y(1)] show ?thesis
    using none settle_idle [OF assms(1,3), of after]
    by (auto simp: cycle_spec_def choose_spec_def holds_slot_def)
qed

lemma cycle_permits:
  assumes "checks_apart before" "x \<in> set xs" "mapped x"
    and "beforeChecks x" "wantsReboot x" "\<not> afterChecks x" "hasAllAnnotations x before"
  shows "\<exists>y\<in>set (cycle_spec before after inside xs).
      Name y = Name x \<and> okToReboot y \<and> rebootNeeded y \<and> \<not> beforeChecks y"
proof -
  let ?y = "applied (before_done_mutation before) x"
  have keep: "z \<in> set (step_nodes P f zs)" if "z \<in> set zs" "\<not> P z" for z zs P f
    using that by (force simp: step_nodes_def)
  have "x \<in> set (step_nodes (\<lambda>_. True) (cleanup_mutation before) xs)"
    using assms(2,5) by (force simp: step_nodes_def applied_def cleanup_mutation_def wantsReboot_def image_iff)
  then have "x \<in> set (step_nodes (\<lambda>x. afterChecks x \<and> hasAllAnnotations x after) (after_done_mutation after)
      (step_nodes (\<lambda>_. True) (cleanup_mutation before) xs))" (is "x \<in> set ?xs2")
    by (rule keep) (use assms(6) in simp)
  then have "x \<in> set (step_nodes (\<lambda>x. justRebooted x \<and> \<not> afterChecks x) (mark_mutation LabelAfterReboot after) ?xs2)"
    (is "x \<in> set ?xs3") by (rule keep) (use wants_free [OF assms(5)] in simp)
  with assms(4,7) have y: "?y \<in> set (settle_spec before after xs)"
    by (force simp: settle_spec_def step_nodes_def [of _ _ ?xs3] image_iff)
  from plain_before.mapped_Inr [OF assms(3)] have f: "before_done_mutation before x = Inr ?y" .
  have ok: "okToReboot ?y" "\<not> beforeChecks ?y" "rebootNeeded ?y"
    using before_done_slot [OF f] assms(1) wants_free [OF assms(5)] by (auto simp: checks_apart_def)
  then have "\<not> wantsReboot ?y" using wants_free by blast
  with y have "?y \<in> set (cycle_spec before after inside xs)"
    by (auto simp: cycle_spec_def choose_spec_def intro: step_first_keeps)
  with ok show ?thesis using plain_before.applied_name by blast
qed

section \<open>Properties\<close>

text \<open>
  C5: The reconciliation cycle implements its specification. On a cluster at rest, listing the
  nodes and changing them one by one through the API, phase after phase, succeeds and has exactly
  the effect of \<open>cycle_spec\<close>: settle the nodes whose checks are done or due, then choose the first
  node that wants a reboot if the window is open and no node counts as rebooting.
\<close>

theorem cycle_refines_spec:
  assumes "calm w"
  shows "\<exists>w'. Kontroller_process (store_controller allowed window loc before after) w = (w', OK ()) \<and> calm w' \<and>
     view w' = cycle_spec before after (window_test window loc (st_clock w)) (view w)"
  by (rule process_refines [OF assms])

definition waiting_world :: store where
  "waiting_world = \<lparr>st_cluster = \<lparr>rev_no = 4, items =
     [plain_node ''a'' [(LabelBeforeReboot, ''stale'')] [(AnnotationRebootPaused, constTrue), (AnnotationRebootNeeded, constTrue)],
      plain_node ''b'' [] [(AnnotationRebootNeeded, constTrue)],
      plain_node ''c'' [] [(AnnotationRebootNeeded, constTrue)]]\<rparr>, st_script = [], st_clock = 0\<rparr>"

theorem cycle_refines_spec_witness:
  "\<exists>w'. Kontroller_process (store_controller anything None 0 [] []) waiting_world = (w', OK ()) \<and>
     map (\<lambda>x. (Name x, beforeChecks x)) (view w') = [(''a'', False), (''b'', True), (''c'', False)]"
proof -
  have "calm waiting_world" by code_simp
  from cycle_refines_spec [OF this, of anything None 0 "[]" "[]"] obtain w' where
    "Kontroller_process (store_controller anything None 0 [] []) waiting_world = (w', OK ())"
    "view w' = cycle_spec [] [] (window_test None 0 (st_clock waiting_world)) (view waiting_world)" by blast
  moreover have "map (\<lambda>x. (Name x, beforeChecks x))
      (cycle_spec [] [] (window_test None 0 (st_clock waiting_world)) (view waiting_world)) =
      [(''a'', False), (''b'', True), (''c'', False)]" by code_simp
  ultimately show ?thesis by auto
qed

text \<open>
  C7: Nodes do get their turn. When no before-reboot checks are configured, the window is open, no
  node holds the slot and some node wants to reboot, two cycles later a node is allowed to reboot
  and still needs to.
\<close>

theorem reboot_permission_granted:
  assumes "calm w" "list_all (\<lambda>x. \<not> holds_slot x) (view w)" "list_ex wantsReboot (view w)"
    and "window_test window loc (st_clock w)"
  shows "\<exists>w1 w2. Kontroller_process (store_controller allowed window loc [] after) w = (w1, OK ()) \<and>
     Kontroller_process (store_controller allowed window loc [] after) w1 = (w2, OK ()) \<and>
     list_ex (\<lambda>x. okToReboot x \<and> rebootNeeded x) (view w2)"
proof -
  let ?k = "store_controller allowed window loc [] after"
  have apart: "checks_apart []" by (simp add: checks_apart_def keys_free_def)
  obtain w1 where w1: "Kontroller_process ?k w = (w1, OK ())" "calm w1" "view w1 = cycle_spec [] after True (view w)"
    using process_refines [OF assms(1), of allowed window loc "[]" after] assms(4) by auto
  obtain w2 where w2: "Kontroller_process ?k w1 = (w2, OK ())"
    "view w2 = cycle_spec [] after (window_test window loc (st_clock w1)) (view w1)"
    using process_refines [OF w1(2), of allowed window loc "[]" after] by auto
  have "list_all mapped (view w)" using assms(1) by (simp add: calm_def view_def list_all_iff)
  from cycle_chooses [OF apart this assms(2,3)] obtain y where
    y: "y \<in> set (view w1)" "beforeChecks y" "wantsReboot y" "\<not> afterChecks y" unfolding w1(3) by blast
  have "mapped y" using y(1) w1(2) by (auto simp: calm_def view_def list_all_iff)
  from cycle_permits [OF apart y(1) this y(2-4), of after "window_test window loc (st_clock w1)"]
  have "list_ex (\<lambda>x. okToReboot x \<and> rebootNeeded x) (view w2)"
    unfolding w2(2) by (auto simp: list_ex_iff)
  with w1(1) w2(1) show ?thesis by blast
qed

theorem reboot_permission_granted_witness:
  "\<exists>w1 w2. Kontroller_process (store_controller anything None 0 [] []) waiting_world = (w1, OK ()) \<and>
     Kontroller_process (store_controller anything None 0 [] []) w1 = (w2, OK ()) \<and>
     list_ex (\<lambda>x. okToReboot x \<and> rebootNeeded x) (view w2)"
proof -
  have "calm waiting_world" "list_all (\<lambda>x. \<not> holds_slot x) (view waiting_world)"
    "list_ex wantsReboot (view waiting_world)" "window_test None 0 (st_clock waiting_world)"
    by code_simp+
  then show ?thesis by (rule reboot_permission_granted)
qed

end
