(* ===== verification/Leader_Election.thy ===== *)
theory Leader_Election
  imports Reboot_Window
begin

text \<open>
  The leader election the operator runs behind: \<open>leaderelection.go\<close> of \<open>k8s.io/client-go\<close>, in the
  version under \<open>src/vendor\<close>. A candidate tries again and again to write its identity into a
  record that all replicas share, and the leader renews that record; who has written last leads,
  until the lease has run out without a renewal.

  The lock \<open>rl.Interface\<close> that keeps the record, the clock and the timers are functions on a world
  (\<open>election_env\<close>). Instants are nanoseconds and are compared by value, as they are by the version 1.8
  of Go that the project is built with. The counter of transitions is an unbounded integer: at one
  per lease it does not come near the bound of the machine integer of the code. Loops that may go on
  for ever take the number of rounds after which they are observed.
\<close>

section \<open>Records and configuration\<close>

text \<open>
  The configuration without its lock and its callbacks, which are functions on the world; the lock
  is always given. The identity is the one of the lock.
\<close>

record LeaderElectionConfig =
  lec_Identity :: string
  lec_LeaseDuration :: int
  lec_RenewDeadline :: int
  lec_RetryPeriod :: int

text \<open>The jitter factor 1.2 is written as a fraction.\<close>

definition NewLeaderElector :: "LeaderElectionConfig \<Rightarrow> goerr + LeaderElectionConfig" where
  "NewLeaderElector lec =
     (if lec_LeaseDuration lec \<le> lec_RenewDeadline lec
      then Inl (Errorf ''leaseDuration must be greater than renewDeadline'' [] [])
      else if lec_RenewDeadline lec \<le> lec_RetryPeriod lec * 6 div 5
      then Inl (Errorf ''renewDeadline must be greater than retryPeriod*JitterFactor'' [] [])
      else Inr lec)"

record LeaderElectionRecord =
  HolderIdentity :: string
  LeaseDurationSeconds :: int
  AcquireTime :: int
  RenewTime :: int
  LeaderTransitions :: int

text \<open>The zero value of \<open>time.Time\<close> is the first of January of the year 1.\<close>

definition zero_time :: int where
  "zero_time = - 62135596800 * ns_second"

definition zero_record :: LeaderElectionRecord where
  "zero_record = \<lparr>HolderIdentity = [], LeaseDurationSeconds = 0, AcquireTime = zero_time, RenewTime = zero_time,
     LeaderTransitions = 0\<rparr>"

record LeaderElector =
  observedRecord :: LeaderElectionRecord
  observedTime :: int
  reportedLeader :: string

definition new_elector :: LeaderElector where
  "new_elector = \<lparr>observedRecord = zero_record, observedTime = zero_time, reportedLeader = []\<rparr>"

text \<open>
  The world of an election: the methods \<open>Get\<close>, \<open>Create\<close> and \<open>Update\<close> of the lock, \<open>time.Now\<close>, the
  pause of a candidate between two attempts, \<open>poller\<close> with a receive from the channel it returns
  (the channel is the instant at which it will be closed; \<open>True\<close> is a tick, \<open>False\<close> a closed channel),
  and the callbacks, of which \<open>OnNewLeader\<close> may be nil.
\<close>

record 'w election_env =
  lock_Get :: "'w \<Rightarrow> 'w \<times> (goerr + LeaderElectionRecord)"
  lock_Create :: "LeaderElectionRecord \<Rightarrow> 'w \<Rightarrow> 'w \<times> goerr option"
  lock_Update :: "LeaderElectionRecord \<Rightarrow> 'w \<Rightarrow> 'w \<times> goerr option"
  el_Now :: "'w \<Rightarrow> 'w \<times> int"
  el_pause :: "int \<Rightarrow> 'w \<Rightarrow> 'w"
  el_poller :: "int \<Rightarrow> int \<Rightarrow> 'w \<Rightarrow> 'w \<times> int"
  el_receive :: "int \<Rightarrow> 'w \<Rightarrow> 'w \<times> bool"
  OnStartedLeading :: "'w \<Rightarrow> 'w"
  OnStoppedLeading :: "'w \<Rightarrow> 'w"
  OnNewLeader :: "(string \<Rightarrow> 'w \<Rightarrow> 'w) option"

fun IsNotFound :: "goerr \<Rightarrow> bool" where
  "IsNotFound (StatusError reason _) = (reason = ''NotFound'')"
| "IsNotFound _ = False"

section \<open>The election\<close>

type_synonym 'w election = "'w \<times> LeaderElector"

definition new_record :: "LeaderElectionConfig \<Rightarrow> int \<Rightarrow> LeaderElectionRecord" where
  "new_record lec now =
     \<lparr>HolderIdentity = lec_Identity lec, LeaseDurationSeconds = lec_LeaseDuration lec div ns_second,
      AcquireTime = now, RenewTime = now, LeaderTransitions = 0\<rparr>"

text \<open>The end of a successful attempt: the record and the time are noted.\<close>

definition note_record :: "'w election_env \<Rightarrow> LeaderElectionRecord \<Rightarrow> 'w election \<Rightarrow> 'w election" where
  "note_record e r s = (case s of (w, le) \<Rightarrow>
     (case el_Now e w of (w', t) \<Rightarrow> (w', le\<lparr>observedRecord := r, observedTime := t\<rparr>)))"

text \<open>What is written over an existing record.\<close>

definition renewed_record :: "LeaderElectionConfig \<Rightarrow> LeaderElectionRecord \<Rightarrow> LeaderElectionRecord \<Rightarrow> LeaderElectionRecord" where
  "renewed_record lec old r =
     (if HolderIdentity old = lec_Identity lec
      then r\<lparr>AcquireTime := AcquireTime old, LeaderTransitions := LeaderTransitions old\<rparr>
      else r\<lparr>LeaderTransitions := LeaderTransitions old + 1\<rparr>)"

definition tryAcquireOrRenew :: "'w election_env \<Rightarrow> LeaderElectionConfig \<Rightarrow> 'w election \<Rightarrow> 'w election \<times> bool" where
  "tryAcquireOrRenew e lec s = (case s of (w0, le0) \<Rightarrow>
     (case el_Now e w0 of (w1, now) \<Rightarrow>
     (let leaderElectionRecord = new_record lec now in
     (case lock_Get e w1 of
        (w2, Inl err) \<Rightarrow>
          if \<not> IsNotFound err then ((w2, le0), False)
          else (case lock_Create e leaderElectionRecord w2 of
              (w3, Some _) \<Rightarrow> ((w3, le0), False)
            | (w3, None) \<Rightarrow> (note_record e leaderElectionRecord (w3, le0), True))
      | (w2, Inr old) \<Rightarrow>
          (case (if observedRecord le0 \<noteq> old then note_record e old (w2, le0) else (w2, le0)) of (w3, le1) \<Rightarrow>
          if observedTime le1 + lec_LeaseDuration lec > now \<and> HolderIdentity old \<noteq> lec_Identity lec
          then ((w3, le1), False)
          else
            (let r = renewed_record lec old leaderElectionRecord in
            (case lock_Update e r w3 of
                (w4, Some _) \<Rightarrow> ((w4, le1), False)
              | (w4, None) \<Rightarrow> (note_record e r (w4, le1), True))))))))"

definition maybeReportTransition :: "'w election_env \<Rightarrow> 'w election \<Rightarrow> 'w election" where
  "maybeReportTransition e s = (case s of (w, le) \<Rightarrow>
     (if HolderIdentity (observedRecord le) = reportedLeader le then (w, le)
      else (let le' = le\<lparr>reportedLeader := HolderIdentity (observedRecord le)\<rparr>
            in ((case OnNewLeader e of None \<Rightarrow> w | Some f \<Rightarrow> f (reportedLeader le') w), le'))))"

definition GetLeader :: "LeaderElector \<Rightarrow> string" where
  "GetLeader le = HolderIdentity (observedRecord le)"

definition IsLeader :: "LeaderElectionConfig \<Rightarrow> LeaderElector \<Rightarrow> bool" where
  "IsLeader lec le \<longleftrightarrow> HolderIdentity (observedRecord le) = lec_Identity lec"

text \<open>
  \<open>acquire\<close>: \<open>wait.JitterUntil\<close> over attempts until one succeeds. A candidate may wait for ever;
  the result is False if it has not been elected within \<open>n\<close> attempts.
\<close>

fun acquire :: "nat \<Rightarrow> 'w election_env \<Rightarrow> LeaderElectionConfig \<Rightarrow> 'w election \<Rightarrow> 'w election \<times> bool" where
  "acquire 0 e lec s = (s, False)"
| "acquire (Suc n) e lec s = (case tryAcquireOrRenew e lec s of (s1, succeeded) \<Rightarrow>
     (case maybeReportTransition e s1 of (w2, le2) \<Rightarrow>
        if succeeded then ((w2, le2), True)
        else acquire n e lec (el_pause e (lec_RetryPeriod lec) w2, le2)))"

text \<open>
  \<open>wait.Poll\<close> over attempts, after the poller has been started: an attempt at each tick and one when
  the channel is closed. \<open>Some True\<close> is a success, \<open>Some False\<close> the error \<open>ErrWaitTimeout\<close>, and
  \<open>None\<close> that the loop still goes on after \<open>n\<close> attempts.
\<close>

fun poll_renew :: "nat \<Rightarrow> 'w election_env \<Rightarrow> LeaderElectionConfig \<Rightarrow> int \<Rightarrow> 'w election \<Rightarrow> 'w election \<times> bool option" where
  "poll_renew 0 e lec ch s = (s, None)"
| "poll_renew (Suc n) e lec ch (w, le) = (case el_receive e ch w of (w1, isOpen) \<Rightarrow>
     (case tryAcquireOrRenew e lec (w1, le) of (s2, ok) \<Rightarrow>
        if ok then (s2, Some True)
        else if \<not> isOpen then (s2, Some False)
        else poll_renew n e lec ch s2))"

text \<open>
  \<open>renew\<close>: polls until one times out, at most \<open>m\<close> of them with at most \<open>n\<close> attempts each. The
  result tells if the leader still leads.
\<close>

fun renew :: "nat \<Rightarrow> nat \<Rightarrow> 'w election_env \<Rightarrow> LeaderElectionConfig \<Rightarrow> 'w election \<Rightarrow> 'w election \<times> bool" where
  "renew 0 n e lec s = (s, True)"
| "renew (Suc m) n e lec (w, le) =
     (case el_poller e (lec_RetryPeriod lec) (lec_RenewDeadline lec) w of (w1, ch) \<Rightarrow>
     (case poll_renew n e lec ch (w1, le) of
        (s2, None) \<Rightarrow> (s2, True)
      | (s2, Some True) \<Rightarrow> renew m n e lec (maybeReportTransition e s2)
      | (s2, Some False) \<Rightarrow> (maybeReportTransition e s2, False)))"

text \<open>\<open>Run\<close>, observed after a bounded number of attempts and polls.\<close>

datatype election_stage = Candidate | Leading | Stopped

definition LeaderElector_Run ::
  "nat \<Rightarrow> nat \<Rightarrow> nat \<Rightarrow> 'w election_env \<Rightarrow> LeaderElectionConfig \<Rightarrow> 'w election \<Rightarrow> 'w election \<times> election_stage" where
  "LeaderElector_Run k m n e lec s = (case acquire k e lec s of
      (s1, False) \<Rightarrow> (s1, Candidate)
    | ((w1, le1), True) \<Rightarrow> (case renew m n e lec (OnStartedLeading e w1, le1) of
          (s2, True) \<Rightarrow> (s2, Leading)
        | ((w2, le2), False) \<Rightarrow> ((OnStoppedLeading e w2, le2), Stopped)))"

definition RunOrDie ::
  "nat \<Rightarrow> nat \<Rightarrow> nat \<Rightarrow> 'w election_env \<Rightarrow> LeaderElectionConfig \<Rightarrow> 'w \<Rightarrow> gopanic + 'w election \<times> election_stage" where
  "RunOrDie k m n e lec w = (case NewLeaderElector lec of
      Inl err \<Rightarrow> Inl (PanicWith err)
    | Inr lec \<Rightarrow> Inr (LeaderElector_Run k m n e lec (w, new_elector)))"

section \<open>What the election keeps\<close>

text \<open>A property of the world that every function the election calls keeps is kept by the election.\<close>

definition election_keeps :: "('w \<Rightarrow> bool) \<Rightarrow> 'w election_env \<Rightarrow> bool" where
  "election_keeps P e \<longleftrightarrow> (\<forall>w. P w \<longrightarrow> P (fst (lock_Get e w)) \<and> (\<forall>r. P (fst (lock_Create e r w))) \<and>
     (\<forall>r. P (fst (lock_Update e r w))) \<and> P (fst (el_Now e w)) \<and> (\<forall>d. P (el_pause e d w)) \<and>
     P (OnStartedLeading e w) \<and> (\<forall>f i. OnNewLeader e = Some f \<longrightarrow> P (f i w)))"

lemma election_keepsD:
  assumes "election_keeps P e" "P w"
  shows "lock_Get e w = (w', got) \<Longrightarrow> P w'" "lock_Create e r w = (w', err) \<Longrightarrow> P w'"
    and "lock_Update e r w = (w', err) \<Longrightarrow> P w'" "el_Now e w = (w', t) \<Longrightarrow> P w'"
    and "P (el_pause e d w)" "P (OnStartedLeading e w)" "OnNewLeader e = Some f \<Longrightarrow> P (f i w)"
proof -
  have "P (fst (lock_Get e w))" "P (fst (lock_Create e r w))" "P (fst (lock_Update e r w))" "P (fst (el_Now e w))"
    and last: "P (el_pause e d w)" "P (OnStartedLeading e w)" "OnNewLeader e = Some f \<Longrightarrow> P (f i w)"
    using assms unfolding election_keeps_def by blast+
  then show "lock_Get e w = (w', got) \<Longrightarrow> P w'" "lock_Create e r w = (w', err) \<Longrightarrow> P w'"
    "lock_Update e r w = (w', err) \<Longrightarrow> P w'" "el_Now e w = (w', t) \<Longrightarrow> P w'" by simp_all
  show "P (el_pause e d w)" "P (OnStartedLeading e w)" "OnNewLeader e = Some f \<Longrightarrow> P (f i w)" by (fact last)+
qed

lemma note_keeps:
  assumes "election_keeps P e" "P w"
  shows "P (fst (note_record e r (w, le)))"
proof -
  obtain w' t where n: "el_Now e w = (w', t)" by force
  from election_keepsD(4) [OF assms n] show ?thesis by (simp add: note_record_def n)
qed

lemma attempt_keeps:
  assumes "election_keeps P e" "P w"
  shows "P (fst (fst (tryAcquireOrRenew e lec (w, le))))"
proof -
  note es = election_keepsD [OF assms(1)] and ns = note_keeps [OF assms(1)]
  obtain w1 now where n: "el_Now e w = (w1, now)" by force
  obtain w2 got where got: "lock_Get e w1 = (w2, got)" by force
  have s2: "P w2" using es(4) [OF assms(2) n] es(1) [OF _ got] by blast
  show ?thesis
  proof (cases got)
    case (Inl err)
    obtain w3 res where c: "lock_Create e (new_record lec now) w2 = (w3, res)" by force
    have "P w3" by (rule es(2) [OF s2 c])
    with ns [of w3] s2 n got Inl c show ?thesis by (simp add: tryAcquireOrRenew_def Let_def split: option.split)
  next
    case (Inr old)
    obtain w3 le1 where o: "(if observedRecord le \<noteq> old then note_record e old (w2, le) else (w2, le)) = (w3, le1)" by force
    have s3: "P w3" using o s2 ns [OF s2, of old le] by (auto split: if_splits)
    obtain w4 res where u: "lock_Update e (renewed_record lec old (new_record lec now)) w3 = (w4, res)" by force
    have "P w4" by (rule es(3) [OF s3 u])
    with ns [of w4] s3 n got Inr o u show ?thesis
      by (simp add: tryAcquireOrRenew_def Let_def split: option.split cong: if_cong)
  qed
qed

lemma acquire_keeps:
  assumes "election_keeps P e" "P w"
  shows "P (fst (fst (acquire n e lec (w, le))))"
  using assms(2)
proof (induction n arbitrary: w le)
  case (Suc n)
  obtain w1 le1 ok where a: "tryAcquireOrRenew e lec (w, le) = ((w1, le1), ok)" by (metis surj_pair)
  obtain w2 le2 where m: "maybeReportTransition e (w1, le1) = (w2, le2)" by force
  have "P w1" using attempt_keeps [OF assms(1) Suc.prems, of lec le] a by simp
  then have s2: "P w2"
    using m election_keepsD(7) [OF assms(1), of w1] by (auto simp: maybeReportTransition_def Let_def split: if_splits option.splits)
  with election_keepsD(5) [OF assms(1) s2] Suc.IH a m show ?case by simp
qed simp

end
