(* ===== verification/Lease_Safety.thy ===== *)
theory Lease_Safety
  imports Leader_Election
begin

text \<open>
  Why the leader election of the operator elects one leader. The rules of the election say what
  a candidate may write over the record of another. Locale \<open>lease_lock\<close> is the contract of the lock
  and of the other candidates: an update is refused if the record has changed since it was read, an
  update that changes nothing makes no new version, others follow the rules, and calls take a bounded
  time. A call that fails may still have written, a read may be stale, and the clocks of the
  candidates may differ. Every attempt keeps the rules (\<open>attempt\<close>), and a leader stays the only one
  from the moment it is elected until it gives up (\<open>exclusive\<close>), provided that the calls it makes
  between its deadline and the end of its lease are not too slow.
\<close>

section \<open>The rules of the election\<close>

text \<open>
  The history of a lock is the list of its versions, the newest first, each with the instant of
  its write. A version is the record as it is stored: encoding a record as JSON truncates its
  times to seconds.
\<close>

type_synonym lease_history = "(int \<times> LeaderElectionRecord) list"

definition seconds :: "int \<Rightarrow> int" where
  "seconds t = t div ns_second * ns_second"

definition stored :: "LeaderElectionRecord \<Rightarrow> LeaderElectionRecord" where
  "stored r = r\<lparr>AcquireTime := seconds (AcquireTime r), RenewTime := seconds (RenewTime r)\<rparr>"

text \<open>
  The clock of the candidate \<open>i\<close> is \<open>skew i\<close> ahead. Every version has the lease all candidates are
  configured with, and a time of renewal at which it was not yet written.
\<close>

definition version_ok :: "int \<Rightarrow> (string \<Rightarrow> int) \<Rightarrow> int \<times> LeaderElectionRecord \<Rightarrow> bool" where
  "version_ok lease skew v = (case v of (t, r) \<Rightarrow> stored r = r \<and>
     (HolderIdentity r \<noteq> [] \<longrightarrow> LeaseDurationSeconds r = lease div ns_second \<and> RenewTime r \<le> t + skew (HolderIdentity r)))"

text \<open>
  What may be written over a version: its holder renews it, or another candidate takes it over, when
  it is a whole lease old or nobody's.
\<close>

fun lease_write :: "int \<Rightarrow> int \<times> LeaderElectionRecord \<Rightarrow> lease_history \<Rightarrow> bool" where
  "lease_write lease v [] = True"
| "lease_write lease (t, r) ((t0, r0) # h) = (t0 \<le> t \<and> HolderIdentity r \<noteq> [] \<and>
     (if HolderIdentity r = HolderIdentity r0
      then LeaderTransitions r = LeaderTransitions r0 \<and> RenewTime r0 < RenewTime r
      else LeaderTransitions r = LeaderTransitions r0 + 1 \<and> (HolderIdentity r0 \<noteq> [] \<longrightarrow> t0 + lease \<le> t)))"

primrec history_ok :: "int \<Rightarrow> (string \<Rightarrow> int) \<Rightarrow> lease_history \<Rightarrow> bool" where
  "history_ok lease skew [] = True"
| "history_ok lease skew (v # h) = (version_ok lease skew v \<and> lease_write lease v h \<and> history_ok lease skew h)"

text \<open>Versions that others have put on top of a history.\<close>

primrec foreign :: "int \<Rightarrow> (string \<Rightarrow> int) \<Rightarrow> string \<Rightarrow> lease_history \<Rightarrow> lease_history \<Rightarrow> bool" where
  "foreign lease skew me [] h = True"
| "foreign lease skew me (v # vs) h = (version_ok lease skew v \<and> lease_write lease v (vs @ h) \<and>
     HolderIdentity (snd v) \<noteq> me \<and> foreign lease skew me vs h)"

lemma history_ok_foreign: "foreign lease skew me vs h \<Longrightarrow> history_ok lease skew h \<Longrightarrow> history_ok lease skew (vs @ h)"
  by (induction vs) simp_all

lemma foreign_append: "foreign lease skew me (us @ vs) h \<longleftrightarrow> foreign lease skew me us (vs @ h) \<and> foreign lease skew me vs h"
  by (induction us) auto

lemma foreign_holder: "foreign lease skew me vs h \<Longrightarrow> v \<in> set vs \<Longrightarrow> HolderIdentity (snd v) \<noteq> me"
  by (induction vs) auto

lemma stored_idem [simp]: "stored (stored r) = stored r"
  by (simp add: stored_def seconds_def ns_second_def)

lemma stored_sel [simp]:
  "HolderIdentity (stored r) = HolderIdentity r" "LeaseDurationSeconds (stored r) = LeaseDurationSeconds r"
  "LeaderTransitions (stored r) = LeaderTransitions r" "RenewTime (stored r) = seconds (RenewTime r)"
  "AcquireTime (stored r) = seconds (AcquireTime r)"
  by (simp_all add: stored_def)

lemma seconds_le: "seconds t \<le> t" and seconds_gt: "t - ns_second < seconds t"
  and seconds_mono: "t \<le> t' \<Longrightarrow> seconds t \<le> seconds t'"
proof -
  show "seconds t \<le> t" "t - ns_second < seconds t" by (simp_all add: seconds_def ns_second_def)
  show "seconds t \<le> seconds t'" if "t \<le> t'"
    using zdiv_mono1 [OF that, of ns_second] by (simp add: seconds_def ns_second_def)
qed

lemma stored_seconds: "stored r = r \<Longrightarrow> seconds (RenewTime r) = RenewTime r \<and> seconds (AcquireTime r) = AcquireTime r"
  by (metis stored_sel(4,5))

text \<open>Versions are written in the order of time, and no record comes up twice.\<close>

lemma history_ordered:
  assumes "history_ok lease skew ((t, r) # h)" "(t', r') \<in> set h"
  shows "t' \<le> t \<and> (LeaderTransitions r' < LeaderTransitions r \<or>
    LeaderTransitions r' = LeaderTransitions r \<and> RenewTime r' < RenewTime r)"
  using assms
proof (induction h arbitrary: t r)
  case (Cons v h)
  obtain t0 r0 where v: "v = (t0, r0)" by force
  have w: "t0 \<le> t \<and> (LeaderTransitions r0 < LeaderTransitions r \<or>
      LeaderTransitions r0 = LeaderTransitions r \<and> RenewTime r0 < RenewTime r)"
    using Cons.prems(1) by (auto simp: v split: if_splits)
  show ?case
  proof (cases "(t', r') = v")
    case False
    then have "(t', r') \<in> set h" using Cons.prems(2) by simp
    with Cons.IH [of t0 r0] Cons.prems(1) w show ?thesis by (fastforce simp: v)
  qed (use w v in auto)
qed simp

lemma history_unique:
  assumes "history_ok lease skew h" "(t, r) \<in> set h" "(t', r) \<in> set h"
  shows "t = t'"
  using assms
proof (induction h)
  case (Cons v h)
  obtain t0 r0 where v: "v = (t0, r0)" by force
  have "(s, r0) \<notin> set h" for s using history_ordered [of lease skew t0 r0 h s r0] Cons.prems(1) v by auto
  with Cons v show ?case by auto
qed simp

section \<open>The contract of the lock\<close>

text \<open>
  How a world is seen: the history of the lock, the time, the number of versions up to the one
  that was read last (the resource version \<open>ConfigMapLock\<close> keeps for its update), the skews, and a
  bound on the time a call takes.
\<close>

record 'w lease_view =
  lv_history :: "'w \<Rightarrow> lease_history"
  lv_time :: "'w \<Rightarrow> int"
  lv_read :: "'w \<Rightarrow> nat"
  lv_skew :: "string \<Rightarrow> int"
  lv_call :: int

abbreviation foreign' :: "'w lease_view \<Rightarrow> LeaderElectionConfig \<Rightarrow> lease_history \<Rightarrow> lease_history \<Rightarrow> bool" where
  "foreign' g lec \<equiv> foreign (lec_LeaseDuration lec) (lv_skew g) (lec_Identity lec)"

text \<open>A history that follows the rules and is not ahead of the time.\<close>

definition lawful :: "'w lease_view \<Rightarrow> LeaderElectionConfig \<Rightarrow> 'w \<Rightarrow> bool" where
  "lawful g lec w \<longleftrightarrow> history_ok (lec_LeaseDuration lec) (lv_skew g) (lv_history g w) \<and>
     (\<forall>v\<in>set (lv_history g w). fst v \<le> lv_time g w)"

definition others :: "'w lease_view \<Rightarrow> LeaderElectionConfig \<Rightarrow> 'w \<Rightarrow> 'w \<Rightarrow> bool" where
  "others g lec w w' \<longleftrightarrow> lv_time g w \<le> lv_time g w' \<and>
     (\<exists>vs. lv_history g w' = vs @ lv_history g w \<and>
        foreign' g lec vs (lv_history g w) \<and>
        (\<forall>v\<in>set vs. fst v \<le> lv_time g w'))"

text \<open>The candidate itself puts a version on top; others may follow before the call returns.\<close>

definition puts :: "'w lease_view \<Rightarrow> LeaderElectionConfig \<Rightarrow> LeaderElectionRecord \<Rightarrow> 'w \<Rightarrow> 'w \<Rightarrow> bool" where
  "puts g lec r w w' \<longleftrightarrow> (\<exists>t vs. lv_time g w \<le> t \<and> t \<le> lv_time g w' \<and>
     lv_history g w' = vs @ (t, stored r) # lv_history g w \<and>
     foreign' g lec vs ((t, stored r) # lv_history g w) \<and>
     (\<forall>v\<in>set vs. fst v \<le> lv_time g w'))"

definition brief :: "'w lease_view \<Rightarrow> 'w \<Rightarrow> 'w \<Rightarrow> bool" where
  "brief g w w' \<longleftrightarrow> lv_time g w' \<le> lv_time g w + lv_call g"

locale lease_lock =
  fixes e :: "'w election_env" and lec :: LeaderElectionConfig and g :: "'w lease_view"
  assumes lease_pos: "0 < lec_LeaseDuration lec" and identity: "lec_Identity lec \<noteq> []"
    and now: "el_Now e w = (w', t) \<Longrightarrow> others g lec w w' \<and> brief g w w' \<and> lv_read g w' = lv_read g w \<and>
      lv_time g w \<le> t - lv_skew g (lec_Identity lec) \<and> t - lv_skew g (lec_Identity lec) \<le> lv_time g w'"
    and get: "lock_Get e w = (w', got) \<Longrightarrow> others g lec w w' \<and> brief g w w'"
    and get_record: "lawful g lec w \<Longrightarrow> lock_Get e w = (w', Inr r) \<Longrightarrow>
      \<exists>us t h. lv_history g w' = us @ (t, r) # h \<and> lv_read g w' = Suc (length h)"
    and create: "lock_Create e r w = (w', err) \<Longrightarrow> brief g w w' \<and>
      (puts g lec r w w' \<and> lv_history g w = [] \<or> err \<noteq> None \<and> others g lec w w')"
    and update: "lock_Update e r w = (w', err) \<Longrightarrow> brief g w w' \<and>
      ((if stored r = snd (hd (lv_history g w)) then others g lec w w' else puts g lec r w w') \<and>
         lv_history g w \<noteq> [] \<and> lv_read g w = length (lv_history g w) \<or>
       err \<noteq> None \<and> others g lec w w')"
    and pause: "others g lec w (el_pause e d w)"
    and poller: "el_poller e period timeout w = (w', ch) \<Longrightarrow> others g lec w w' \<and> brief g w w' \<and> ch \<le> lv_time g w' + timeout"
    and receive: "el_receive e ch w = (w', isOpen) \<Longrightarrow>
      others g lec w w' \<and> lv_time g w' \<le> max (lv_time g w) ch + lv_call g \<and>
      (isOpen \<longrightarrow> lv_time g w' \<le> ch + lv_call g)"
    and started: "others g lec w (OnStartedLeading e w) \<and> brief g w (OnStartedLeading e w)"
    and stopped: "others g lec w (OnStoppedLeading e w) \<and> brief g w (OnStoppedLeading e w)"
    and new_leader: "OnNewLeader e = Some f \<Longrightarrow> others g lec w (f i w) \<and> brief g w (f i w)"

lemma others_refl [simp]: "others g lec w w"
  by (simp add: others_def)

lemma others_trans: "others g lec w1 w2 \<Longrightarrow> others g lec w2 w3 \<Longrightarrow> others g lec w1 w3"
  unfolding others_def by (force simp: foreign_append)

section \<open>One attempt\<close>

text \<open>What the elector remembers of another holder is a version that was there at the time it noted.\<close>

definition observed :: "'w lease_view \<Rightarrow> LeaderElectionConfig \<Rightarrow> 'w \<Rightarrow> LeaderElector \<Rightarrow> bool" where
  "observed g lec w le \<longleftrightarrow> HolderIdentity (observedRecord le) \<in> {lec_Identity lec, []} \<or>
     (\<exists>t. (t, observedRecord le) \<in> set (lv_history g w) \<and> t + lv_skew g (lec_Identity lec) \<le> observedTime le)"

text \<open>A version of the candidate's own, not older than a second before \<open>w\<close>, is on top of the history.\<close>

definition renewed :: "'w lease_view \<Rightarrow> LeaderElectionConfig \<Rightarrow> 'w \<Rightarrow> 'w \<Rightarrow> bool" where
  "renewed g lec w w' \<longleftrightarrow> lv_time g w \<le> lv_time g w' \<and>
     (\<exists>vs t r h. lv_history g w' = vs @ (t, r) # h \<and> HolderIdentity r = lec_Identity lec \<and>
        lv_time g w - ns_second < t \<and> (\<forall>v\<in>set vs. fst v \<le> lv_time g w') \<and>
        foreign' g lec vs ((t, r) # h) \<and>
        (lv_history g w = (t, r) # h \<or>
         (\<exists>us. h = us @ lv_history g w \<and>
            foreign' g lec us (lv_history g w))))"

lemma renewedI:
  assumes "lv_history g w' = vs @ (t, r) # h" "HolderIdentity r = lec_Identity lec"
    and "lv_time g w \<le> lv_time g w'" "lv_time g w - ns_second < t" "\<forall>v\<in>set vs. fst v \<le> lv_time g w'"
    and "foreign' g lec vs ((t, r) # h)"
    and "lv_history g w = (t, r) # h \<or> (\<exists>us. h = us @ lv_history g w \<and> foreign' g lec us (lv_history g w))"
  shows "renewed g lec w w'"
  unfolding renewed_def using assms by blast

lemma others_lawful: "others g lec w w' \<Longrightarrow> lawful g lec w \<Longrightarrow> lawful g lec w'"
  unfolding others_def lawful_def by (fastforce intro: history_ok_foreign)

lemma others_observed: "others g lec w w' \<Longrightarrow> observed g lec w le \<Longrightarrow> observed g lec w' le"
  unfolding others_def observed_def by auto

lemma others_head:
  assumes "others g lec w w'" "lv_history g w' = (t, r) # h" "HolderIdentity r = lec_Identity lec"
  shows "lv_history g w = (t, r) # h"
  using assms unfolding others_def by (auto simp: Cons_eq_append_conv)

lemma others_renewed:
  assumes "others g lec w w1" "renewed g lec w1 w'"
  shows "renewed g lec w w'"
proof -
  from assms(2) obtain vs t r h where r: "lv_history g w' = vs @ (t, r) # h" "HolderIdentity r = lec_Identity lec"
    "lv_time g w1 - ns_second < t" "\<forall>v\<in>set vs. fst v \<le> lv_time g w'"
    "foreign' g lec vs ((t, r) # h)"
    and base: "lv_history g w1 = (t, r) # h \<or> (\<exists>us. h = us @ lv_history g w1 \<and>
      foreign' g lec us (lv_history g w1))"
    unfolding renewed_def by blast
  have "lv_history g w = (t, r) # h \<or> (\<exists>us. h = us @ lv_history g w \<and>
      foreign' g lec us (lv_history g w))"
    using base
  proof
    assume "lv_history g w1 = (t, r) # h"
    with others_head [OF assms(1) _ r(2)] show ?thesis by blast
  qed (use assms(1) in \<open>auto simp: others_def foreign_append\<close>)
  moreover have "lv_time g w \<le> lv_time g w1" "lv_time g w1 \<le> lv_time g w'"
    using assms by (simp_all add: others_def renewed_def)
  ultimately show ?thesis using r by (intro renewedI [OF r(1,2)]) auto
qed

lemma renewed_others:
  assumes "renewed g lec w w1" "others g lec w1 w'"
  shows "renewed g lec w w'"
proof -
  from assms(1) obtain vs t r h where r: "lv_history g w1 = vs @ (t, r) # h" "HolderIdentity r = lec_Identity lec"
    "lv_time g w - ns_second < t" "\<forall>v\<in>set vs. fst v \<le> lv_time g w1"
    "foreign' g lec vs ((t, r) # h)"
    "lv_history g w = (t, r) # h \<or> (\<exists>us. h = us @ lv_history g w \<and>
      foreign' g lec us (lv_history g w))"
    and le: "lv_time g w \<le> lv_time g w1"
    unfolding renewed_def by blast
  from assms(2) obtain us where u: "lv_history g w' = us @ lv_history g w1" "lv_time g w1 \<le> lv_time g w'"
    "foreign' g lec us (lv_history g w1)"
    "\<forall>v\<in>set us. fst v \<le> lv_time g w'"
    unfolding others_def by blast
  have "lv_history g w' = (us @ vs) @ (t, r) # h" by (simp add: u(1) r(1))
  moreover have "foreign' g lec (us @ vs) ((t, r) # h)"
    using u(3) r(1,5) by (simp add: foreign_append)
  moreover have "\<forall>v\<in>set (us @ vs). fst v \<le> lv_time g w'" using u(2,4) r(4) by auto
  ultimately show ?thesis using le u(2) r(2,3,6) by (intro renewedI [of g w' "us @ vs" t r h]) auto
qed

text \<open>A lawful write of the candidate's own.\<close>

lemma puts_renewed:
  assumes "puts g lec r w w'" "lawful g lec w" "HolderIdentity r = lec_Identity lec"
    and "LeaseDurationSeconds r = lec_LeaseDuration lec div ns_second" "RenewTime r \<le> lv_time g w + lv_skew g (lec_Identity lec)"
    and "\<And>t. lv_time g w \<le> t \<Longrightarrow> lease_write (lec_LeaseDuration lec) (t, stored r) (lv_history g w)"
  shows "renewed g lec w w' \<and> lawful g lec w'"
proof -
  from assms(1) obtain t vs where t: "lv_time g w \<le> t" "t \<le> lv_time g w'"
    "lv_history g w' = vs @ (t, stored r) # lv_history g w"
    "foreign' g lec vs ((t, stored r) # lv_history g w)"
    "\<forall>v\<in>set vs. fst v \<le> lv_time g w'"
    unfolding puts_def by blast
  have "RenewTime (stored r) \<le> t + lv_skew g (lec_Identity lec)"
    using seconds_le [of "RenewTime r"] assms(5) t(1) by simp
  then have "version_ok (lec_LeaseDuration lec) (lv_skew g) (t, stored r)"
    by (simp add: version_ok_def assms(3,4))
  with assms(2) assms(6) [OF t(1)]
  have "history_ok (lec_LeaseDuration lec) (lv_skew g) ((t, stored r) # lv_history g w)"
    by (simp add: lawful_def)
  from history_ok_foreign [OF t(4) this] t(1-3,5) assms(2) have "lawful g lec w'"
    by (force simp: lawful_def)
  moreover have "lv_time g w - ns_second < t" using t(1) by (simp add: ns_second_def)
  then have "renewed g lec w w'" using t assms(3) by (intro renewedI [OF t(3)]) auto
  ultimately show ?thesis by simp
qed

context lease_lock
begin

abbreviation "me \<equiv> lec_Identity lec"

abbreviation "lease \<equiv> lec_LeaseDuration lec"

lemma call_nonneg: "0 \<le> lv_call g"
proof -
  obtain w' t where "el_Now e undefined = (w', t)" by force
  from now [OF this] show ?thesis by (simp add: brief_def)
qed

lemma noted:
  assumes "note_record e r (w, le) = (w', le')"
  shows "others g lec w w' \<and> brief g w w' \<and> lv_read g w' = lv_read g w \<and> observedRecord le' = r \<and>
    lv_time g w + lv_skew g me \<le> observedTime le'"
  using assms now by (fastforce simp: note_record_def split: prod.splits)

text \<open>
  A record of another holder that the guard lets pass is a whole lease old; the candidate's own
  record is renewed at a later second.
\<close>

lemma overwrite_lawful:
  assumes "lv_history g w3 = (t, old) # h" "others g lec w w3" "lawful g lec w" "observed g lec w3 le1" "observedRecord le1 = old"
    and "lv_time g w \<le> now - lv_skew g me" "now - lv_skew g me \<le> lv_time g w3"
    and "\<not> (observedTime le1 + lease > now \<and> HolderIdentity old \<noteq> me)"
    and "stored (renewed_record lec old (new_record lec now)) \<noteq> old" "lv_time g w3 \<le> t'"
  shows "lease_write lease (t', stored (renewed_record lec old (new_record lec now))) (lv_history g w3)"
proof -
  have lw: "lawful g lec w3" by (rule others_lawful [OF assms(2,3)])
  then have v: "version_ok lease (lv_skew g) (t, old)" "t \<le> lv_time g w3"
    and hist: "history_ok lease (lv_skew g) (lv_history g w3)" by (simp_all add: lawful_def assms(1))
  have st: "seconds (RenewTime old) = RenewTime old" "seconds (AcquireTime old) = AcquireTime old"
    using v(1) stored_seconds [of old] by (auto simp: version_ok_def)
  show ?thesis
  proof (cases "HolderIdentity old = me")
    case True
    have "(t, old) \<in> set (lv_history g w)" using others_head [OF assms(2,1) True] by simp
    then have "t \<le> lv_time g w" using assms(3) by (auto simp: lawful_def)
    then have "RenewTime old \<le> now" using v(1) True identity assms(6) by (simp add: version_ok_def)
    then have le: "RenewTime old \<le> seconds now"
      using seconds_mono [of "RenewTime old" now] st(1) by metis
    have "RenewTime old \<noteq> seconds now"
    proof
      assume "RenewTime old = seconds now"
      then have "stored (renewed_record lec old (new_record lec now)) = old"
        using v(1) True identity st
        by (simp add: renewed_record_def new_record_def stored_def version_ok_def)
      with assms(9) show False by simp
    qed
    with le True identity assms(10) v(2) show ?thesis by (simp add: assms(1) renewed_record_def new_record_def)
  next
    case False
    have "t + lease \<le> t'" if "HolderIdentity old \<noteq> []"
    proof -
      from assms(4,5) False that obtain t2 where t2: "(t2, old) \<in> set (lv_history g w3)" "t2 + lv_skew g me \<le> observedTime le1"
        by (auto simp: observed_def)
      have "t2 = t" by (rule history_unique [OF hist t2(1)]) (simp add: assms(1))
      with t2(2) assms(7,8,10) False show ?thesis by simp
    qed
    with False identity assms(10) v(2) show ?thesis by (simp add: assms(1) renewed_record_def new_record_def)
  qed
qed

lemma update_attempt:
  assumes "lock_Update e (renewed_record lec old (new_record lec now)) w3 = (w4, res)"
    and "lv_history g w2 = us @ (t, old) # h" "lv_read g w3 = Suc (length h)" "others g lec w2 w3"
    and "others g lec w w3" "lawful g lec w" "observed g lec w3 le1" "observedRecord le1 = old"
    and "lv_time g w \<le> now - lv_skew g me" "now - lv_skew g me \<le> lv_time g w3"
    and "\<not> (observedTime le1 + lease > now \<and> HolderIdentity old \<noteq> me)"
  shows "lawful g lec w4 \<and> (res \<noteq> None \<and> others g lec w w4 \<or> renewed g lec w w4)"
proof -
  let ?r = "renewed_record lec old (new_record lec now)"
  have r: "HolderIdentity ?r = me" "LeaseDurationSeconds ?r = lease div ns_second" "RenewTime ?r = now"
    by (simp_all add: renewed_record_def new_record_def)
  have lw: "lawful g lec w3" by (rule others_lawful [OF assms(5,6)])
  from update [OF assms(1)] consider "res \<noteq> None" "others g lec w3 w4"
    | "lv_read g w3 = length (lv_history g w3)" "if stored ?r = snd (hd (lv_history g w3)) then others g lec w3 w4 else puts g lec ?r w3 w4"
    by blast
  then show ?thesis
  proof cases
    case 1
    then show ?thesis using others_trans [OF assms(5) 1(2)] others_lawful [OF 1(2) lw] by simp
  next
    case 2
    then have top: "lv_history g w3 = (t, old) # h"
      using assms(2,3,4) by (auto simp: others_def)
    show ?thesis
    proof (cases "stored ?r = old")
      case True
      then have o: "others g lec w3 w4" using 2(2) by (simp add: top)
      have old: "HolderIdentity old = me" "RenewTime old = seconds now" using True r stored_sel(1,4) by metis+
      have "RenewTime old \<le> t + lv_skew g me"
        using lw old(1) identity by (simp add: lawful_def top version_ok_def)
      then have "lv_time g w - ns_second < t" using old(2) seconds_gt [of now] assms(9) by simp
      moreover have "lv_history g w = (t, old) # h" by (rule others_head [OF assms(5) top old(1)])
      ultimately have "renewed g lec w w3"
        using old(1) assms(5) by (intro renewedI [of g w3 "[]" t old h]) (auto simp: top others_def)
      from renewed_others [OF this o] others_lawful [OF o lw] show ?thesis by simp
    next
      case False
      then have "puts g lec ?r w3 w4" using 2(2) by (simp add: top)
      from puts_renewed [OF this lw r(1,2)] overwrite_lawful [OF top assms(5-11) False] r(3) assms(10)
      have "renewed g lec w3 w4 \<and> lawful g lec w4" by simp
      with others_renewed [OF assms(5), of w4] show ?thesis by simp
    qed
  qed
qed

lemma update_keeps: "lock_Update e r w = (w', res) \<Longrightarrow> set (lv_history g w) \<subseteq> set (lv_history g w')"
  using update [of r w w' res] by (auto simp: others_def puts_def split: if_splits)

lemma create_attempt:
  assumes "lock_Create e (new_record lec now) w2 = (w3, res)" "others g lec w w2" "lawful g lec w" "observed g lec w le"
    and "now - lv_skew g me \<le> lv_time g w2"
  shows "lawful g lec w3 \<and> observed g lec w3 le \<and> (res \<noteq> None \<and> others g lec w w3 \<or> renewed g lec w w3)"
proof -
  have lw: "lawful g lec w2" by (rule others_lawful [OF assms(2,3)])
  have ob: "observed g lec w2 le" by (rule others_observed [OF assms(2,4)])
  from create [OF assms(1)] consider "res \<noteq> None" "others g lec w2 w3"
    | "puts g lec (new_record lec now) w2 w3" "lv_history g w2 = []" by blast
  then show ?thesis
  proof cases
    case 1
    with others_trans [OF assms(2) 1(2)] others_lawful [OF 1(2) lw] others_observed [OF 1(2) ob] show ?thesis by simp
  next
    case 2
    have "observed g lec w3 le" using ob 2(2) by (auto simp: observed_def)
    moreover have "renewed g lec w2 w3 \<and> lawful g lec w3"
      by (rule puts_renewed [OF 2(1) lw]) (use assms(5) 2(2) in \<open>auto simp: new_record_def\<close>)
    ultimately show ?thesis using others_renewed [OF assms(2), of w3] by simp
  qed
qed

lemma own_observed: "HolderIdentity (observedRecord le) = me \<Longrightarrow> observed g lec w le"
  by (simp add: observed_def)

lemma note_own:
  assumes "note_record e r (w3, le) = (w', le')" "lawful g lec w3" "renewed g lec w w3" "HolderIdentity r = me"
  shows "lawful g lec w' \<and> observed g lec w' le' \<and> renewed g lec w w' \<and> brief g w3 w'"
proof -
  from noted [OF assms(1)] have o: "others g lec w3 w'" and b: "brief g w3 w'" "observedRecord le' = r" by simp_all
  with others_lawful [OF o assms(2)] renewed_others [OF assms(3) o] assms(4) show ?thesis by (simp add: observed_def)
qed

text \<open>After the record has been read: it is known at the time noted, and still the one that was read.\<close>

lemma observe:
  assumes "(if observedRecord le \<noteq> old then note_record e old (w2, le) else (w2, le)) = (w3, le1)"
    and "lv_history g w2 = us @ (t, old) # h" "lawful g lec w2" "observed g lec w2 le"
  shows "others g lec w2 w3 \<and> brief g w2 w3 \<and> lv_read g w3 = lv_read g w2 \<and> observed g lec w3 le1 \<and> observedRecord le1 = old"
proof (cases "observedRecord le = old")
  case True
  with assms(1,4) call_nonneg show ?thesis by (simp add: brief_def)
next
  case False
  with assms(1) have n: "note_record e old (w2, le) = (w3, le1)" by simp
  have "t \<le> lv_time g w2" "(t, old) \<in> set (lv_history g w3)"
    using assms(2,3) noted [OF n] by (auto simp: lawful_def others_def)
  with noted [OF n] show ?thesis by (auto simp: observed_def)
qed

text \<open>What an attempt amounts to, from the world \<open>w\<close> to \<open>w'\<close> and at most \<open>n\<close> calls later.\<close>

definition outcome :: "'w \<Rightarrow> 'w \<Rightarrow> LeaderElector \<Rightarrow> bool \<Rightarrow> int \<Rightarrow> bool" where
  "outcome w w' le' ok n \<longleftrightarrow> lawful g lec w' \<and> observed g lec w' le' \<and> (\<not> ok \<and> others g lec w w' \<or> renewed g lec w w') \<and>
     lv_time g w' \<le> lv_time g w + n * lv_call g"

lemma outcome_note:
  assumes "outcome w w3 le False n" "renewed g lec w w3" "note_record e r (w3, le) = (w', le')" "HolderIdentity r = me"
  shows "outcome w w' le' True (n + 1)"
  using note_own [OF assms(3) _ assms(2,4)] assms(1) by (auto simp: outcome_def brief_def algebra_simps)

lemma outcome_more: "outcome w w' le' ok n \<Longrightarrow> n \<le> m \<Longrightarrow> outcome w w' le' ok m"
  using call_nonneg mult_right_mono [of n m "lv_call g"] by (auto simp: outcome_def)

text \<open>The first part of an attempt: the clock and the lock have been read.\<close>

definition inquiry :: "'w \<Rightarrow> 'w \<Rightarrow> int \<Rightarrow> LeaderElector \<Rightarrow> bool" where
  "inquiry w w2 now le \<longleftrightarrow> others g lec w w2 \<and> lawful g lec w \<and> observed g lec w le \<and>
     lv_time g w2 \<le> lv_time g w + 2 * lv_call g \<and> lv_time g w \<le> now - lv_skew g me \<and> now - lv_skew g me \<le> lv_time g w2"

lemma attempt_create:
  assumes "inquiry w w2 now le" "lock_Create e (new_record lec now) w2 = (w3, res)"
    and "(case res of Some _ \<Rightarrow> ((w3, le), False) | None \<Rightarrow> (note_record e (new_record lec now) (w3, le), True)) = ((w', le'), ok)"
  shows "outcome w w' le' ok 4"
proof -
  have i: "others g lec w w2" "lawful g lec w" "observed g lec w le" "now - lv_skew g me \<le> lv_time g w2"
    using assms(1) by (simp_all add: inquiry_def)
  have b: "brief g w2 w3" using create [OF assms(2)] by simp
  note a = create_attempt [OF assms(2) i]
  have c: "outcome w w3 le False 3"
    using a b assms(1) by (auto simp: outcome_def inquiry_def brief_def)
  show ?thesis
  proof (cases res)
    case (Some x)
    with assms(3) outcome_more [OF c, of 4] show ?thesis by simp
  next
    case None
    then have "renewed g lec w w3" "note_record e (new_record lec now) (w3, le) = (w', le')" "ok"
      using a assms(3) by simp_all
    with outcome_note [OF c, of "new_record lec now" w' le'] show ?thesis by (simp add: new_record_def)
  qed
qed

lemma attempt_update:
  assumes "inquiry w w2 now le" "lv_history g w2 = us @ (t, old) # h" "lv_read g w2 = Suc (length h)"
    and "(if observedRecord le \<noteq> old then note_record e old (w2, le) else (w2, le)) = (w3, le1)"
    and "\<not> (observedTime le1 + lease > now \<and> HolderIdentity old \<noteq> me)"
    and "lock_Update e (renewed_record lec old (new_record lec now)) w3 = (w4, res)"
    and "(case res of Some _ \<Rightarrow> ((w4, le1), False)
      | None \<Rightarrow> (note_record e (renewed_record lec old (new_record lec now)) (w4, le1), True)) = ((w', le'), ok)"
  shows "outcome w w' le' ok 5"
proof -
  have i: "others g lec w w2" "lawful g lec w" "observed g lec w le" "lv_time g w2 \<le> lv_time g w + 2 * lv_call g"
    "lv_time g w \<le> now - lv_skew g me" "now - lv_skew g me \<le> lv_time g w2"
    using assms(1) by (simp_all add: inquiry_def)
  note s3 = observe [OF assms(4,2) others_lawful [OF i(1,2)] others_observed [OF i(1,3)]]
  have o3: "others g lec w w3" using others_trans [OF i(1)] s3 by blast
  have t3: "now - lv_skew g me \<le> lv_time g w3" "lv_time g w3 \<le> lv_time g w + 3 * lv_call g"
    using i(4,6) s3 by (simp_all add: others_def brief_def)
  have a: "lawful g lec w4" "res \<noteq> None \<and> others g lec w w4 \<or> renewed g lec w w4"
    using update_attempt [OF assms(6,2) _ _ o3 i(2) _ _ i(5) t3(1) assms(5)] s3 assms(3) by simp_all
  have b: "brief g w3 w4" using update [OF assms(6)] by simp
  have "observed g lec w4 le1" using s3 update_keeps [OF assms(6)] by (auto simp: observed_def)
  with a b t3(2) have c: "outcome w w4 le1 False 4" by (auto simp: outcome_def brief_def)
  show ?thesis
  proof (cases res)
    case (Some x)
    with assms(7) outcome_more [OF c, of 5] show ?thesis by simp
  next
    case None
    let ?r = "renewed_record lec old (new_record lec now)"
    have "renewed g lec w w4" "note_record e ?r (w4, le1) = (w', le')" "ok"
      using None a(2) assms(7) by simp_all
    with outcome_note [OF c, of ?r w' le'] show ?thesis by (simp add: renewed_record_def new_record_def)
  qed
qed

lemma attempt_held:
  assumes "inquiry w w2 now le" "lv_history g w2 = us @ (t, old) # h"
    and "(if observedRecord le \<noteq> old then note_record e old (w2, le) else (w2, le)) = (w3, le1)"
  shows "outcome w w3 le1 False 5"
proof -
  have i: "others g lec w w2" "lawful g lec w" "observed g lec w le" "lv_time g w2 \<le> lv_time g w + 2 * lv_call g"
    using assms(1) by (simp_all add: inquiry_def)
  note s3 = observe [OF assms(3,2) others_lawful [OF i(1,2)] others_observed [OF i(1,3)]]
  have o3: "others g lec w w3" using others_trans [OF i(1)] s3 by blast
  with s3 i(4) others_lawful [OF o3 i(2)] call_nonneg show ?thesis by (simp add: outcome_def brief_def)
qed

lemma attempt:
  assumes "tryAcquireOrRenew e lec (w, le) = ((w', le'), ok)" "lawful g lec w" "observed g lec w le"
  shows "outcome w w' le' ok 5"
proof -
  obtain w1 now where n: "el_Now e w = (w1, now)" by force
  obtain w2 got where got: "lock_Get e w1 = (w2, got)" by force
  have "others g lec w w2" using now [OF n] get [OF got] by (blast intro: others_trans)
  then have q: "inquiry w w2 now le"
    using now [OF n] get [OF got] assms(2,3) by (simp add: inquiry_def brief_def others_def [of g lec w1 w2])
  show ?thesis
  proof (cases got)
    case (Inl err)
    obtain w3 res where c: "lock_Create e (new_record lec now) w2 = (w3, res)" by force
    show ?thesis
    proof (cases "IsNotFound err")
      case False
      with assms(1) n got Inl have "w' = w2" "le' = le" "\<not> ok" by (simp_all add: tryAcquireOrRenew_def Let_def)
      with q call_nonneg others_lawful [of g lec w w2] others_observed [of g lec w w2] show ?thesis
        by (simp add: outcome_def inquiry_def)
    next
      case True
      have "outcome w w' le' ok 4"
        by (rule attempt_create [OF q c]) (use assms(1) n got Inl True c in \<open>simp add: tryAcquireOrRenew_def Let_def split: option.splits\<close>)
      then show ?thesis by (rule outcome_more) simp
    qed
  next
    case (Inr old)
    have "lawful g lec w1" by (rule others_lawful [OF _ assms(2)]) (use now [OF n] in simp)
    from get_record [OF this, of w2 old] got Inr obtain us t h where h: "lv_history g w2 = us @ (t, old) # h" "lv_read g w2 = Suc (length h)"
      by blast
    obtain w3 le1 where ob3: "(if observedRecord le \<noteq> old then note_record e old (w2, le) else (w2, le)) = (w3, le1)" by force
    obtain w4 res where u: "lock_Update e (renewed_record lec old (new_record lec now)) w3 = (w4, res)" by force
    have run: "(if observedTime le1 + lease > now \<and> HolderIdentity old \<noteq> me then ((w3, le1), False)
         else (case res of Some _ \<Rightarrow> ((w4, le1), False)
          | None \<Rightarrow> (note_record e (renewed_record lec old (new_record lec now)) (w4, le1), True))) = ((w', le'), ok)"
      using assms(1) n got Inr ob3 u unfolding tryAcquireOrRenew_def Let_def by (cases res) (simp_all cong: if_cong)
    show ?thesis
    proof (cases "observedTime le1 + lease > now \<and> HolderIdentity old \<noteq> me")
      case True
      with run attempt_held [OF q h(1) ob3] show ?thesis by simp
    next
      case False
      then show ?thesis by (intro attempt_update [OF q h ob3 False u]) (use run False in simp)
    qed
  qed
qed

end

section \<open>Leadership\<close>

text \<open>
  The candidate has led since the history was \<open>base\<close>: the versions after it are all its own, and
  the newest one is not older than a second before the instant \<open>s\<close>.
\<close>

definition leader_since :: "'w lease_view \<Rightarrow> LeaderElectionConfig \<Rightarrow> int \<Rightarrow> lease_history \<Rightarrow> 'w \<Rightarrow> bool" where
  "leader_since g lec s base w \<longleftrightarrow> lawful g lec w \<and> s \<le> lv_time g w \<and>
     (\<exists>mine. lv_history g w = mine @ base \<and> (\<forall>v\<in>set mine. HolderIdentity (snd v) = lec_Identity lec)) \<and>
     (\<exists>t r h. lv_history g w = (t, r) # h \<and> HolderIdentity r = lec_Identity lec \<and> s - ns_second < t)"

lemma leader_since_earlier: "leader_since g lec s base w \<Longrightarrow> s' \<le> s \<Longrightarrow> leader_since g lec s' base w"
  unfolding leader_since_def by fastforce

text \<open>Others take over a version only when it is a lease old.\<close>

lemma foreign_late:
  assumes "foreign lease skew me vs ((t, r) # h)" "HolderIdentity r = me" "me \<noteq> []" "vs \<noteq> []"
  shows "\<exists>v\<in>set vs. t + lease \<le> fst v"
proof -
  from assms(4) obtain us v where vs: "vs = us @ [v]" using rev_exhaust by blast
  obtain t' r' where v: "v = (t', r')" by force
  have "lease_write lease (t', r') ((t, r) # h)" "HolderIdentity r' \<noteq> me"
    using assms(1) by (simp_all add: vs v foreign_append)
  with assms(2,3) show ?thesis by (auto simp: vs v)
qed

lemma leader_quiet:
  assumes "leader_since g lec s base w" "others g lec w w'" "lec_Identity lec \<noteq> []"
    and "lv_time g w' + ns_second < s + lec_LeaseDuration lec"
  shows "leader_since g lec s base w'"
proof -
  from assms(1) obtain mine t r h where l: "lv_history g w = mine @ base" "\<forall>v\<in>set mine. HolderIdentity (snd v) = lec_Identity lec"
    "lv_history g w = (t, r) # h" "HolderIdentity r = lec_Identity lec" "s - ns_second < t"
    and lw: "lawful g lec w" "s \<le> lv_time g w"
    unfolding leader_since_def by blast
  from assms(2) obtain vs where vs: "lv_history g w' = vs @ lv_history g w" "foreign' g lec vs (lv_history g w)"
    "\<forall>v\<in>set vs. fst v \<le> lv_time g w'" "lv_time g w \<le> lv_time g w'" unfolding others_def by blast
  have "vs = []"
    using foreign_late [OF vs(2) [unfolded l(3)] l(4) assms(3)] vs(3) l(5) assms(4) by fastforce
  with vs(1) have eq: "lv_history g w' = lv_history g w" by simp
  have "s \<le> lv_time g w'" using vs(4) lw(2) by simp
  with others_lawful [OF assms(2) lw(1)] l show ?thesis unfolding leader_since_def eq by blast
qed

lemma renewed_top:
  assumes "renewed g lec w w'" "lec_Identity lec \<noteq> []" "lv_time g w' + ns_second < lv_time g w + lec_LeaseDuration lec"
  shows "\<exists>t r h. lv_history g w' = (t, r) # h \<and> HolderIdentity r = lec_Identity lec \<and> lv_time g w - ns_second < t \<and>
    (lv_history g w = (t, r) # h \<or> (\<exists>us. h = us @ lv_history g w \<and> foreign' g lec us (lv_history g w)))"
proof -
  from assms(1) obtain vs t r h where r: "lv_history g w' = vs @ (t, r) # h" "HolderIdentity r = lec_Identity lec"
    "lv_time g w - ns_second < t" "\<forall>v\<in>set vs. fst v \<le> lv_time g w'" "foreign' g lec vs ((t, r) # h)"
    "lv_history g w = (t, r) # h \<or> (\<exists>us. h = us @ lv_history g w \<and> foreign' g lec us (lv_history g w))"
    unfolding renewed_def by blast
  have "vs = []" using foreign_late [OF r(5,2) assms(2)] r(3,4) assms(3) by fastforce
  with r(1,2,3,6) show ?thesis by auto
qed

lemma leader_elected:
  assumes "renewed g lec w w'" "lawful g lec w'" "lec_Identity lec \<noteq> []"
    and "lv_time g w' + ns_second < lv_time g w + lec_LeaseDuration lec"
  shows "leader_since g lec (lv_time g w) (lv_history g w') w'"
  using renewed_top [OF assms(1,3,4)] assms(1,2) by (auto simp: leader_since_def renewed_def)

lemma leader_renewed:
  assumes "leader_since g lec s base w" "renewed g lec w w'" "lawful g lec w'" "lec_Identity lec \<noteq> []"
    and "lv_time g w' + ns_second < s + lec_LeaseDuration lec"
  shows "leader_since g lec (lv_time g w) base w'"
proof -
  from assms(1) obtain mine t0 r0 h0 where l: "lv_history g w = mine @ base" "\<forall>v\<in>set mine. HolderIdentity (snd v) = lec_Identity lec"
    "lv_history g w = (t0, r0) # h0" "HolderIdentity r0 = lec_Identity lec" "s - ns_second < t0" "s \<le> lv_time g w"
    unfolding leader_since_def by blast
  from renewed_top [OF assms(2,4)] l(6) assms(5) obtain t r h where r: "lv_history g w' = (t, r) # h"
    "HolderIdentity r = lec_Identity lec" "lv_time g w - ns_second < t"
    and us: "lv_history g w = (t, r) # h \<or> (\<exists>us. h = us @ lv_history g w \<and> foreign' g lec us (lv_history g w))" by auto
  have "lv_history g w = (t, r) # h \<or> h = lv_history g w"
    using us
  proof (elim disjE exE conjE)
    fix us assume u: "h = us @ lv_history g w" "foreign' g lec us (lv_history g w)"
    have "us = []"
    proof (rule ccontr)
      assume "us \<noteq> []"
      from foreign_late [OF u(2) [unfolded l(3)] l(4) assms(4) this] obtain v where
        "v \<in> set us" "t0 + lec_LeaseDuration lec \<le> fst v" by blast
      moreover from this(1) have "fst v \<le> lv_time g w'" using assms(3) r(1) u(1) by (auto simp: lawful_def)
      ultimately show False using l(5) assms(5) by simp
    qed
    with u show ?thesis by simp
  qed simp
  then obtain mine' where "lv_history g w' = mine' @ base" "\<forall>v\<in>set mine'. HolderIdentity (snd v) = lec_Identity lec"
  proof
    assume "h = lv_history g w"
    then show thesis using that [of "(t, r) # mine"] r(1,2) l(1,2) by simp
  qed (use that [of mine] r(1) l(1,2) in simp)
  moreover have "lv_time g w \<le> lv_time g w'" using assms(2) by (simp add: renewed_def)
  ultimately show ?thesis unfolding leader_since_def using assms(3) r by blast
qed

context lease_lock
begin

lemma report:
  assumes "maybeReportTransition e (w, le) = (w', le')"
  shows "others g lec w w' \<and> brief g w w' \<and> (observed g lec w le \<longrightarrow> observed g lec w' le')"
proof -
  have "others g lec w w' \<and> brief g w w' \<and> observedRecord le' = observedRecord le \<and> observedTime le' = observedTime le"
    using assms new_leader call_nonneg
    by (auto simp: maybeReportTransition_def Let_def brief_def split: if_splits option.splits)
  moreover from this have "observed g lec w' le' = observed g lec w' le" by (simp add: observed_def)
  ultimately show ?thesis using others_observed [of g lec w w' le] by simp
qed

text \<open>While a leader has enough of its lease left, an attempt keeps it the leader.\<close>

lemma attempt_leads:
  assumes "outcome w w' le' ok 5" "leader_since g lec s base w"
    and "lv_time g w + 5 * lv_call g + ns_second < s + lease"
  shows "leader_since g lec s base w' \<and> (ok \<longrightarrow> leader_since g lec (lv_time g w) base w')"
proof -
  have o: "lawful g lec w'" "\<not> ok \<and> others g lec w w' \<or> renewed g lec w w'" "lv_time g w' + ns_second < s + lease"
    using assms(1,3) by (auto simp: outcome_def)
  have "s \<le> lv_time g w" using assms(2) by (simp add: leader_since_def)
  with o(2) show ?thesis
    using leader_quiet [OF assms(2) _ identity o(3)] leader_renewed [OF assms(2) _ o(1) identity o(3)]
      leader_since_earlier [of g lec "lv_time g w" base w' s] by auto
qed

lemma poll_leads:
  assumes "poll_renew n e lec ch (w, le) = ((w', le'), res)" "leader_since g lec s base w" "observed g lec w le"
    and "ch \<le> d + 8 * lv_call g" "lv_time g w \<le> d + 14 * lv_call g" "d + 22 * lv_call g + ns_second < s + lease"
  shows "leader_since g lec s base w' \<and> observed g lec w' le' \<and> lv_time g w' \<le> d + 20 * lv_call g \<and>
    (res = Some True \<longrightarrow> (\<exists>s'. leader_since g lec s' base w' \<and> lv_time g w' \<le> s' + 5 * lv_call g))"
  using assms
proof (induction n arbitrary: w le)
  case 0
  then show ?case using call_nonneg by simp
next
  case (Suc n)
  obtain w1 op where r: "el_receive e ch w = (w1, op)" by force
  obtain w2 le2 ok where a: "tryAcquireOrRenew e lec (w1, le) = ((w2, le2), ok)" by (metis surj_pair)
  have t1: "lv_time g w1 \<le> d + 15 * lv_call g" "op \<Longrightarrow> lv_time g w1 \<le> d + 9 * lv_call g"
    using receive [OF r] Suc.prems(4,5) call_nonneg by auto
  have o1: "others g lec w w1" using receive [OF r] by simp
  have l1: "leader_since g lec s base w1"
    by (rule leader_quiet [OF Suc.prems(2) o1 identity]) (use t1(1) Suc.prems(6) call_nonneg in simp)
  have out: "outcome w1 w2 le2 ok 5"
    by (rule attempt [OF a _ others_observed [OF o1 Suc.prems(3)]]) (use l1 in \<open>simp add: leader_since_def\<close>)
  have l2: "leader_since g lec s base w2" "ok \<Longrightarrow> leader_since g lec (lv_time g w1) base w2"
    using attempt_leads [OF out l1] t1(1) Suc.prems(6) call_nonneg by simp_all
  have t2: "observed g lec w2 le2" "lv_time g w2 \<le> lv_time g w1 + 5 * lv_call g" using out by (simp_all add: outcome_def)
  show ?case
  proof (cases "\<not> ok \<and> op")
    case True
    then have "poll_renew n e lec ch (w2, le2) = ((w', le'), res)" using Suc.prems(1) r a by simp
    then show ?thesis using Suc.IH [OF _ l2(1) t2(1) Suc.prems(4) _ Suc.prems(6)] True t1(2) t2(2) by simp
  next
    case False
    then have "w' = w2" "le' = le2" "res = Some ok" using Suc.prems(1) r a by (auto split: if_splits)
    then show ?thesis using l2 t1(1) t2 by auto
  qed
qed

text \<open>The deadline leaves enough of the lease for the calls a leader makes until it gives up.\<close>

lemma renew_leads:
  assumes "renew m n e lec (w, le) = ((w', le'), still)" "leader_since g lec s base w" "observed g lec w le"
    and "lv_time g w \<le> s + 7 * lv_call g"
    and "lec_RenewDeadline lec + 22 * lv_call g + ns_second < lease" "0 \<le> lec_RenewDeadline lec"
  shows "\<exists>s'. leader_since g lec s' base w' \<and> observed g lec w' le' \<and> lv_time g w' \<le> s' + lec_RenewDeadline lec + 21 * lv_call g"
  using assms(1-4)
proof (induction m arbitrary: w le s)
  case 0
  then show ?case using call_nonneg assms(6) by force
next
  case (Suc m)
  let ?d = "s + lec_RenewDeadline lec"
  obtain w1 ch where p: "el_poller e (lec_RetryPeriod lec) (lec_RenewDeadline lec) w = (w1, ch)" by force
  obtain w2 le2 res where pr: "poll_renew n e lec ch (w1, le) = ((w2, le2), res)" by (metis surj_pair)
  obtain w3 le3 where mr: "maybeReportTransition e (w2, le2) = (w3, le3)" by force
  have t1: "lv_time g w1 \<le> s + 8 * lv_call g" "ch \<le> ?d + 8 * lv_call g"
    using poller [OF p] Suc.prems(4) by (simp_all add: brief_def)
  have o1: "others g lec w w1" using poller [OF p] by simp
  have l1: "leader_since g lec s base w1"
    by (rule leader_quiet [OF Suc.prems(2) o1 identity]) (use t1(1) assms(5,6) call_nonneg in simp)
  note l2 = poll_leads [OF pr l1 others_observed [OF o1 Suc.prems(3)] t1(2)]
  have l2: "leader_since g lec s base w2" "observed g lec w2 le2" "lv_time g w2 \<le> ?d + 20 * lv_call g"
    "res = Some True \<Longrightarrow> \<exists>s'. leader_since g lec s' base w2 \<and> lv_time g w2 \<le> s' + 5 * lv_call g"
    using l2 t1(1) assms(5,6) call_nonneg by simp_all
  have r3: "others g lec w2 w3" "brief g w2 w3" "observed g lec w3 le3" using report [OF mr] l2(2) by simp_all
  consider (out) "res = None" | (ok) "res = Some True" | (lost) "res = Some False" by (cases res) auto
  then show ?case
  proof cases
    case out
    with Suc.prems(1) p pr have "w' = w2" "le' = le2" by simp_all
    with l2 call_nonneg show ?thesis by force
  next
    case ok
    from l2(4) [OF ok] obtain s' where s': "leader_since g lec s' base w2" "lv_time g w2 \<le> s' + 5 * lv_call g" by blast
    have t3: "lv_time g w3 \<le> s' + 6 * lv_call g" using s'(2) r3(2) by (simp add: brief_def)
    have "leader_since g lec s' base w3"
      by (rule leader_quiet [OF s'(1) r3(1) identity]) (use t3 assms(5,6) call_nonneg in simp)
    moreover have "renew m n e lec (w3, le3) = ((w', le'), still)" using Suc.prems(1) p pr ok mr by simp
    ultimately show ?thesis using Suc.IH [OF _ _ r3(3), of s'] t3 call_nonneg by simp
  next
    case lost
    with Suc.prems(1) p pr mr have "w' = w3" "le' = le3" by simp_all
    moreover have t3: "lv_time g w3 \<le> ?d + 21 * lv_call g" using l2(3) r3(2) by (simp add: brief_def)
    moreover have "leader_since g lec s base w3"
      by (rule leader_quiet [OF l2(1) r3(1) identity]) (use t3 assms(5) call_nonneg in simp)
    ultimately show ?thesis using r3(3) by (intro exI [of _ s]) simp
  qed
qed

lemma acquire_lawful:
  assumes "acquire k e lec (w, le) = ((w', le'), ok)" "lawful g lec w" "observed g lec w le"
  shows "lawful g lec w' \<and> observed g lec w' le' \<and>
    (ok \<and> 6 * lv_call g + ns_second < lease \<longrightarrow>
       (\<exists>s. leader_since g lec s (lv_history g w') w' \<and> lv_time g w' \<le> s + 6 * lv_call g))"
  using assms
proof (induction k arbitrary: w le)
  case (Suc k)
  obtain w1 le1 su where a: "tryAcquireOrRenew e lec (w, le) = ((w1, le1), su)" by (metis surj_pair)
  obtain w2 le2 where mr: "maybeReportTransition e (w1, le1) = (w2, le2)" by force
  note out = attempt [OF a Suc.prems(2,3), unfolded outcome_def]
  have r2: "others g lec w1 w2" "brief g w1 w2" "observed g lec w2 le2" using report [OF mr] out by simp_all
  have lw: "lawful g lec w2" using others_lawful [OF r2(1)] out by simp
  show ?case
  proof (cases su)
    case True
    then have eq: "w' = w2" "le' = le2" "ok" using Suc.prems(1) a mr by simp_all
    have "\<exists>s. leader_since g lec s (lv_history g w2) w2 \<and> lv_time g w2 \<le> s + 6 * lv_call g" if "6 * lv_call g + ns_second < lease"
    proof -
      have ren: "renewed g lec w w2" using renewed_others [OF _ r2(1)] out True by simp
      have t2: "lv_time g w2 \<le> lv_time g w + 6 * lv_call g" using out r2(2) by (simp add: brief_def)
      with leader_elected [OF ren lw identity] that show ?thesis by (intro exI [of _ "lv_time g w"]) simp
    qed
    with eq lw r2(3) show ?thesis by simp
  next
    case False
    let ?w = "el_pause e (lec_RetryPeriod lec) w2"
    have "acquire k e lec (?w, le2) = ((w', le'), ok)" using Suc.prems(1) a mr False by simp
    then show ?thesis
      by (rule Suc.IH) (rule others_lawful [OF pause lw], rule others_observed [OF pause r2(3)])
  qed
qed simp

lemma started_leading:
  assumes "acquire k e lec (w, le) = ((w1, le1), True)" "lawful g lec w" "observed g lec w le"
    and "lec_RenewDeadline lec + 22 * lv_call g + ns_second < lease" "0 \<le> lec_RenewDeadline lec"
  shows "\<exists>s. leader_since g lec s (lv_history g (OnStartedLeading e w1)) (OnStartedLeading e w1) \<and>
    observed g lec (OnStartedLeading e w1) le1 \<and> lv_time g (OnStartedLeading e w1) \<le> s + 7 * lv_call g"
proof -
  let ?w = "OnStartedLeading e w1"
  from acquire_lawful [OF assms(1-3)] assms(4,5) call_nonneg obtain s where
    s: "leader_since g lec s (lv_history g w1) w1" "lv_time g w1 \<le> s + 6 * lv_call g" "observed g lec w1 le1" by auto
  have t: "lv_time g ?w \<le> s + 7 * lv_call g" using started [of w1] s(2) by (simp add: brief_def)
  have o: "others g lec w1 ?w" using started [of w1] by simp
  have "leader_since g lec s (lv_history g w1) ?w"
    by (rule leader_quiet [OF s(1) o identity]) (use t assms(4,5) call_nonneg in simp)
  then have "leader_since g lec s (lv_history g ?w) ?w" by (auto simp: leader_since_def)
  with t others_observed [OF o s(3)] show ?thesis by blast
qed

theorem exclusive:
  assumes "LeaderElector_Run k m n e lec (w, le) = ((w2, le2), stage)" "acquire k e lec (w, le) = ((w1, le1), True)"
    and "lawful g lec w" "observed g lec w le"
    and "lec_RenewDeadline lec + 22 * lv_call g + ns_second < lease" "0 \<le> lec_RenewDeadline lec"
  shows "\<exists>s. leader_since g lec s (lv_history g (OnStartedLeading e w1)) w2 \<and> lv_time g w2 + ns_second < s + lease"
proof -
  obtain w' le' still where r: "renew m n e lec (OnStartedLeading e w1, le1) = ((w', le'), still)" by (metis surj_pair)
  from started_leading [OF assms(2-6)] obtain s where
    "leader_since g lec s (lv_history g (OnStartedLeading e w1)) (OnStartedLeading e w1)" "observed g lec (OnStartedLeading e w1) le1"
    "lv_time g (OnStartedLeading e w1) \<le> s + 7 * lv_call g" by blast
  from renew_leads [OF r this assms(5,6)] obtain s' where
    l: "leader_since g lec s' (lv_history g (OnStartedLeading e w1)) w'" "lv_time g w' \<le> s' + lec_RenewDeadline lec + 21 * lv_call g" by blast
  have t: "lv_time g (OnStoppedLeading e w') + ns_second < s' + lease" "others g lec w' (OnStoppedLeading e w')"
    using stopped [of w'] l(2) assms(5) by (simp_all add: brief_def)
  have "leader_since g lec s' (lv_history g (OnStartedLeading e w1)) (OnStoppedLeading e w')"
    by (rule leader_quiet [OF l(1) t(2) identity t(1)])
  moreover have "w2 = w' \<or> w2 = OnStoppedLeading e w'"
    using assms(1,2) r by (auto simp: LeaderElector_Run_def split: bool.splits)
  moreover have "lv_time g w' + ns_second < s' + lease" using l(2) assms(5) call_nonneg by simp
  ultimately show ?thesis using l(1) t(1) by blast
qed

end

context lease_lock
begin

lemma poll_lawful:
  assumes "poll_renew n e lec ch (w, le) = ((w', le'), res)" "lawful g lec w" "observed g lec w le"
  shows "lawful g lec w' \<and> observed g lec w' le'"
  using assms
proof (induction n arbitrary: w le)
  case (Suc n)
  obtain w1 op where r: "el_receive e ch w = (w1, op)" by force
  obtain w2 le2 ok where a: "tryAcquireOrRenew e lec (w1, le) = ((w2, le2), ok)" by (metis surj_pair)
  have o1: "others g lec w w1" using receive [OF r] by simp
  have "lawful g lec w2 \<and> observed g lec w2 le2"
    using attempt [OF a others_lawful [OF o1 Suc.prems(2)] others_observed [OF o1 Suc.prems(3)]] by (simp add: outcome_def)
  with Suc.IH [of w2 le2] Suc.prems(1) r a show ?case by (auto split: if_splits)
qed simp

lemma renew_lawful:
  assumes "renew m n e lec (w, le) = ((w', le'), still)" "lawful g lec w" "observed g lec w le"
  shows "lawful g lec w' \<and> observed g lec w' le'"
  using assms
proof (induction m arbitrary: w le)
  case (Suc m)
  obtain w1 ch where p: "el_poller e (lec_RetryPeriod lec) (lec_RenewDeadline lec) w = (w1, ch)" by force
  obtain w2 le2 res where pr: "poll_renew n e lec ch (w1, le) = ((w2, le2), res)" by (metis surj_pair)
  obtain w3 le3 where mr: "maybeReportTransition e (w2, le2) = (w3, le3)" by force
  have o1: "others g lec w w1" using poller [OF p] by simp
  note l2 = poll_lawful [OF pr others_lawful [OF o1 Suc.prems(2)] others_observed [OF o1 Suc.prems(3)]]
  have l3: "lawful g lec w3 \<and> observed g lec w3 le3"
    using report [OF mr] l2 others_lawful [of g lec w2 w3] by simp
  with l2 Suc.IH [of w3 le3] Suc.prems(1) p pr mr show ?case by (auto split: option.splits bool.splits)
qed simp

lemma new_elector_observed: "observed g lec w new_elector"
  by (simp add: observed_def new_elector_def zero_record_def)

lemma Run_lawful:
  assumes "LeaderElector_Run k m n e lec (w, le) = ((w', le'), stage)" "lawful g lec w" "observed g lec w le"
  shows "lawful g lec w' \<and> observed g lec w' le'"
proof -
  obtain w1 le1 ok where a: "acquire k e lec (w, le) = ((w1, le1), ok)" by (metis surj_pair)
  obtain w2 le2 still where r: "renew m n e lec (OnStartedLeading e w1, le1) = ((w2, le2), still)" by (metis surj_pair)
  have o1: "others g lec w1 (OnStartedLeading e w1)" and o2: "others g lec w2 (OnStoppedLeading e w2)"
    using started stopped by simp_all
  have l1: "lawful g lec w1" "observed g lec w1 le1" using acquire_lawful [OF a assms(2,3)] by simp_all
  have l2: "lawful g lec w2" "observed g lec w2 le2"
    using renew_lawful [OF r others_lawful [OF o1 l1(1)] others_observed [OF o1 l1(2)]] by simp_all
  with l1 others_lawful [OF o2 l2(1)] others_observed [OF o2 l2(2)] assms(1) a r show ?thesis
    by (auto simp: LeaderElector_Run_def split: bool.splits)
qed

end

lemma lawful_takeover:
  assumes "lawful g lec w" "lv_history g w = us @ (t, r) # (t0, r0) # h" "HolderIdentity r \<noteq> HolderIdentity r0" "HolderIdentity r0 \<noteq> []"
  shows "t0 + lec_LeaseDuration lec \<le> t"
proof -
  have "history_ok lease skew (us @ h) \<Longrightarrow> history_ok lease skew h" for lease skew h by (induction us) auto
  with assms show ?thesis by (fastforce simp: lawful_def)
qed

end
