(* ===== verification/Config_Map_Lock.thy ===== *)
theory Config_Map_Lock
  imports Lease_Safety
begin

text \<open>
  The lock of the leader election: \<open>ConfigMapLock\<close>
  (\<open>resourcelock/configmaplock.go\<close> of client-go), which keeps the record of the election as JSON in an
  annotation of a config map. The config maps of the API server are functions on a world
  (\<open>configmaps\<close>), the encoding is a parameter (\<open>json\<close>), and so are clock and timers (\<open>timers\<close>). The
  world of the election is that world together with the config map that the lock remembers.

  Locale \<open>configmap_api\<close> is the contract of the API server: a read returns a version that was
  stored, an update with the resource version of an outdated one is refused. Under it the lock meets
  the contract of the election (the \<open>sublocale\<close>).
\<close>

section \<open>The lock\<close>

definition LeaderElectionRecordAnnotationKey :: string where
  "LeaderElectionRecordAnnotationKey = ''control-plane.alpha.kubernetes.io/leader''"

record ConfigMap =
  cm_Namespace :: string
  cm_Name :: string
  cm_ResourceVersion :: nat
  cm_Annotations :: gomap

definition zero_ConfigMap :: ConfigMap where
  "zero_ConfigMap = \<lparr>cm_Namespace = [], cm_Name = [], cm_ResourceVersion = 0, cm_Annotations = None\<rparr>"

text \<open>The client returns a config map beside every error.\<close>

record 'w configmaps =
  cms_Get :: "string \<Rightarrow> string \<Rightarrow> 'w \<Rightarrow> 'w \<times> ConfigMap \<times> goerr option"
  cms_Create :: "string \<Rightarrow> ConfigMap \<Rightarrow> 'w \<Rightarrow> 'w \<times> ConfigMap \<times> goerr option"
  cms_Update :: "string \<Rightarrow> ConfigMap \<Rightarrow> 'w \<Rightarrow> 'w \<times> ConfigMap \<times> goerr option"

record json =
  Marshal :: "LeaderElectionRecord \<Rightarrow> goerr + string"
  Unmarshal :: "string \<Rightarrow> goerr + LeaderElectionRecord"

record 'w ConfigMapLock =
  cml_Namespace :: string
  cml_Name :: string
  cml_Client :: "'w configmaps"
  cml_json :: json

type_synonym 'w locked = "'w \<times> ConfigMap option"

definition cml_Get :: "'w ConfigMapLock \<Rightarrow> 'w locked \<Rightarrow> 'w locked \<times> (goerr + LeaderElectionRecord)" where
  "cml_Get l s = (case s of (w, _) \<Rightarrow>
     (case cms_Get (cml_Client l) (cml_Namespace l) (cml_Name l) w of
        (w', c, Some err) \<Rightarrow> ((w', Some c), Inl err)
      | (w', c, None) \<Rightarrow>
          (let anns = (case cm_Annotations c of None \<Rightarrow> Map.empty | Some m \<Rightarrow> m);
               s' = (w', Some (c\<lparr>cm_Annotations := Some anns\<rparr>))
           in (case anns LeaderElectionRecordAnnotationKey of
                 None \<Rightarrow> (s', Inr zero_record)
               | Some recordBytes \<Rightarrow> (s', Unmarshal (cml_json l) recordBytes)))))"

definition cml_Create :: "'w ConfigMapLock \<Rightarrow> LeaderElectionRecord \<Rightarrow> 'w locked \<Rightarrow> 'w locked \<times> goerr option" where
  "cml_Create l ler s = (case s of (w, cm) \<Rightarrow>
     (case Marshal (cml_json l) ler of
        Inl err \<Rightarrow> ((w, cm), Some err)
      | Inr recordBytes \<Rightarrow>
          (case cms_Create (cml_Client l) (cml_Namespace l)
             \<lparr>cm_Namespace = cml_Namespace l, cm_Name = cml_Name l, cm_ResourceVersion = 0,
              cm_Annotations = Some [LeaderElectionRecordAnnotationKey \<mapsto> recordBytes]\<rparr> w of
             (w', c, err) \<Rightarrow> ((w', Some c), err))))"

definition cml_Update :: "'w ConfigMapLock \<Rightarrow> LeaderElectionRecord \<Rightarrow> 'w locked \<Rightarrow> 'w locked \<times> unit result" where
  "cml_Update l ler s = (case s of
      (w, None) \<Rightarrow> ((w, None), Err (ErrorString ''endpoint not initialized, call get or create first''))
    | (w, Some c) \<Rightarrow>
     (case Marshal (cml_json l) ler of
        Inl err \<Rightarrow> ((w, Some c), Err err)
      | Inr recordBytes \<Rightarrow>
          (case gomap_set LeaderElectionRecordAnnotationKey recordBytes (cm_Annotations c) of
             Inl p \<Rightarrow> ((w, Some c), Panic p)
           | Inr m \<Rightarrow>
               (case cms_Update (cml_Client l) (cml_Namespace l) (c\<lparr>cm_Annotations := m\<rparr>) w of
                  (w', c', None) \<Rightarrow> ((w', Some c'), OK ())
                | (w', c', Some err) \<Rightarrow> ((w', Some c'), Err err)))))"

text \<open>
  The election on this lock. It calls \<open>Update\<close> only after a successful \<open>Get\<close>, when \<open>Update\<close> does not
  panic (\<open>Update_after_Get\<close>), so what becomes of a panic does not matter.
\<close>

record 'w timers =
  tm_Now :: "'w \<Rightarrow> 'w \<times> int"
  tm_pause :: "int \<Rightarrow> 'w \<Rightarrow> 'w"
  tm_poller :: "int \<Rightarrow> int \<Rightarrow> 'w \<Rightarrow> 'w \<times> int"
  tm_receive :: "int \<Rightarrow> 'w \<Rightarrow> 'w \<times> bool"
  tm_started :: "'w \<Rightarrow> 'w"
  tm_stopped :: "'w \<Rightarrow> 'w"

definition in_world :: "('w \<Rightarrow> 'w \<times> 'a) \<Rightarrow> 'w locked \<Rightarrow> 'w locked \<times> 'a" where
  "in_world m s = (case s of (w, cm) \<Rightarrow> (case m w of (w', a) \<Rightarrow> ((w', cm), a)))"

definition lock_env :: "'w ConfigMapLock \<Rightarrow> 'w timers \<Rightarrow> 'w locked election_env" where
  "lock_env l t =
     \<lparr>lock_Get = cml_Get l, lock_Create = cml_Create l,
      lock_Update = (\<lambda>ler s. case cml_Update l ler s of
          (s', OK _) \<Rightarrow> (s', None)
        | (s', Err err) \<Rightarrow> (s', Some err)
        | (s', Panic p) \<Rightarrow> (s', Some (ErrorString ''panic''))),
      el_Now = in_world (tm_Now t), el_pause = (\<lambda>d. apfst (tm_pause t d)),
      el_poller = (\<lambda>period timeout. in_world (tm_poller t period timeout)),
      el_receive = (\<lambda>ch. in_world (tm_receive t ch)),
      OnStartedLeading = apfst (tm_started t), OnStoppedLeading = apfst (tm_stopped t), OnNewLeader = None\<rparr>"

lemma Update_after_Get:
  assumes "cml_Get l s = (s', Inr r)"
  shows "\<exists>c m. snd s' = Some c \<and> cm_Annotations c = Some m"
    and "snd s'' = snd s' \<Longrightarrow> snd (cml_Update l ler s'') \<noteq> Panic p"
proof -
  show ex: "\<exists>c m. snd s' = Some c \<and> cm_Annotations c = Some m"
    using assms by (auto simp: cml_Get_def Let_def split: prod.splits option.splits)
  show "snd (cml_Update l ler s'') \<noteq> Panic p" if same: "snd s'' = snd s'"
  proof -
    from ex same obtain c m where "snd s'' = Some c" "cm_Annotations c = Some m" by auto
    then show ?thesis
      by (cases s'') (auto simp: cml_Update_def gomap_set_def split: prod.splits sum.splits option.splits)
  qed
qed

text \<open>What the calls of the client and the timers keep of the world, the election on the lock keeps.\<close>

definition lock_keeps :: "('w \<Rightarrow> bool) \<Rightarrow> 'w configmaps \<Rightarrow> 'w timers \<Rightarrow> bool" where
  "lock_keeps P cms t \<longleftrightarrow> (\<forall>w. P w \<longrightarrow> (\<forall>ns name. P (fst (cms_Get cms ns name w))) \<and> (\<forall>ns c. P (fst (cms_Create cms ns c w))) \<and>
     (\<forall>ns c. P (fst (cms_Update cms ns c w))) \<and> P (fst (tm_Now t w)) \<and> (\<forall>d. P (tm_pause t d w)) \<and> P (tm_started t w))"

lemma lock_keepsD:
  assumes "lock_keeps P cms t" "P w"
  shows "cms_Get cms ns name w = (w', x) \<Longrightarrow> P w'" "cms_Create cms ns c w = (w', x) \<Longrightarrow> P w'"
    and "cms_Update cms ns c w = (w', x) \<Longrightarrow> P w'" "tm_Now t w = (w', i) \<Longrightarrow> P w'"
    and "P (tm_pause t d w)" "P (tm_started t w)"
proof -
  have "P (fst (cms_Get cms ns name w))" "P (fst (cms_Create cms ns c w))" "P (fst (cms_Update cms ns c w))"
    "P (fst (tm_Now t w))" and last: "P (tm_pause t d w)" "P (tm_started t w)"
    using assms unfolding lock_keeps_def by blast+
  then show "cms_Get cms ns name w = (w', x) \<Longrightarrow> P w'" "cms_Create cms ns c w = (w', x) \<Longrightarrow> P w'"
    "cms_Update cms ns c w = (w', x) \<Longrightarrow> P w'" "tm_Now t w = (w', i) \<Longrightarrow> P w'" by simp_all
  show "P (tm_pause t d w)" "P (tm_started t w)" by (fact last)+
qed

lemma cml_keeps:
  assumes "lock_keeps P (cml_Client l) t" "P (fst s)"
  shows "P (fst (fst (cml_Get l s)))" "P (fst (fst (cml_Create l r s)))" "P (fst (fst (cml_Update l r s)))"
proof -
  obtain w cm where s: "s = (w, cm)" by force
  note k = lock_keepsD [OF assms(1) assms(2) [unfolded s fst_conv]]
  show "P (fst (fst (cml_Get l s)))"
    by (auto simp: s cml_Get_def Let_def split: prod.split option.split dest: k(1))
  show "P (fst (fst (cml_Create l r s)))"
    using assms(2) by (auto simp: s cml_Create_def split: prod.split sum.split dest: k(2))
  show "P (fst (fst (cml_Update l r s)))"
    using assms(2) by (auto simp: s cml_Update_def split: prod.split sum.split option.split dest: k(3))
qed

lemma lock_env_keeps:
  assumes "lock_keeps P (cml_Client l) t"
  shows "election_keeps (P \<circ> fst) (lock_env l t)"
  unfolding election_keeps_def
proof (intro allI impI)
  fix s :: "'a locked" assume p: "(P \<circ> fst) s"
  obtain w cm where s: "s = (w, cm)" by force
  with p have k: "P w" by simp
  have "fst (lock_Update (lock_env l t) r s) = fst (cml_Update l r s)" for r
    by (simp add: lock_env_def split: prod.split result.split)
  then show "(P \<circ> fst) (fst (lock_Get (lock_env l t) s)) \<and> (\<forall>r. (P \<circ> fst) (fst (lock_Create (lock_env l t) r s))) \<and>
      (\<forall>r. (P \<circ> fst) (fst (lock_Update (lock_env l t) r s))) \<and> (P \<circ> fst) (fst (el_Now (lock_env l t) s)) \<and>
      (\<forall>d. (P \<circ> fst) (el_pause (lock_env l t) d s)) \<and> (P \<circ> fst) (OnStartedLeading (lock_env l t) s) \<and>
      (\<forall>f i. OnNewLeader (lock_env l t) = Some f \<longrightarrow> (P \<circ> fst) (f i s))"
    using cml_keeps [OF assms, of s] p lock_keepsD(5,6) [OF assms k]
    by (auto simp: lock_env_def s in_world_def split: prod.split dest: lock_keepsD(4) [OF assms k])
qed

section \<open>The contract of the API server\<close>

text \<open>The config map remembered by the lock gives the version that was read last.\<close>

definition locked_view :: "'w lease_view \<Rightarrow> 'w locked lease_view" where
  "locked_view g = \<lparr>lv_history = lv_history g \<circ> fst, lv_time = lv_time g \<circ> fst,
     lv_read = (\<lambda>s. case snd s of None \<Rightarrow> 0 | Some c \<Rightarrow> cm_ResourceVersion c), lv_skew = lv_skew g, lv_call = lv_call g\<rparr>"

lemma locked_view_sel [simp]:
  "lv_history (locked_view g) (w, cm) = lv_history g w" "lv_time (locked_view g) (w, cm) = lv_time g w"
  "lv_read (locked_view g) (w, cm) = (case cm of None \<Rightarrow> 0 | Some c \<Rightarrow> cm_ResourceVersion c)"
  "lv_skew (locked_view g) = lv_skew g" "lv_call (locked_view g) = lv_call g"
  by (simp_all add: locked_view_def)

lemma locked_relations [simp]:
  "others (locked_view g) lec (w, cm) (w', cm') = others g lec w w'"
  "puts (locked_view g) lec r (w, cm) (w', cm') = puts g lec r w w'"
  "brief (locked_view g) (w, cm) (w', cm') = brief g w w'"
  "lawful (locked_view g) lec (w, cm) = lawful g lec w"
  by (simp_all add: others_def puts_def brief_def lawful_def)

text \<open>The annotation of a config map says that the record is \<open>r\<close>.\<close>

definition announces :: "json \<Rightarrow> ConfigMap \<Rightarrow> LeaderElectionRecord \<Rightarrow> bool" where
  "announces js c r \<longleftrightarrow> (\<exists>m s. cm_Annotations c = Some m \<and> m LeaderElectionRecordAnnotationKey = Some s \<and> Marshal js r = Inr s)"

locale configmap_api =
  fixes l :: "'w ConfigMapLock" and t :: "'w timers" and lec :: LeaderElectionConfig and g :: "'w lease_view"
  assumes lease_pos': "0 < lec_LeaseDuration lec" and identity': "lec_Identity lec \<noteq> []"
    and marshal: "\<exists>s. Marshal (cml_json l) r = Inr s"
    and unmarshal: "Marshal (cml_json l) r = Inr s \<Longrightarrow> Unmarshal (cml_json l) s = Inr (stored r)"
    and cms_get: "cms_Get (cml_Client l) (cml_Namespace l) (cml_Name l) w = (w', c, err) \<Longrightarrow> others g lec w w' \<and> brief g w w'"
    and cms_got: "lawful g lec w \<Longrightarrow> cms_Get (cml_Client l) (cml_Namespace l) (cml_Name l) w = (w', c, None) \<Longrightarrow>
      \<exists>us i r h. lv_history g w' = us @ (i, r) # h \<and> stored r = r \<and> cm_ResourceVersion c = Suc (length h) \<and>
        (announces (cml_json l) c r \<or> r = zero_record \<and> \<not> gomap_has (cm_Annotations c) LeaderElectionRecordAnnotationKey)"
    and cms_create: "cms_Create (cml_Client l) (cml_Namespace l) c w = (w', c', err) \<Longrightarrow> announces (cml_json l) c r \<Longrightarrow>
      brief g w w' \<and> (puts g lec r w w' \<and> lv_history g w = [] \<or> err \<noteq> None \<and> others g lec w w')"
    and cms_update: "cms_Update (cml_Client l) (cml_Namespace l) c w = (w', c', err) \<Longrightarrow> announces (cml_json l) c r \<Longrightarrow>
      brief g w w' \<and>
      ((if stored r = snd (hd (lv_history g w)) then others g lec w w' else puts g lec r w w') \<and>
         lv_history g w \<noteq> [] \<and> cm_ResourceVersion c = length (lv_history g w) \<or>
       err \<noteq> None \<and> others g lec w w')"
    and tm_now: "tm_Now t w = (w', i) \<Longrightarrow> others g lec w w' \<and> brief g w w' \<and>
      lv_time g w \<le> i - lv_skew g (lec_Identity lec) \<and> i - lv_skew g (lec_Identity lec) \<le> lv_time g w'"
    and tm_pause: "others g lec w (tm_pause t d w)"
    and tm_poller: "tm_poller t period timeout w = (w', ch) \<Longrightarrow> others g lec w w' \<and> brief g w w' \<and> ch \<le> lv_time g w' + timeout"
    and tm_receive: "tm_receive t ch w = (w', isOpen) \<Longrightarrow>
      others g lec w w' \<and> lv_time g w' \<le> max (lv_time g w) ch + lv_call g \<and>
      (isOpen \<longrightarrow> lv_time g w' \<le> ch + lv_call g)"
    and tm_started: "others g lec w (tm_started t w) \<and> brief g w (tm_started t w)"
    and tm_stopped: "others g lec w (tm_stopped t w) \<and> brief g w (tm_stopped t w)"
begin

lemma call_time_nonneg: "0 \<le> lv_call g"
proof -
  obtain w' i where "tm_Now t undefined = (w', i)" by force
  from tm_now [OF this] show ?thesis by (simp add: brief_def)
qed

lemma zero_stored: "stored zero_record = zero_record"
  by (simp add: stored_def zero_record_def zero_time_def seconds_def ns_second_def)

lemma cml_get:
  assumes "cml_Get l s = (s', got)"
  shows "others (locked_view g) lec s s' \<and> brief (locked_view g) s s' \<and>
    (\<forall>r. lawful (locked_view g) lec s \<longrightarrow> got = Inr r \<longrightarrow> (\<exists>us i h. lv_history (locked_view g) s' = us @ (i, r) # h \<and> lv_read (locked_view g) s' = Suc (length h)))"
proof -
  obtain w cm where s: "s = (w, cm)" by force
  obtain w' c err where get: "cms_Get (cml_Client l) (cml_Namespace l) (cml_Name l) w = (w', c, err)" by (metis surj_pair)
  note q = cms_get [OF get]
  show ?thesis
  proof (cases err)
    case (Some e)
    with assms get q show ?thesis by (auto simp: s cml_Get_def)
  next
    case None
    show ?thesis
    proof (cases "lawful g lec w")
      case True
      from cms_got [OF True get [unfolded None]] obtain us i r h where r: "lv_history g w' = us @ (i, r) # h" "stored r = r"
        "cm_ResourceVersion c = Suc (length h)"
        and ann: "announces (cml_json l) c r \<or> r = zero_record \<and> \<not> gomap_has (cm_Annotations c) LeaderElectionRecordAnnotationKey"
        by blast
      have "\<exists>m. s' = (w', Some (c\<lparr>cm_Annotations := Some m\<rparr>)) \<and> got = Inr r"
        using ann
      proof
        assume "announces (cml_json l) c r"
        then obtain m b where "cm_Annotations c = Some m" "m LeaderElectionRecordAnnotationKey = Some b" "Marshal (cml_json l) r = Inr b"
          by (auto simp: announces_def)
        with unmarshal [of r b] r(2) assms get None show ?thesis by (auto simp: s cml_Get_def Let_def)
      next
        assume "r = zero_record \<and> \<not> gomap_has (cm_Annotations c) LeaderElectionRecordAnnotationKey"
        with assms get None show ?thesis
          by (auto simp: s cml_Get_def Let_def gomap_has_def split: option.splits)
      qed
      then obtain m where m: "s' = (w', Some (c\<lparr>cm_Annotations := Some m\<rparr>))" "got = Inr r" by blast
      have "lv_history (locked_view g) s' = us @ (i, r) # h \<and> lv_read (locked_view g) s' = Suc (length h)"
        using r(1,3) by (simp add: m(1))
      with q m show ?thesis by (auto simp only: s locked_relations sum.inject)
    next
      case False
      have "\<exists>c'. s' = (w', Some c')"
        using assms get None by (auto simp: s cml_Get_def Let_def split: option.splits)
      with q False show ?thesis by (auto simp: s)
    qed
  qed
qed

lemma cml_create:
  assumes "cml_Create l r s = (s', err)"
  shows "brief (locked_view g) s s' \<and>
    (puts (locked_view g) lec r s s' \<and> lv_history (locked_view g) s = [] \<or> err \<noteq> None \<and> others (locked_view g) lec s s')"
proof -
  obtain w cm where s: "s = (w, cm)" by force
  obtain b where b: "Marshal (cml_json l) r = Inr b" using marshal by blast
  let ?c = "\<lparr>cm_Namespace = cml_Namespace l, cm_Name = cml_Name l, cm_ResourceVersion = 0,
      cm_Annotations = Some [LeaderElectionRecordAnnotationKey \<mapsto> b]\<rparr>"
  obtain w' c' e where c: "cms_Create (cml_Client l) (cml_Namespace l) ?c w = (w', c', e)" by (metis surj_pair)
  have "announces (cml_json l) ?c r" by (simp add: announces_def b)
  from cms_create [OF c this] assms c b show ?thesis by (auto simp: s cml_Create_def)
qed

lemma cml_update:
  assumes "lock_Update (lock_env l t) r s = (s', err)"
  shows "brief (locked_view g) s s' \<and>
    ((if stored r = snd (hd (lv_history (locked_view g) s)) then others (locked_view g) lec s s' else puts (locked_view g) lec r s s') \<and>
       lv_history (locked_view g) s \<noteq> [] \<and> lv_read (locked_view g) s = length (lv_history (locked_view g) s) \<or>
     err \<noteq> None \<and> others (locked_view g) lec s s')"
proof -
  obtain w cm where s: "s = (w, cm)" by force
  obtain b where b: "Marshal (cml_json l) r = Inr b" using marshal by blast
  have same: "brief g w w" using call_time_nonneg by (simp add: brief_def)
  show ?thesis
  proof (cases "\<exists>c m. cm = Some c \<and> cm_Annotations c = Some m")
    case False
    then have "s' = s" "err \<noteq> None"
      using assms b by (auto simp: s lock_env_def cml_Update_def gomap_set_def split: option.splits)
    with same show ?thesis by (simp add: s)
  next
    case True
    then obtain c m where cm: "cm = Some c" "cm_Annotations c = Some m" by blast
    let ?c = "c\<lparr>cm_Annotations := Some (m(LeaderElectionRecordAnnotationKey \<mapsto> b))\<rparr>"
    obtain w' c' e where u: "cms_Update (cml_Client l) (cml_Namespace l) ?c w = (w', c', e)" by (metis surj_pair)
    have "announces (cml_json l) ?c r" by (simp add: announces_def b)
    from cms_update [OF u this] have law: "brief g w w' \<and>
      ((if stored r = snd (hd (lv_history g w)) then others g lec w w' else puts g lec r w w') \<and>
         lv_history g w \<noteq> [] \<and> cm_ResourceVersion c = length (lv_history g w) \<or> e \<noteq> None \<and> others g lec w w')" by simp
    have "s' = (w', Some c')" "err = e"
      using assms b cm u by (auto simp: s lock_env_def cml_Update_def gomap_set_def split: option.splits)
    with law show ?thesis by (auto simp: s cm(1))
  qed
qed

end

sublocale configmap_api < lock: lease_lock "lock_env l t" lec "locked_view g"
proof
  show "0 < lec_LeaseDuration lec" "lec_Identity lec \<noteq> []" by (fact lease_pos' identity')+
  show "others (locked_view g) lec s s' \<and> brief (locked_view g) s s' \<and> lv_read (locked_view g) s' = lv_read (locked_view g) s \<and>
      lv_time (locked_view g) s \<le> i - lv_skew (locked_view g) (lec_Identity lec) \<and>
      i - lv_skew (locked_view g) (lec_Identity lec) \<le> lv_time (locked_view g) s'"
    if "el_Now (lock_env l t) s = (s', i)" for s s' i
    using that tm_now by (cases s) (auto simp: lock_env_def in_world_def split: prod.splits)
  show "others (locked_view g) lec s (el_pause (lock_env l t) d s)" for s d
    using tm_pause by (cases s) (simp add: lock_env_def)
  show "others (locked_view g) lec s s' \<and> brief (locked_view g) s s' \<and> ch \<le> lv_time (locked_view g) s' + timeout"
    if "el_poller (lock_env l t) period timeout s = (s', ch)" for s s' period timeout ch
    using that tm_poller by (cases s) (auto simp: lock_env_def in_world_def split: prod.splits)
  show "others (locked_view g) lec s s' \<and> lv_time (locked_view g) s' \<le> max (lv_time (locked_view g) s) ch + lv_call (locked_view g) \<and>
      (isOpen \<longrightarrow> lv_time (locked_view g) s' \<le> ch + lv_call (locked_view g))"
    if "el_receive (lock_env l t) ch s = (s', isOpen)" for s s' ch isOpen
    using that tm_receive by (cases s) (auto simp: lock_env_def in_world_def split: prod.splits)
  show "others (locked_view g) lec s (OnStartedLeading (lock_env l t) s) \<and> brief (locked_view g) s (OnStartedLeading (lock_env l t) s)"
    "others (locked_view g) lec s (OnStoppedLeading (lock_env l t) s) \<and> brief (locked_view g) s (OnStoppedLeading (lock_env l t) s)" for s
    using tm_started tm_stopped by (cases s; simp add: lock_env_def)+
qed (use cml_get cml_create cml_update in \<open>auto simp: lock_env_def\<close>)

context configmap_api
begin

lemma lease_lock_here: "lease_lock (lock_env l t) lec (locked_view g)" by (rule lock.lease_lock_axioms)

end

lemmas configmap_lease_lock = configmap_api.lease_lock_here

end
