(* ===== verification/Lease_Store.thy ===== *)
theory Lease_Store
  imports Config_Map_Lock Decimal
begin

text \<open>
  An executable API server with the config map of the lock, which meets the contract
  \<open>configmap_api\<close>, and on it the rules of the election as a property.
\<close>

section \<open>An executable lock\<close>

text \<open>
  A lock that meets the contract. Each call takes the next event of a script: how long the call
  takes, what other candidates try to write meanwhile (they succeed if the rules allow it), and if
  the call itself fails, before or after it has had its effect. A poller ticks as the timers of the
  library do; with an empty script calls take no time and succeed.
\<close>

datatype lease_fault = NoFault | Refused | AnswerLost

record lease_event =
  ev_delay :: int
  ev_writes :: "LeaderElectionRecord list"
  ev_fault :: lease_fault

record lease_store =
  ls_history :: lease_history
  ls_time :: int
  ls_read :: nat
  ls_script :: "lease_event list"

record lease_rules =
  lr_config :: LeaderElectionConfig
  lr_skew :: "string \<Rightarrow> int"
  lr_call :: int

fun ls_event :: "lease_event list \<Rightarrow> lease_event" where
  "ls_event [] = \<lparr>ev_delay = 0, ev_writes = [], ev_fault = NoFault\<rparr>"
| "ls_event (v # vs) = v"

text \<open>The writes of others at the instant \<open>t\<close>.\<close>

primrec ls_others :: "lease_rules \<Rightarrow> int \<Rightarrow> LeaderElectionRecord list \<Rightarrow> lease_history \<Rightarrow> lease_history" where
  "ls_others lr t [] h = h"
| "ls_others lr t (r # rs) h = ls_others lr t rs
     (if version_ok (lec_LeaseDuration (lr_config lr)) (lr_skew lr) (t, stored r) \<and>
         lease_write (lec_LeaseDuration (lr_config lr)) (t, stored r) h \<and> HolderIdentity r \<noteq> lec_Identity (lr_config lr)
      then (t, stored r) # h else h)"

definition ls_call :: "lease_rules \<Rightarrow> lease_store \<Rightarrow> lease_store" where
  "ls_call lr w =
     (let ev = ls_event (ls_script w); t = ls_time w + max 0 (min (ev_delay ev) (lr_call lr))
      in w\<lparr>ls_time := t, ls_history := ls_others lr t (ev_writes ev) (ls_history w), ls_script := tl (ls_script w)\<rparr>)"

definition ls_wait :: "int \<Rightarrow> lease_store \<Rightarrow> lease_store" where
  "ls_wait t w = w\<lparr>ls_time := max (ls_time w) t\<rparr>"

definition ls_Get :: "lease_rules \<Rightarrow> lease_store \<Rightarrow> lease_store \<times> (goerr + LeaderElectionRecord)" where
  "ls_Get lr w = (let w' = ls_call lr w in
     if ev_fault (ls_event (ls_script w)) \<noteq> NoFault then (w', Inl (StatusError ''Timeout'' []))
     else (case ls_history w' of
         [] \<Rightarrow> (w', Inl (StatusError ''NotFound'' []))
       | v # h \<Rightarrow> (w'\<lparr>ls_read := Suc (length h)\<rparr>, Inr (snd v))))"

definition ls_write :: "LeaderElectionRecord \<Rightarrow> lease_store \<Rightarrow> lease_store" where
  "ls_write r w = w\<lparr>ls_history := (ls_time w, stored r) # ls_history w\<rparr>"

definition ls_Create :: "lease_rules \<Rightarrow> LeaderElectionRecord \<Rightarrow> lease_store \<Rightarrow> lease_store \<times> goerr option" where
  "ls_Create lr r w = (let w' = ls_call lr w in
     if ls_history w' \<noteq> [] then (w', Some (StatusError ''AlreadyExists'' []))
     else (case ev_fault (ls_event (ls_script w)) of
         NoFault \<Rightarrow> (ls_write r w', None)
       | Refused \<Rightarrow> (w', Some (StatusError ''Timeout'' []))
       | AnswerLost \<Rightarrow> (ls_write r w', Some (StatusError ''Timeout'' []))))"

definition ls_Update :: "lease_rules \<Rightarrow> LeaderElectionRecord \<Rightarrow> lease_store \<Rightarrow> lease_store \<times> goerr option" where
  "ls_Update lr r w = (let w' = ls_call lr w in
     if ls_history w = [] \<or> ls_history w' \<noteq> ls_history w \<or> ls_read w \<noteq> length (ls_history w)
     then (w', Some (StatusError ''Conflict'' []))
     else let w2 = (if stored r = snd (hd (ls_history w)) then w' else ls_write r w') in
       (case ev_fault (ls_event (ls_script w)) of
         NoFault \<Rightarrow> (w2, None)
       | Refused \<Rightarrow> (w', Some (StatusError ''Timeout'' []))
       | AnswerLost \<Rightarrow> (w2, Some (StatusError ''Timeout'' []))))"

definition ls_receive :: "lease_rules \<Rightarrow> int \<Rightarrow> lease_store \<Rightarrow> lease_store \<times> bool" where
  "ls_receive lr ch w =
     (let t = ls_time w + max 0 (lec_RetryPeriod (lr_config lr))
      in if t < ch then (ls_call lr (ls_wait t w), True) else (ls_call lr (ls_wait ch w), False))"

text \<open>An encoding of records, for the parameter that is JSON in the code.\<close>

definition int_text :: "int \<Rightarrow> string" where
  "int_text i = (if i < 0 then CHR ''-'' # print_nat (nat (- i)) else print_nat (nat i))"

definition text_int :: "string \<Rightarrow> int option" where
  "text_int s = (if s \<noteq> [] \<and> hd s = CHR ''-'' then map_option (\<lambda>n. - int n) (parse_digits (tl s))
     else map_option int (parse_digits s))"

definition encode_record :: "LeaderElectionRecord \<Rightarrow> string" where
  "encode_record r =
     int_text (LeaseDurationSeconds r) @ CHR '';'' # int_text (AcquireTime r div ns_second) @ CHR '';'' #
     int_text (RenewTime r div ns_second) @ CHR '';'' # int_text (LeaderTransitions r) @ CHR '';'' # HolderIdentity r"

definition cut :: "string \<Rightarrow> string \<times> string" where
  "cut s = (takeWhile (\<lambda>c. c \<noteq> CHR '';'') s, tl (dropWhile (\<lambda>c. c \<noteq> CHR '';'') s))"

definition decode_record :: "string \<Rightarrow> goerr + LeaderElectionRecord" where
  "decode_record s =
     (case cut s of (a, s1) \<Rightarrow> (case cut s1 of (b, s2) \<Rightarrow> (case cut s2 of (c, s3) \<Rightarrow> (case cut s3 of (d, holder) \<Rightarrow>
     (case (text_int a, text_int b, text_int c, text_int d) of
        (Some lease, Some begun, Some renewal, Some transitions) \<Rightarrow>
          Inr \<lparr>HolderIdentity = holder, LeaseDurationSeconds = lease, AcquireTime = begun * ns_second,
            RenewTime = renewal * ns_second, LeaderTransitions = transitions\<rparr>
      | _ \<Rightarrow> Inl (ErrorString ''malformed record''))))))"

definition record_json :: json where
  "record_json = \<lparr>Marshal = (\<lambda>r. Inr (encode_record r)), Unmarshal = decode_record\<rparr>"

text \<open>The config maps of the server. It holds one; its resource version counts its versions.\<close>

definition ls_map :: "lease_store \<Rightarrow> ConfigMap" where
  "ls_map w = (case ls_history w of
      [] \<Rightarrow> zero_ConfigMap
    | v # h \<Rightarrow> \<lparr>cm_Namespace = ''ns'', cm_Name = ''lock'', cm_ResourceVersion = Suc (length h),
        cm_Annotations = Some [LeaderElectionRecordAnnotationKey \<mapsto> encode_record (snd v)]\<rparr>)"

definition ls_decode :: "ConfigMap \<Rightarrow> LeaderElectionRecord" where
  "ls_decode c = (case decode_record (gomap_get (cm_Annotations c) LeaderElectionRecordAnnotationKey) of
      Inl _ \<Rightarrow> zero_record | Inr r \<Rightarrow> r)"

definition ls_answer :: "lease_store \<times> goerr option \<Rightarrow> lease_store \<times> ConfigMap \<times> goerr option" where
  "ls_answer r = (case r of (w, err) \<Rightarrow> (w, if err = None then ls_map w else zero_ConfigMap, err))"

definition ls_maps :: "lease_rules \<Rightarrow> lease_store configmaps" where
  "ls_maps lr = \<lparr>
     cms_Get = (\<lambda>_ _ w. case ls_Get lr w of
         (w', Inl err) \<Rightarrow> (w', zero_ConfigMap, Some err) | (w', Inr _) \<Rightarrow> (w', ls_map w', None)),
     cms_Create = (\<lambda>_ c w. ls_answer (ls_Create lr (ls_decode c) w)),
     cms_Update = (\<lambda>_ c w. ls_answer (ls_Update lr (ls_decode c) (w\<lparr>ls_read := cm_ResourceVersion c\<rparr>)))\<rparr>"

definition ls_lock :: "lease_rules \<Rightarrow> string \<Rightarrow> string \<Rightarrow> lease_store ConfigMapLock" where
  "ls_lock lr ns name = \<lparr>cml_Namespace = ns, cml_Name = name, cml_Client = ls_maps lr, cml_json = record_json\<rparr>"

definition ls_timers :: "lease_rules \<Rightarrow> lease_store timers" where
  "ls_timers lr =
     \<lparr>tm_Now = (\<lambda>w. let w' = ls_call lr w in (w', ls_time w' + lr_skew lr (lec_Identity (lr_config lr)))),
      tm_pause = (\<lambda>d w. ls_call lr (ls_wait (ls_time w + d) w)),
      tm_poller = (\<lambda>period timeout w. let w' = ls_call lr w in (w', ls_time w' + timeout)),
      tm_receive = ls_receive lr, tm_started = id, tm_stopped = id\<rparr>"

definition ls_view :: "lease_rules \<Rightarrow> lease_store lease_view" where
  "ls_view lr = \<lparr>lv_history = ls_history, lv_time = ls_time, lv_read = ls_read, lv_skew = lr_skew lr, lv_call = lr_call lr\<rparr>"

lemma ls_others_foreign:
  "\<exists>vs. ls_others lr t rs h = vs @ h \<and> (\<forall>v\<in>set vs. fst v = t) \<and>
     foreign (lec_LeaseDuration (lr_config lr)) (lr_skew lr) (lec_Identity (lr_config lr)) vs h"
proof (induction rs arbitrary: h)
  case (Cons r rs)
  show ?case
  proof (cases "version_ok (lec_LeaseDuration (lr_config lr)) (lr_skew lr) (t, stored r) \<and>
      lease_write (lec_LeaseDuration (lr_config lr)) (t, stored r) h \<and> HolderIdentity r \<noteq> lec_Identity (lr_config lr)")
    case True
    from Cons [of "(t, stored r) # h"] obtain vs where
      "ls_others lr t rs ((t, stored r) # h) = vs @ (t, stored r) # h" "\<forall>v\<in>set vs. fst v = t"
      "foreign (lec_LeaseDuration (lr_config lr)) (lr_skew lr) (lec_Identity (lr_config lr)) vs ((t, stored r) # h)"
      by blast
    with True show ?thesis by (intro exI [of _ "vs @ [(t, stored r)]"]) (auto simp: foreign_append)
  qed (use Cons [of h] in auto)
qed simp

lemma ls_call_others:
  assumes "0 \<le> lr_call lr"
  shows "others (ls_view lr) (lr_config lr) w (ls_call lr w) \<and> brief (ls_view lr) w (ls_call lr w) \<and> ls_read (ls_call lr w) = ls_read w"
proof -
  let ?t = "ls_time w + max 0 (min (ev_delay (ls_event (ls_script w))) (lr_call lr))"
  from ls_others_foreign [of lr ?t "ev_writes (ls_event (ls_script w))" "ls_history w"] assms show ?thesis
    by (auto simp: others_def brief_def ls_view_def ls_call_def Let_def)
qed

lemma ls_wait_others: "others (ls_view lr) lec w (ls_wait t w)" "ls_time (ls_wait t w) = max (ls_time w) t"
  by (simp_all add: others_def ls_view_def ls_wait_def)

lemma ls_write_puts:
  assumes "ls_history w' = ls_history w" "ls_time w \<le> ls_time w'"
  shows "puts (ls_view lr) lec r w (ls_write r w')"
  using assms unfolding puts_def
  by (intro exI [of _ "ls_time w'"] exI [of _ "[]"]) (simp add: ls_view_def ls_write_def)

lemma ls_call_time: "0 \<le> lr_call lr \<Longrightarrow> ls_time w \<le> ls_time (ls_call lr w) \<and> ls_time (ls_call lr w) \<le> ls_time w + lr_call lr"
  using ls_call_others [of lr w] by (simp add: others_def brief_def ls_view_def)

lemma ls_Create_contract:
  assumes "0 \<le> lr_call lr" "ls_Create lr r w = (w', err)"
  shows "brief (ls_view lr) w w' \<and> (puts (ls_view lr) (lr_config lr) r w w' \<and> ls_history w = [] \<or>
    err \<noteq> None \<and> others (ls_view lr) (lr_config lr) w w')"
proof -
  note c = ls_call_others [OF assms(1), of w]
  have b: "brief (ls_view lr) w (ls_write r (ls_call lr w))"
    using c by (simp add: brief_def ls_view_def ls_write_def)
  show ?thesis
  proof (cases "ls_history (ls_call lr w) = []")
    case True
    with c have h: "ls_history w = []" by (simp add: others_def ls_view_def)
    with True have "puts (ls_view lr) (lr_config lr) r w (ls_write r (ls_call lr w))"
      using ls_call_time [OF assms(1), of w] by (intro ls_write_puts) simp_all
    with assms(2) True b c h show ?thesis by (auto simp: ls_Create_def Let_def split: lease_fault.splits)
  next
    case False
    with assms(2) have "w' = ls_call lr w" "err \<noteq> None" by (auto simp: ls_Create_def Let_def)
    with c show ?thesis by simp
  qed
qed

lemma ls_Update_contract:
  assumes "0 \<le> lr_call lr" "ls_Update lr r w = (w', err)"
  shows "brief (ls_view lr) w w' \<and>
    ((if stored r = snd (hd (ls_history w)) then others (ls_view lr) (lr_config lr) w w' else puts (ls_view lr) (lr_config lr) r w w') \<and>
       ls_history w \<noteq> [] \<and> ls_read w = length (ls_history w) \<or> err \<noteq> None \<and> others (ls_view lr) (lr_config lr) w w')"
proof -
  note c = ls_call_others [OF assms(1), of w]
  have b: "brief (ls_view lr) w (ls_write r (ls_call lr w))"
    using c by (simp add: brief_def ls_view_def ls_write_def)
  show ?thesis
  proof (cases "ls_history w = [] \<or> ls_history (ls_call lr w) \<noteq> ls_history w \<or> ls_read w \<noteq> length (ls_history w)")
    case True
    with assms(2) have "w' = ls_call lr w" "err \<noteq> None" by (auto simp: ls_Update_def Let_def)
    with c show ?thesis by simp
  next
    case False
    then have "puts (ls_view lr) (lr_config lr) r w (ls_write r (ls_call lr w))"
      using ls_call_time [OF assms(1), of w] by (intro ls_write_puts) simp_all
    with assms(2) False b c show ?thesis
      by (auto simp: ls_Update_def Let_def split: if_splits lease_fault.splits)
  qed
qed

lemma ls_Get_contract:
  assumes "0 \<le> lr_call lr" "ls_Get lr w = (w', got)"
  shows "others (ls_view lr) (lr_config lr) w w' \<and> brief (ls_view lr) w w' \<and>
    (\<forall>r. got = Inr r \<longrightarrow> (\<exists>us t h. ls_history w' = us @ (t, r) # h \<and> ls_read w' = Suc (length h)))"
proof -
  note c = ls_call_others [OF assms(1), of w]
  have up: "others (ls_view lr) (lr_config lr) w (w1\<lparr>ls_read := n\<rparr>) = others (ls_view lr) (lr_config lr) w w1"
    "brief (ls_view lr) w (w1\<lparr>ls_read := n\<rparr>) = brief (ls_view lr) w w1" for w1 n
    by (simp_all add: others_def brief_def ls_view_def)
  show ?thesis
  proof (cases "ls_history (ls_call lr w)")
    case Nil
    with assms(2) c show ?thesis by (auto simp: ls_Get_def Let_def split: if_splits)
  next
    case (Cons v h)
    obtain t r where v: "v = (t, r)" by force
    show ?thesis
    proof (cases "ev_fault (ls_event (ls_script w)) = NoFault")
      case True
      with assms(2) Cons v have eq: "w' = (ls_call lr w)\<lparr>ls_read := Suc (length h)\<rparr>" "got = Inr r"
        by (simp_all add: ls_Get_def Let_def)
      have "\<exists>us t' h'. ls_history w' = us @ (t', r) # h' \<and> ls_read w' = Suc (length h')"
        by (intro exI [of _ "[]"] exI [of _ t] exI [of _ h]) (simp add: eq Cons v)
      with eq c up show ?thesis by simp
    next
      case False
      with assms(2) have "w' = ls_call lr w" "got \<noteq> Inr r'" for r' by (auto simp: ls_Get_def Let_def)
      with c show ?thesis by simp
    qed
  qed
qed

lemma ls_receive_contract:
  assumes "0 \<le> lr_call lr" "ls_receive lr ch w = (w', isOpen)"
  shows "others (ls_view lr) (lr_config lr) w w' \<and> ls_time w' \<le> max (ls_time w) ch + lr_call lr \<and>
    (isOpen \<longrightarrow> ls_time w' \<le> ch + lr_call lr)"
proof -
  have "others (ls_view lr) (lr_config lr) w (ls_call lr (ls_wait t w)) \<and>
      ls_time (ls_call lr (ls_wait t w)) \<le> max (ls_time w) t + lr_call lr" for t
    using others_trans [OF ls_wait_others(1) conjunct1 [OF ls_call_others [OF assms(1)]], of w t]
      ls_call_time [OF assms(1), of "ls_wait t w"]
    by (simp add: ls_wait_others(2))
  from this [of ch] this [of "ls_time w + max 0 (lec_RetryPeriod (lr_config lr))"] assms(2) show ?thesis
    by (auto simp: ls_receive_def Let_def split: if_splits)
qed

text \<open>A record is read back as it is stored.\<close>

lemma int_text_plain: "CHR '';'' \<notin> set (int_text i)"
proof -
  have "\<not> is_digit CHR '';''" by (simp add: is_digit_iff)
  then have "CHR '';'' \<notin> set (print_nat n)" for n using print_nat_digits [of n] by (auto simp: list_all_iff)
  then show ?thesis by (simp add: int_text_def)
qed

lemma text_int_text: "text_int (int_text i) = Some i"
proof (cases "i < 0")
  case False
  have "hd (print_nat n) \<noteq> CHR ''-''" for n
    using print_nat_digits [of n] by (cases "print_nat n") (auto simp: is_digit_iff)
  with False show ?thesis by (simp add: int_text_def text_int_def parse_print_nat)
qed (simp add: int_text_def text_int_def parse_print_nat)

lemma cut_int_text: "cut (int_text i @ CHR '';'' # s) = (int_text i, s)"
proof -
  have "CHR '';'' \<notin> set a \<Longrightarrow> cut (a @ CHR '';'' # s) = (a, s)" for a
    by (induction a) (auto simp: cut_def)
  then show ?thesis by (simp add: int_text_plain)
qed

lemma decode_encode: "decode_record (encode_record r) = Inr (stored r)"
  by (cases r) (simp add: decode_record_def encode_record_def cut_int_text text_int_text stored_def seconds_def)

lemma announces_record: "announces record_json c r \<Longrightarrow> ls_decode c = stored r"
  by (auto simp: announces_def record_json_def ls_decode_def gomap_get_def decode_encode)

lemma stored_div: "encode_record (stored r) = encode_record r"
  by (simp add: encode_record_def seconds_def ns_second_def)

lemma puts_stored: "puts g lec (stored r) = puts g lec r"
  by (simp add: puts_def fun_eq_iff)

lemma ls_read_irrelevant:
  "others (ls_view lr) lec (w\<lparr>ls_read := n\<rparr>) w' = others (ls_view lr) lec w w'"
  "puts (ls_view lr) lec r (w\<lparr>ls_read := n\<rparr>) w' = puts (ls_view lr) lec r w w'"
  "brief (ls_view lr) (w\<lparr>ls_read := n\<rparr>) w' = brief (ls_view lr) w w'"
  by (simp_all add: others_def puts_def brief_def ls_view_def)

lemma ls_map_record:
  "ls_history w = (i, r) # h \<Longrightarrow> announces record_json (ls_map w) r \<and> cm_ResourceVersion (ls_map w) = Suc (length h)"
  by (simp add: ls_map_def announces_def record_json_def)

lemma ls_maps_get:
  assumes "0 \<le> lr_call lr" "cms_Get (ls_maps lr) ns name w = (w', c, err)"
  shows "others (ls_view lr) (lr_config lr) w w' \<and> brief (ls_view lr) w w'"
    and "lawful (ls_view lr) (lr_config lr) w \<Longrightarrow> err = None \<Longrightarrow>
      \<exists>us i r h. ls_history w' = us @ (i, r) # h \<and> stored r = r \<and> cm_ResourceVersion c = Suc (length h) \<and> announces record_json c r"
proof -
  obtain got where get: "ls_Get lr w = (w', got)"
    using assms(2) by (auto simp: ls_maps_def split: prod.splits sum.splits)
  show rel: "others (ls_view lr) (lr_config lr) w w' \<and> brief (ls_view lr) w w'"
    using ls_Get_contract [OF assms(1) get] by simp
  assume law: "lawful (ls_view lr) (lr_config lr) w" and err: "err = None"
  from err assms(2) get obtain r where r: "got = Inr r" "c = ls_map w'" by (auto simp: ls_maps_def split: sum.splits)
  from ls_Get_contract [OF assms(1) get] r(1) have "ls_history w' \<noteq> []" by force
  then obtain i r' h where h: "ls_history w' = (i, r') # h" by (metis list.exhaust prod.exhaust)
  have "lawful (ls_view lr) (lr_config lr) w'" using others_lawful [OF _ law] rel by blast
  then have "stored r' = r'" by (simp add: lawful_def ls_view_def h version_ok_def)
  with h ls_map_record [OF h] r(2) show "\<exists>us i r h. ls_history w' = us @ (i, r) # h \<and> stored r = r \<and>
      cm_ResourceVersion c = Suc (length h) \<and> announces record_json c r"
    by (intro exI [of _ "[]"] exI [of _ i] exI [of _ r'] exI [of _ h]) simp
qed

lemma ls_view_sel [simp]:
  "lv_history (ls_view lr) = ls_history" "lv_time (ls_view lr) = ls_time"
  "lv_skew (ls_view lr) = lr_skew lr" "lv_call (ls_view lr) = lr_call lr"
  by (simp_all add: ls_view_def)

lemma ls_configmap_api:
  assumes "0 < lec_LeaseDuration (lr_config lr)" "lec_Identity (lr_config lr) \<noteq> []" "0 \<le> lr_call lr"
  shows "configmap_api (ls_lock lr ns name) (ls_timers lr) (lr_config lr) (ls_view lr)"
proof
  note c = ls_call_others [OF assms(3)] ls_call_time [OF assms(3)]
  show "0 < lec_LeaseDuration (lr_config lr)" "lec_Identity (lr_config lr) \<noteq> []" by fact+
  show "others (ls_view lr) (lr_config lr) w (tm_pause (ls_timers lr) d w)" for w d
    using others_trans [OF ls_wait_others(1) conjunct1 [OF ls_call_others [OF assms(3)]]] by (simp add: ls_timers_def)
  show "others (ls_view lr) (lr_config lr) w w' \<and> brief (ls_view lr) w w' \<and>
      lv_time (ls_view lr) w \<le> t - lv_skew (ls_view lr) (lec_Identity (lr_config lr)) \<and>
      t - lv_skew (ls_view lr) (lec_Identity (lr_config lr)) \<le> lv_time (ls_view lr) w'"
    if "tm_Now (ls_timers lr) w = (w', t)" for w w' t
    using that c [of w] by (auto simp: ls_timers_def ls_view_def Let_def)
  show "others (ls_view lr) (lr_config lr) w w' \<and> brief (ls_view lr) w w' \<and> ch \<le> lv_time (ls_view lr) w' + timeout"
    if "tm_poller (ls_timers lr) period timeout w = (w', ch)" for period timeout w w' ch
    using that c [of w] by (auto simp: ls_timers_def ls_view_def Let_def)
  show "others (ls_view lr) (lr_config lr) w w' \<and> lv_time (ls_view lr) w' \<le> max (lv_time (ls_view lr) w) ch + lv_call (ls_view lr) \<and>
      (isOpen \<longrightarrow> lv_time (ls_view lr) w' \<le> ch + lv_call (ls_view lr))"
    if "tm_receive (ls_timers lr) ch w = (w', isOpen)" for ch w w' isOpen
    using that ls_receive_contract [OF assms(3)] by (simp add: ls_timers_def ls_view_def)
  show "brief (ls_view lr) w w' \<and> (puts (ls_view lr) (lr_config lr) r w w' \<and> lv_history (ls_view lr) w = [] \<or>
      err \<noteq> None \<and> others (ls_view lr) (lr_config lr) w w')"
    if "cms_Create (cml_Client (ls_lock lr ns name)) (cml_Namespace (ls_lock lr ns name)) m w = (w', m', err)"
      "announces (cml_json (ls_lock lr ns name)) m r" for r m m' w w' err
    using that ls_Create_contract [OF assms(3), of "stored r" w w' err]
    by (auto simp: ls_lock_def ls_maps_def ls_answer_def announces_record puts_stored split: prod.splits)
  show "brief (ls_view lr) w w' \<and>
      ((if stored r = snd (hd (lv_history (ls_view lr) w)) then others (ls_view lr) (lr_config lr) w w'
        else puts (ls_view lr) (lr_config lr) r w w') \<and>
       lv_history (ls_view lr) w \<noteq> [] \<and> cm_ResourceVersion m = length (lv_history (ls_view lr) w) \<or>
       err \<noteq> None \<and> others (ls_view lr) (lr_config lr) w w')"
    if "cms_Update (cml_Client (ls_lock lr ns name)) (cml_Namespace (ls_lock lr ns name)) m w = (w', m', err)"
      "announces (cml_json (ls_lock lr ns name)) m r" for r m m' w w' err
    using that ls_Update_contract [OF assms(3), of "stored r" "w\<lparr>ls_read := cm_ResourceVersion m\<rparr>" w' err]
    by (auto simp: ls_lock_def ls_maps_def ls_answer_def announces_record puts_stored ls_read_irrelevant split: prod.splits)
  show "\<exists>s. Marshal (cml_json (ls_lock lr ns name)) r = Inr s" for r by (simp add: ls_lock_def record_json_def)
  show "Unmarshal (cml_json (ls_lock lr ns name)) s = Inr (stored r)" if "Marshal (cml_json (ls_lock lr ns name)) r = Inr s" for r s
    using that decode_encode by (auto simp: ls_lock_def record_json_def)
  show "others (ls_view lr) (lr_config lr) w w' \<and> brief (ls_view lr) w w'"
    if "cms_Get (cml_Client (ls_lock lr ns name)) (cml_Namespace (ls_lock lr ns name)) (cml_Name (ls_lock lr ns name)) w = (w', m, err)"
    for w w' m err
    using ls_maps_get(1) [OF assms(3)] that by (auto simp: ls_lock_def)
  show "\<exists>us i r h. lv_history (ls_view lr) w' = us @ (i, r) # h \<and> stored r = r \<and> cm_ResourceVersion m = Suc (length h) \<and>
      (announces (cml_json (ls_lock lr ns name)) m r \<or> r = zero_record \<and> \<not> gomap_has (cm_Annotations m) LeaderElectionRecordAnnotationKey)"
    if "lawful (ls_view lr) (lr_config lr) w"
      "cms_Get (cml_Client (ls_lock lr ns name)) (cml_Namespace (ls_lock lr ns name)) (cml_Name (ls_lock lr ns name)) w = (w', m, None)"
    for w w' m
    using ls_maps_get(2) [OF assms(3) _ that(1) refl, of ns name w' m] that(2) by (auto simp: ls_lock_def)
qed (use assms(3) in \<open>auto simp: ls_timers_def brief_def ls_view_def\<close>)

text \<open>The configuration of the operator, on a replica \<open>b\<close> whose clock is three seconds ahead.\<close>

definition replica_b :: lease_rules where
  "replica_b = \<lparr>lr_config = \<lparr>lec_Identity = ''b'', lec_LeaseDuration = 90 * ns_second,
      lec_RenewDeadline = 60 * ns_second, lec_RetryPeriod = 30 * ns_second\<rparr>,
     lr_skew = (\<lambda>i. if i = ''b'' then 3 * ns_second else 0), lr_call = ns_second\<rparr>"

definition replica_env :: "lease_store locked election_env" where
  "replica_env = lock_env (ls_lock replica_b ''ns'' ''lock'') (ls_timers replica_b)"

interpretation replica: configmap_api "ls_lock replica_b ''ns'' ''lock''" "ls_timers replica_b" "lr_config replica_b" "ls_view replica_b"
  by (rule ls_configmap_api) (simp_all add: replica_b_def ns_second_def)

section \<open>Properties\<close>

text \<open>
  The replica \<open>a\<close> has led and renews once more when \<open>b\<close> looks at the lock. After a lease without a
  further renewal \<open>b\<close> is elected. Then the API fails, call after call, and \<open>a\<close> tries to take the lock
  back: it cannot before \<open>b\<close> has stopped.
\<close>

definition record_a :: "int \<Rightarrow> int \<Rightarrow> LeaderElectionRecord" where
  "record_a s transitions = \<lparr>HolderIdentity = ''a'', LeaseDurationSeconds = 90, AcquireTime = 0, RenewTime = s * ns_second,
     LeaderTransitions = transitions\<rparr>"

definition failing_lock :: lease_store where
  "failing_lock = \<lparr>ls_history = [(0, record_a 0 0)], ls_time = 10 * ns_second, ls_read = 0, ls_script =
     [ls_event [], \<lparr>ev_delay = ns_second, ev_writes = [record_a 11 0], ev_fault = NoFault\<rparr>] @ replicate 12 (ls_event []) @
     replicate 9 \<lparr>ev_delay = ns_second, ev_writes = [record_a 100 2], ev_fault = Refused\<rparr>\<rparr>"

text \<open>
  C11: The election follows its own rules. Whatever the lock answers and wherever it is observed, the
  whole history of the lock, with the versions this replica has written, stays lawful: a version
  is taken over only when it is a whole lease old, every take-over counts one transition more, and a
  renewal is at a later second.
\<close>

theorem election_keeps_rules:
  assumes "lease_lock e lec g" "lawful g lec w" "RunOrDie k m n e lec w = Inr ((w', le'), stage)"
  shows "lawful g lec w' \<and> (\<forall>us t r t0 r0 h. lv_history g w' = us @ (t, r) # (t0, r0) # h \<and>
     HolderIdentity r \<noteq> HolderIdentity r0 \<and> HolderIdentity r0 \<noteq> [] \<longrightarrow> t0 + lec_LeaseDuration lec \<le> t)"
proof -
  have "LeaderElector_Run k m n e lec (w, new_elector) = ((w', le'), stage)"
    using assms(3) by (auto simp: RunOrDie_def NewLeaderElector_def split: if_splits)
  from lease_lock.Run_lawful [OF assms(1) this assms(2) lease_lock.new_elector_observed [OF assms(1)]]
  have "lawful g lec w'" by simp
  then show ?thesis by (blast intro: lawful_takeover)
qed

theorem election_keeps_rules_witness:
  "case RunOrDie 4 3 5 replica_env (lr_config replica_b) (failing_lock, None) of
     Inl _ \<Rightarrow> False
   | Inr ((w', _), _) \<Rightarrow> lawful (locked_view (ls_view replica_b)) (lr_config replica_b) w' \<and>
       map (HolderIdentity \<circ> snd) (ls_history (fst w')) = [''b'', ''a'', ''a'']"
proof -
  let ?lec = "lr_config replica_b" and ?g = "locked_view (ls_view replica_b)"
  let ?r = "LeaderElector_Run 4 3 5 replica_env ?lec ((failing_lock, None), new_elector)"
  have "lawful ?g ?lec (failing_lock, None)" by code_simp
  moreover have run: "RunOrDie 4 3 5 replica_env ?lec (failing_lock, None) = Inr ((fst (fst ?r), snd (fst ?r)), snd ?r)"
    by (simp add: RunOrDie_def NewLeaderElector_def replica_b_def ns_second_def)
  ultimately have "lawful ?g ?lec (fst (fst ?r))"
    using election_keeps_rules [OF replica.lock.lease_lock_axioms, folded replica_env_def] by blast
  moreover have "map (HolderIdentity \<circ> snd) (ls_history (fst (fst (fst ?r)))) = [''b'', ''a'', ''a'']" by code_simp
  ultimately show ?thesis by (simp add: run case_prod_beta)
qed

end
