(* ===== verification/Flags.thy ===== *)
theory Flags
  imports Decimal "HOL-Library.Word"
begin

text \<open>
  Command line flags: what the two programs use of Go's package \<open>flag\<close>, in the version 1.8 that
  the project is built with, and \<open>flagutil.SetFlagsFromEnv\<close>
  (\<open>src/vendor/github.com/coreos/pkg/flagutil/env.go\<close>), which takes the flags the command line does
  not set from the environment.

  A flag set is the list of its flags in the order of their names, which is the order \<open>VisitAll\<close>
  goes through them, with their current values, and the names of those that have been set. The
  flags that glog adds are known by their values only (\<open>OtherValue\<close>: the text that was set, and
  the errors that setting it gives).
\<close>

section \<open>Values\<close>

record optValue =
  opt_value :: bool
  opt_present :: bool

datatype flag_value =
    StringValue string
  | BoolValue bool
  | IntValue "64 word"
  | StringSliceFlag "string list"
  | OptValue optValue
  | OtherValue "string \<Rightarrow> goerr option" string

text \<open>\<open>strconv.ParseBool\<close>; an error comes with false.\<close>

definition ParseBool :: "string \<Rightarrow> bool \<times> goerr option" where
  "ParseBool s =
     (if s \<in> set [''1'', ''t'', ''T'', ''true'', ''TRUE'', ''True''] then (True, None)
      else if s \<in> set [''0'', ''f'', ''F'', ''false'', ''FALSE'', ''False''] then (False, None)
      else (False, Some (Errorf ''strconv.ParseBool: parsing %q: invalid syntax'' [s] [])))"

text \<open>
  \<open>strconv.ParseInt(s, 0, 64)\<close>: an optional sign, then a hexadecimal, octal or decimal numeral. A
  number that is out of range comes as the nearest number with an error, a malformed one as 0.
\<close>

definition digit_in :: "nat \<Rightarrow> char \<Rightarrow> nat option" where
  "digit_in base c =
     (let n = (of_char c :: nat);
          d = (if 48 \<le> n \<and> n \<le> 57 then n - 48 else if 97 \<le> n \<and> n \<le> 122 then n - 87
               else if 65 \<le> n \<and> n \<le> 90 then n - 55 else base)
      in if d < base then Some d else None)"

fun numeral_in :: "nat \<Rightarrow> nat \<Rightarrow> string \<Rightarrow> nat option" where
  "numeral_in base acc [] = Some acc"
| "numeral_in base acc (c # cs) = (case digit_in base c of None \<Rightarrow> None | Some d \<Rightarrow> numeral_in base (base * acc + d) cs)"

definition magnitude :: "string \<Rightarrow> nat option" where
  "magnitude s =
     (if s = [] then None
      else if length s > 1 \<and> hd s = CHR ''0'' \<and> s ! 1 \<in> {CHR ''x'', CHR ''X''}
      then (if length s < 3 then None else numeral_in 16 0 (drop 2 s))
      else if hd s = CHR ''0'' then numeral_in 8 0 s
      else numeral_in 10 0 s)"

definition ParseInt :: "string \<Rightarrow> 64 word \<times> goerr option" where
  "ParseInt s =
     (let neg = (s \<noteq> [] \<and> hd s = CHR ''-'');
          t = (if s \<noteq> [] \<and> hd s \<in> {CHR ''-'', CHR ''+''} then tl s else s)
      in (case magnitude t of
          None \<Rightarrow> (0, Some (Errorf ''strconv.ParseInt: parsing %q: invalid syntax'' [s] []))
        | Some n \<Rightarrow>
            if \<not> neg \<and> int n \<ge> 9223372036854775808
            then (9223372036854775807, Some (Errorf ''strconv.ParseInt: parsing %q: value out of range'' [s] []))
            else if neg \<and> int n > 9223372036854775808
            then (- 9223372036854775808, Some (Errorf ''strconv.ParseInt: parsing %q: value out of range'' [s] []))
            else (word_of_int (if neg then - int n else int n), None)))"

definition optValue_Set :: "string \<Rightarrow> optValue \<Rightarrow> optValue \<times> goerr option" where
  "optValue_Set s ov = (case ParseBool s of (v, err) \<Rightarrow> (\<lparr>opt_value = v, opt_present = True\<rparr>, err))"

definition optValue_String :: "optValue \<Rightarrow> string" where
  "optValue_String ov = (if opt_value ov then ''true'' else ''false'')"

definition StringSliceFlag_Set :: "string \<Rightarrow> string list" where
  "StringSliceFlag_Set v = Split CHR '','' v"

text \<open>The methods \<open>Set\<close>; a value that is rejected has been overwritten all the same.\<close>

fun value_Set :: "string \<Rightarrow> flag_value \<Rightarrow> flag_value \<times> goerr option" where
  "value_Set s (StringValue _) = (StringValue s, None)"
| "value_Set s (BoolValue _) = (case ParseBool s of (v, err) \<Rightarrow> (BoolValue v, err))"
| "value_Set s (IntValue _) = (case ParseInt s of (v, err) \<Rightarrow> (IntValue v, err))"
| "value_Set s (StringSliceFlag _) = (StringSliceFlag (StringSliceFlag_Set s), None)"
| "value_Set s (OptValue ov) = (case optValue_Set s ov of (v, err) \<Rightarrow> (OptValue v, err))"
| "value_Set s (OtherValue f _) = (OtherValue f s, f s)"

fun IsBoolFlag :: "flag_value \<Rightarrow> bool" where
  "IsBoolFlag (BoolValue _) = True"
| "IsBoolFlag _ = False"

section \<open>Flag sets\<close>

record FlagSet =
  formal :: "(string \<times> flag_value) list"
  actual :: "string list"

definition put_value :: "string \<Rightarrow> flag_value \<Rightarrow> FlagSet \<Rightarrow> FlagSet" where
  "put_value name v fs = fs\<lparr>formal := map (\<lambda>(n, v'). (n, if n = name then v else v')) (formal fs)\<rparr>"

definition mark_set :: "string \<Rightarrow> FlagSet \<Rightarrow> FlagSet" where
  "mark_set name fs = fs\<lparr>actual := name # actual fs\<rparr>"

definition FlagSet_Set :: "string \<Rightarrow> string \<Rightarrow> FlagSet \<Rightarrow> FlagSet \<times> goerr option" where
  "FlagSet_Set name val fs = (case map_of (formal fs) name of
      None \<Rightarrow> (fs, Some (Errorf ''no such flag -%v'' [name] []))
    | Some v \<Rightarrow> (case value_Set val v of
          (v', Some err) \<Rightarrow> (put_value name v' fs, Some err)
        | (v', None) \<Rightarrow> (mark_set name (put_value name v' fs), None)))"

text \<open>
  \<open>FlagSet.Parse\<close>. \<open>flag_word\<close> takes the dashes and an equals sign off an argument: \<open>None\<close> when it is
  not a flag, \<open>Inl\<close> when it is malformed.
\<close>

definition flag_word :: "string \<Rightarrow> (goerr + string \<times> string option) option" where
  "flag_word s =
     (if s = [] \<or> hd s \<noteq> CHR ''-'' \<or> length s = 1 \<or> s = ''--'' then None
      else let name = (if s ! 1 = CHR ''-'' then drop 2 s else drop 1 s) in
        if name = [] \<or> hd name = CHR ''-'' \<or> hd name = CHR ''='' then Some (Inl (Errorf ''bad flag syntax: %s'' [s] []))
        else let n = hd name # takeWhile (\<lambda>c. c \<noteq> CHR ''='') (tl name) in
          Some (Inr (n, if n = name then None else Some (drop (Suc (length n)) name))))"

definition parse_value :: "string \<Rightarrow> string \<Rightarrow> string \<Rightarrow> flag_value \<Rightarrow> FlagSet \<Rightarrow> goerr + FlagSet" where
  "parse_value format name val v fs = (case value_Set val v of
      (_, Some err) \<Rightarrow> Inl (Errorf format [val, name] [err])
    | (v', None) \<Rightarrow> Inr (mark_set name (put_value name v' fs)))"

fun FlagSet_Parse :: "FlagSet \<Rightarrow> string list \<Rightarrow> goerr + FlagSet" where
  "FlagSet_Parse fs [] = Inr fs"
| "FlagSet_Parse fs (s # args) = (case flag_word s of
      None \<Rightarrow> Inr fs
    | Some (Inl err) \<Rightarrow> Inl err
    | Some (Inr (name, value)) \<Rightarrow> (case map_of (formal fs) name of
          None \<Rightarrow> Inl (if name \<in> {''help'', ''h''} then ErrorString ''flag: help requested''
                     else Errorf ''flag provided but not defined: -%s'' [name] [])
        | Some v \<Rightarrow>
            if IsBoolFlag v
            then (case parse_value ''invalid boolean value %q for -%s: %v'' name
                     (case value of None \<Rightarrow> ''true'' | Some x \<Rightarrow> x) v fs of
                Inl err \<Rightarrow> Inl err | Inr fs' \<Rightarrow> FlagSet_Parse fs' args)
            else (case value of
                Some x \<Rightarrow> (case parse_value ''invalid value %q for flag -%s: %v'' name x v fs of
                    Inl err \<Rightarrow> Inl err | Inr fs' \<Rightarrow> FlagSet_Parse fs' args)
              | None \<Rightarrow> (case args of
                    [] \<Rightarrow> Inl (Errorf ''flag needs an argument: -%s'' [name] [])
                  | x # args' \<Rightarrow> (case parse_value ''invalid value %q for flag -%s: %v'' name x v fs of
                      Inl err \<Rightarrow> Inl err | Inr fs' \<Rightarrow> FlagSet_Parse fs' args')))))"

section \<open>Flags from the environment\<close>

definition to_upper :: "char \<Rightarrow> char" where
  "to_upper c = (if CHR ''a'' \<le> c \<and> c \<le> CHR ''z'' then char_of (of_char c - 32 :: nat) else c)"

definition env_key :: "string \<Rightarrow> string \<Rightarrow> string" where
  "env_key pre name = pre @ ''_'' @ map (\<lambda>c. to_upper (if c = CHR ''-'' then CHR ''_'' else c)) name"

primrec env_loop ::
  "string \<Rightarrow> (string \<Rightarrow> string) \<Rightarrow> string list \<Rightarrow> string list \<Rightarrow> FlagSet \<Rightarrow> goerr option \<Rightarrow> FlagSet \<times> goerr option" where
  "env_loop pre getenv alreadySet [] fs err = (fs, err)"
| "env_loop pre getenv alreadySet (name # names) fs err =
     (let key = env_key pre name; val = getenv key in
      if name \<notin> set alreadySet \<and> val \<noteq> [] then
        (case FlagSet_Set name val fs of
           (fs', None) \<Rightarrow> env_loop pre getenv alreadySet names fs' err
         | (fs', Some serr) \<Rightarrow>
             env_loop pre getenv alreadySet names fs' (Some (Errorf ''invalid value %q for %s: %v'' [val, key] [serr])))
      else env_loop pre getenv alreadySet names fs err)"

definition SetFlagsFromEnv :: "FlagSet \<Rightarrow> string \<Rightarrow> (string \<Rightarrow> string) \<Rightarrow> FlagSet \<times> goerr option" where
  "SetFlagsFromEnv fs pre getenv = env_loop pre getenv (actual fs) (map fst (formal fs)) fs None"

section \<open>Reading a flag\<close>

definition flag_string :: "FlagSet \<Rightarrow> string \<Rightarrow> string" where
  "flag_string fs name = (case map_of (formal fs) name of Some (StringValue s) \<Rightarrow> s | _ \<Rightarrow> [])"

definition flag_bool :: "FlagSet \<Rightarrow> string \<Rightarrow> bool" where
  "flag_bool fs name = (case map_of (formal fs) name of Some (BoolValue b) \<Rightarrow> b | _ \<Rightarrow> False)"

definition flag_int :: "FlagSet \<Rightarrow> string \<Rightarrow> 64 word" where
  "flag_int fs name = (case map_of (formal fs) name of Some (IntValue i) \<Rightarrow> i | _ \<Rightarrow> 0)"

definition flag_slice :: "FlagSet \<Rightarrow> string \<Rightarrow> string list" where
  "flag_slice fs name = (case map_of (formal fs) name of Some (StringSliceFlag ss) \<Rightarrow> ss | _ \<Rightarrow> [])"

section \<open>Lemmas\<close>

lemma optValue_Set_String:
  "optValue_Set (optValue_String ov) ov' = (ov\<lparr>opt_present := True\<rparr>, None)"
  by (cases ov) (simp add: optValue_Set_def optValue_String_def ParseBool_def)

lemma put_value_names [simp]: "map fst (formal (put_value name v fs)) = map fst (formal fs)"
  by (simp add: put_value_def comp_def case_prod_beta)

lemma map_of_put_value:
  "map_of (formal (put_value name v fs)) n =
     (if n = name then map_option (\<lambda>_. v) (map_of (formal fs) n) else map_of (formal fs) n)"
proof -
  have "map_of (map (\<lambda>(n, v'). (n, if n = name then v else v')) xs) n =
      (if n = name then map_option (\<lambda>_. v) (map_of xs n) else map_of xs n)" for xs
    by (induction xs) auto
  then show ?thesis by (simp add: put_value_def)
qed

lemma mark_set_sel [simp]: "formal (mark_set name fs) = formal fs" "actual (mark_set name fs) = name # actual fs"
  by (simp_all add: mark_set_def)

lemma FlagSet_Set_formal:
  assumes "map_of (formal fs) name = Some v" "FlagSet_Set name val fs = (fs', err)"
  shows "map fst (formal fs') = map fst (formal fs) \<and> err = snd (value_Set val v) \<and>
    map_of (formal fs') n = (if n = name then Some (fst (value_Set val v)) else map_of (formal fs) n)"
  using assms by (auto simp: FlagSet_Set_def map_of_put_value split: prod.splits option.splits)

text \<open>What one variable does to a flag, and if it is accepted.\<close>

definition from_env :: "(string \<Rightarrow> string) \<Rightarrow> string \<Rightarrow> string list \<Rightarrow> string \<Rightarrow> flag_value \<Rightarrow> flag_value" where
  "from_env getenv pre alreadySet name v =
     (if name \<notin> set alreadySet \<and> getenv (env_key pre name) \<noteq> []
      then fst (value_Set (getenv (env_key pre name)) v) else v)"

definition env_accepted :: "(string \<Rightarrow> string) \<Rightarrow> string \<Rightarrow> string list \<Rightarrow> string \<Rightarrow> flag_value \<Rightarrow> bool" where
  "env_accepted getenv pre alreadySet name v \<longleftrightarrow>
     name \<in> set alreadySet \<or> getenv (env_key pre name) = [] \<or>
     snd (value_Set (getenv (env_key pre name)) v) = None"

lemma env_loop_exact:
  assumes "distinct names" "\<And>n. n \<in> set names \<Longrightarrow> map_of (formal fs) n \<noteq> None"
    and "env_loop pre getenv alreadySet names fs err0 = (fs', err)"
  shows "map fst (formal fs') = map fst (formal fs) \<and>
    map_of (formal fs') n =
      (if n \<in> set names then map_option (from_env getenv pre alreadySet n) (map_of (formal fs) n) else map_of (formal fs) n) \<and>
    (err = None \<longleftrightarrow> err0 = None \<and> (\<forall>n\<in>set names. env_accepted getenv pre alreadySet n (the (map_of (formal fs) n))))"
  using assms
proof (induction names arbitrary: fs err0)
  case (Cons m names)
  let ?val = "getenv (env_key pre m)"
  show ?case
  proof (cases "m \<notin> set alreadySet \<and> ?val \<noteq> []")
    case False
    then have "env_loop pre getenv alreadySet names fs err0 = (fs', err)" using Cons.prems(3) by (auto simp: Let_def)
    moreover have "from_env getenv pre alreadySet m = id" "env_accepted getenv pre alreadySet m v" for v
      using False by (auto simp: from_env_def env_accepted_def fun_eq_iff)
    ultimately show ?thesis using Cons.IH [of fs err0] Cons.prems(1,2) by (auto simp: option.map_id)
  next
    case True
    obtain v where v: "map_of (formal fs) m = Some v" using Cons.prems(2) [of m] by auto
    obtain fs1 e1 where set: "FlagSet_Set m ?val fs = (fs1, e1)" by force
    note f = FlagSet_Set_formal [OF v set]
    obtain err1 where run: "env_loop pre getenv alreadySet names fs1 err1 = (fs', err)"
      and e: "err1 = None \<longleftrightarrow> err0 = None \<and> e1 = None"
      using Cons.prems(3) True set by (cases e1) (auto simp: Let_def)
    have ex: "map_of (formal fs1) n \<noteq> None" if "n \<in> set names" for n
      using f [of n] Cons.prems(2) [of n] that by simp
    have "m \<notin> set names" using Cons.prems(1) by simp
    then have "(\<forall>n\<in>set names. env_accepted getenv pre alreadySet n (the (map_of (formal fs1) n))) \<longleftrightarrow>
        (\<forall>n\<in>set names. env_accepted getenv pre alreadySet n (the (map_of (formal fs) n)))"
      using f by (metis (no_types, lifting))
    with Cons.IH [OF _ ex run] Cons.prems(1) True v e f [of n] show ?thesis
      by (auto simp: from_env_def env_accepted_def)
  qed
qed simp

end
