(* ===== verification/Commands.thy ===== *)
theory Commands
  imports Agent_Manager Agent_Safety Window_Config Cycle_Spec Lease_Store Flags
begin

text \<open>
  How the two programs are put together: \<open>GetClient\<close> (\<open>src/pkg/k8sutil/client.go\<close>), the
  constructor and the main loop of the operator (\<open>New\<close> and \<open>Run\<close> in
  \<open>src/pkg/operator/operator.go\<close>), the constructor of the agent, and the two \<open>main\<close> functions under
  \<open>src/cmd\<close>.

  The arguments and the environment of the process are inputs, with the flags that glog adds to
  those of the programs. So are the library functions that read a client configuration and build a
  client (\<open>client_lib\<close>), the host name, and the config maps and timers of the leader election. A goroutine that is
  started (\<open>spawn\<close>) is a parameter; so is what happens in the pause between two cycles. A run of the
  operator is \<open>None\<close> when it has not been elected within the given number of attempts.
\<close>

section \<open>Clients\<close>

text \<open>
  The library functions that make clients: \<open>clientcmd.BuildConfigFromFlags\<close>,
  \<open>rest.InClusterConfig\<close> and \<open>kubernetes.NewForConfig\<close>.
\<close>

record ('conf, 'client) client_lib =
  BuildConfigFromFlags :: "string \<Rightarrow> goerr + 'conf"
  InClusterConfig :: "goerr + 'conf"
  NewForConfig :: "'conf \<Rightarrow> goerr + 'client"

definition getClientConfig :: "('conf, 'client) client_lib \<Rightarrow> string \<Rightarrow> goerr + 'conf" where
  "getClientConfig lib path = (if path \<noteq> [] then BuildConfigFromFlags lib path else InClusterConfig lib)"

definition GetClient :: "('conf, 'client) client_lib \<Rightarrow> string \<Rightarrow> goerr + 'client" where
  "GetClient lib path = (case getClientConfig lib path of
      Inl err \<Rightarrow> Inl (Errorf ''failed to get Kubernetes client config: %v'' [] [err])
    | Inr conf \<Rightarrow> NewForConfig lib conf)"

section \<open>The operator\<close>

type_synonym 'w client = "'w kube_iface \<times> 'w node_iface"

record 'w Config =
  cfg_Client :: "'w client option"
  cfg_AutoLabelContainerLinux :: bool
  cfg_BeforeRebootAnnotations :: "string list"
  cfg_AfterRebootAnnotations :: "string list"
  cfg_RebootWindowStart :: string
  cfg_RebootWindowLength :: string
  cfg_ManageAgent :: bool
  cfg_AgentImageRepo :: string

text \<open>What \<open>New\<close> finds in the environment of the process, and the clock it will use.\<close>

record 'w process_env =
  pe_POD_NAMESPACE :: string
  pe_Now :: "'w \<Rightarrow> 'w \<times> int"
  pe_loc :: int

definition window_of :: "string \<Rightarrow> string \<Rightarrow> goerr + Periodic option" where
  "window_of start len =
     (if start \<noteq> [] \<and> len \<noteq> [] then
        (case ParsePeriodic start len of
           Inl err \<Rightarrow> Inl (Errorf ''Error parsing reboot window: %s'' [] [err])
         | Inr rw \<Rightarrow> Inr (Some rw))
      else Inr None)"

definition operator_New ::
  "('conf, 'w client) client_lib \<Rightarrow> 'w process_env \<Rightarrow> 'w Config \<Rightarrow> goerr + 'w Kontroller" where
  "operator_New lib pe config = (case cfg_Client config of
      None \<Rightarrow> Inl (Errorf ''Kubernetes client must not be nil'' [] [])
    | Some (kube, nodes) \<Rightarrow>
      (case InClusterConfig lib of
        Inl err \<Rightarrow> Inl (Errorf ''error creating leader election client config: %v'' [] [err])
      | Inr conf \<Rightarrow>
      (case NewForConfig lib conf of
        Inl err \<Rightarrow> Inl (Errorf ''error creating leader election client: %v'' [] [err])
      | Inr leaderElectionClient \<Rightarrow>
        if pe_POD_NAMESPACE pe = [] then
          Inl (Errorf (''unable to determine operator namespace: '' @
            ''please ensure POD_NAMESPACE environment variable is set'') [] [])
        else
          map_sum id (\<lambda>window.
            \<lparr>kc = kube, nc = nodes,
             beforeRebootAnnotations = cfg_BeforeRebootAnnotations config,
             afterRebootAnnotations = cfg_AfterRebootAnnotations config,
             namespace = pe_POD_NAMESPACE pe,
             autoLabelContainerLinux = cfg_AutoLabelContainerLinux config,
             rebootWindow = window,
             manageAgent = cfg_ManageAgent config,
             agentImageRepo = cfg_AgentImageRepo config,
             clock_Now = pe_Now pe, clock_loc = pe_loc pe\<rparr>)
            (window_of (cfg_RebootWindowStart config) (cfg_RebootWindowLength config)))))"

text \<open>\<open>wait.Until(k.process, reconciliationPeriod, stop)\<close>, stopped after \<open>n\<close> cycles.\<close>

fun run_cycles :: "('w \<Rightarrow> 'w) \<Rightarrow> nat \<Rightarrow> 'w Kontroller \<Rightarrow> ('w, unit) go" where
  "run_cycles pause 0 k w = (w, OK ())"
| "run_cycles pause (Suc n) k w =
     go_bind (Kontroller_process k) (\<lambda>_ w'. run_cycles pause n k (pause w')) w"

text \<open>
  Leader election. \<open>RunOrDie\<close> panics if the configuration is rejected, and otherwise runs the election
  in a goroutine of its own; \<open>withLeaderElection\<close> returns when that goroutine calls
  \<open>OnStartedLeading\<close>. The goroutine goes on renewing the lease, and losing it ends the process.
\<close>

definition leaderElectionResourceName :: string where
  "leaderElectionResourceName = ''container-linux-update-operator-lock''"

definition leaderElectionLease :: int where
  "leaderElectionLease = 90 * ns_second"

record 'w run_env =
  re_Version :: string
  re_Semver :: Version
  re_Hostname :: "goerr + string"
  re_configmaps :: "'w configmaps"
  re_json :: json
  re_timers :: "'w timers"
  re_attempts :: nat
  re_spawn :: "('w, unit) go \<Rightarrow> 'w \<Rightarrow> 'w"
  re_pause :: "'w \<Rightarrow> 'w"
  re_cycles :: nat

definition election_config :: "'w Kontroller \<Rightarrow> string \<Rightarrow> LeaderElectionConfig" where
  "election_config k id' =
     \<lparr>lec_Identity = id', lec_LeaseDuration = leaderElectionLease, lec_RenewDeadline = leaderElectionLease * 2 div 3,
      lec_RetryPeriod = leaderElectionLease div 3\<rparr>"

definition resLock :: "'w run_env \<Rightarrow> 'w Kontroller \<Rightarrow> 'w ConfigMapLock" where
  "resLock re k = \<lparr>cml_Namespace = namespace k, cml_Name = leaderElectionResourceName,
     cml_Client = re_configmaps re, cml_json = re_json re\<rparr>"

definition withLeaderElection :: "'w run_env \<Rightarrow> 'w Kontroller \<Rightarrow> ('w, unit) run" where
  "withLeaderElection re k w = (case re_Hostname re of
      Inl err \<Rightarrow> Some (w, Err err)
    | Inr id' \<Rightarrow> (case NewLeaderElector (election_config k id') of
          Inl err \<Rightarrow> Some (w, Panic (PanicWith err))
        | Inr lec \<Rightarrow> (let e = lock_env (resLock re k) (re_timers re) in
            (case acquire (re_attempts re) e lec ((w, None), new_elector) of
               ((s1, le1), True) \<Rightarrow> Some (fst (OnStartedLeading e s1), OK ())
             | (_, False) \<Rightarrow> None))))"

definition operator_Run :: "'w run_env \<Rightarrow> 'w Kontroller \<Rightarrow> ('w, unit) run" where
  "operator_Run re k =
     run_bind (withLeaderElection re k) (\<lambda>_ w.
     let w1 = (if autoLabelContainerLinux k then re_spawn re (legacyLabeler k) w else w)
     in run_go (go_bind (if manageAgent k \<and> agentImageRepo k \<noteq> []
                 then runDaemonsetUpdate k (re_Version re) (re_Semver re) (agentImageRepo k)
                 else go_return ()) (\<lambda>_.
          run_cycles (re_pause re) (re_cycles re) k)) w1)"

section \<open>The programs\<close>

text \<open>
  How a process ends: with a version printed, with a message about its usage (status 2), with a
  fatal error, by returning from \<open>main\<close> or by a panic.
\<close>

datatype 'w exit =
    Exit string
  | Usage goerr
  | Fatal string "goerr list"
  | Returned 'w
  | Crashed 'w gopanic

text \<open>Flags are registered in the order of their names, compared byte by byte.\<close>

fun name_less :: "string \<Rightarrow> string \<Rightarrow> bool" where
  "name_less xs [] = False"
| "name_less [] (y # ys) = True"
| "name_less (x # xs) (y # ys) =
     (if x = y then name_less xs ys else (of_char x :: nat) < of_char y)"

fun register :: "string \<times> flag_value \<Rightarrow> (string \<times> flag_value) list \<Rightarrow> (string \<times> flag_value) list" where
  "register f [] = [f]"
| "register f (g # gs) = (if name_less (fst f) (fst g) then f # g # gs else g # register f gs)"

definition flag_set :: "(string \<times> flag_value) list \<Rightarrow> FlagSet" where
  "flag_set flags = \<lparr>formal = fold register flags [], actual = []\<rparr>"

record operator_flags =
  fl_before :: "string list"
  fl_after :: "string list"
  fl_kubeconfig :: string
  fl_autoLabel :: bool
  fl_windowStart :: string
  fl_windowLength :: string
  fl_printVersion :: bool
  fl_manageAgent :: bool
  fl_agentImageRepo :: string

definition operator_defaults :: "(string \<times> flag_value) list" where
  "operator_defaults =
     [(''kubeconfig'', StringValue []), (''auto-label-container-linux'', BoolValue False),
      (''reboot-window-start'', StringValue []), (''reboot-window-length'', StringValue []),
      (''version'', BoolValue False), (''manage-agent'', BoolValue False),
      (''agent-image-repo'', StringValue ''quay.io/coreos/container-linux-update-operator''),
      (''before-reboot-annotations'', StringSliceFlag []), (''after-reboot-annotations'', StringSliceFlag []),
      (''analytics'', OptValue \<lparr>opt_value = False, opt_present = False\<rparr>)]"

definition operator_flags_of :: "FlagSet \<Rightarrow> operator_flags" where
  "operator_flags_of fs =
     \<lparr>fl_before = flag_slice fs ''before-reboot-annotations'', fl_after = flag_slice fs ''after-reboot-annotations'',
      fl_kubeconfig = flag_string fs ''kubeconfig'', fl_autoLabel = flag_bool fs ''auto-label-container-linux'',
      fl_windowStart = flag_string fs ''reboot-window-start'', fl_windowLength = flag_string fs ''reboot-window-length'',
      fl_printVersion = flag_bool fs ''version'', fl_manageAgent = flag_bool fs ''manage-agent'',
      fl_agentImageRepo = flag_string fs ''agent-image-repo''\<rparr>"

text \<open>
  The part of \<open>main\<close> that reads the flags; \<open>glog\<close> are the flags of the log library. It fails on an
  argument (\<open>Inl\<close> of the left) or on a variable (\<open>Inr\<close> of the left).
\<close>

definition read_flags ::
  "(string \<times> flag_value) list \<Rightarrow> (string \<times> flag_value) list \<Rightarrow> string \<Rightarrow> string list \<Rightarrow> (string \<Rightarrow> string) \<Rightarrow>
   (goerr + goerr) + FlagSet" where
  "read_flags glog defaults pre args getenv =
     (case FlagSet_Parse (fst (FlagSet_Set ''logtostderr'' ''true'' (flag_set (glog @ defaults)))) args of
        Inl err \<Rightarrow> Inl (Inl err)
      | Inr fs \<Rightarrow> (case SetFlagsFromEnv fs pre getenv of
            (_, Some err) \<Rightarrow> Inl (Inr err)
          | (fs', None) \<Rightarrow> Inr fs'))"

definition operator_main ::
  "(string \<times> flag_value) list \<Rightarrow> string list \<Rightarrow> (string \<Rightarrow> string) \<Rightarrow> ('conf, 'w client) client_lib \<Rightarrow> string \<Rightarrow>
   'w process_env \<Rightarrow> 'w run_env \<Rightarrow> 'w \<Rightarrow> 'w exit option" where
  "operator_main glog args getenv lib Commit pe re w =
     (case read_flags glog operator_defaults ''UPDATE_OPERATOR'' args getenv of
        Inl (Inl err) \<Rightarrow> Some (Usage err)
      | Inl (Inr err) \<Rightarrow> Some (Fatal ''Failed to parse environment variables: %v'' [err])
      | Inr fs \<Rightarrow>
        (let fl = operator_flags_of fs;
             kubeconfig = (if fl_kubeconfig fl = [] then getenv ''KUBECONFIG'' else fl_kubeconfig fl)
         in if fl_printVersion fl then Some (Exit (version_Format (re_Version re) Commit))
            else (case GetClient lib kubeconfig of
                Inl err \<Rightarrow> Some (Fatal ''Failed to create Kubernetes client: %v'' [err])
              | Inr client \<Rightarrow>
                  (case operator_New lib (pe\<lparr>pe_POD_NAMESPACE := getenv ''POD_NAMESPACE''\<rparr>) \<lparr>cfg_Client = Some client,
                       cfg_AutoLabelContainerLinux = fl_autoLabel fl,
                       cfg_BeforeRebootAnnotations = fl_before fl, cfg_AfterRebootAnnotations = fl_after fl,
                       cfg_RebootWindowStart = fl_windowStart fl, cfg_RebootWindowLength = fl_windowLength fl,
                       cfg_ManageAgent = fl_manageAgent fl, cfg_AgentImageRepo = fl_agentImageRepo fl\<rparr> of
                     Inl err \<Rightarrow> Some (Fatal ''Failed to initialize %s: %v'' [err])
                   | Inr k \<Rightarrow> map_option (\<lambda>(w', r). case r of
                         OK _ \<Rightarrow> Returned w'
                       | Err err \<Rightarrow> Fatal ''Error while running %s: %v'' [err]
                       | Panic p \<Rightarrow> Crashed w' p) (operator_Run re k w)))))"

text \<open>
  What the agent gets from outside of its two clients: the D-Bus library, the connection to logind,
  and the parameters of its run. The goroutine that watches update_engine has the client of
  update_engine.
\<close>

record 'w agent_outside =
  ae_dbus :: "'w dbus_lib"
  ae_login1 :: "'w \<Rightarrow> 'w \<times> goerr option"
  ae_files :: file_system
  ae_poller :: "64 word \<Rightarrow> nat option"
  ae_spawn :: "Client \<Rightarrow> 'w \<Rightarrow> 'w"
  ae_Reboot :: "'w \<Rightarrow> 'w"
  ae_sleep :: "'w \<Rightarrow> 'w"

definition agent_New ::
  "('conf, 'w client) client_lib \<Rightarrow> 'w agent_outside \<Rightarrow> string \<Rightarrow> 64 word \<Rightarrow> 'w \<Rightarrow> 'w \<times> (goerr + 'w Klocksmith)" where
  "agent_New lib ae node reapTimeout w = (case GetClient lib [] of
      Inl err \<Rightarrow> (w, Inl (Errorf ''error creating kubernetes client: %v'' [] [err]))
    | Inr (kube, nodes) \<Rightarrow> (case updateengine_New (ae_dbus ae) w of
          (w1, Inl err) \<Rightarrow> (w1, Inl (Errorf ''error establishing connection to update_engine dbus: %v'' [] [err]))
        | (w1, Inr ue) \<Rightarrow> (case ae_login1 ae w1 of
              (w2, Some err) \<Rightarrow> (w2, Inl (Errorf ''error establishing connection to logind dbus: %v'' [] [err]))
            | (w2, None) \<Rightarrow> (w2, Inr \<lparr>ag_node = node, ag_kc = kube, ag_nc = nodes, ag_reapTimeout = reapTimeout,
                ag_files = ae_files ae, ag_poller = ae_poller ae, ag_spawn = ae_spawn ae ue,
                ag_Reboot = ae_Reboot ae, ag_sleep = ae_sleep ae\<rparr>))))"

record agent_flags =
  fl_node :: string
  fl_agentPrintVersion :: bool
  fl_gracePeriod :: "64 word"

definition agent_defaults :: "(string \<times> flag_value) list" where
  "agent_defaults = [(''node'', StringValue []), (''version'', BoolValue False), (''grace-period'', IntValue 600)]"

definition agent_flags_of :: "FlagSet \<Rightarrow> agent_flags" where
  "agent_flags_of fs =
     \<lparr>fl_node = flag_string fs ''node'', fl_agentPrintVersion = flag_bool fs ''version'', fl_gracePeriod = flag_int fs ''grace-period''\<rparr>"

text \<open>
  The \<open>main\<close> of the agent. The grace period, in seconds, becomes nanoseconds by a product of two
  int64 that wraps.
\<close>

definition agent_main ::
  "nat \<Rightarrow> (string \<times> flag_value) list \<Rightarrow> string list \<Rightarrow> (string \<Rightarrow> string) \<Rightarrow> string \<Rightarrow> string \<Rightarrow>
   ('conf, 'w client) client_lib \<Rightarrow> 'w agent_outside \<Rightarrow> 'w \<Rightarrow> 'w exit option" where
  "agent_main fuel glog args getenv Version Commit lib ae w =
     (case read_flags glog agent_defaults ''UPDATE_AGENT'' args getenv of
        Inl (Inl err) \<Rightarrow> Some (Usage err)
      | Inl (Inr err) \<Rightarrow> Some (Fatal ''Failed to parse environment variables: %v'' [err])
      | Inr fs \<Rightarrow>
        (let fl = agent_flags_of fs
         in if fl_agentPrintVersion fl then Some (Exit (version_Format Version Commit))
            else if fl_node fl = [] then Some (Fatal ''-node is required'' [])
            else (case agent_New lib ae (fl_node fl) (fl_gracePeriod fl * 1000000000) w of
                (_, Inl err) \<Rightarrow> Some (Fatal ''Failed to initialize %s: %v'' [err])
              | (w1, Inr a) \<Rightarrow>
                  map_option (\<lambda>(w', r). case r of Panic p \<Rightarrow> Crashed w' p | _ \<Rightarrow> Returned w') (agent_Run fuel a w1))))"

section \<open>Lemmas\<close>

lemma operator_New_window:
  assumes "operator_New lib pe config = Inr k"
  shows "case rebootWindow k of
      None \<Rightarrow> cfg_RebootWindowStart config = [] \<or> cfg_RebootWindowLength config = []
    | Some rw \<Rightarrow> ParsePeriodic (cfg_RebootWindowStart config) (cfg_RebootWindowLength config) = Inr rw \<and>
        valid_start (pc_start rw)"
  using assms
  by (auto simp: operator_New_def window_of_def map_sum_Inr_iff split: option.splits if_splits sum.splits
      intro: ParsePeriodic_valid)

lemma labeler_quiet:
  assumes "set_labels enableUpdateAgentLabel x = Inr y"
  shows "quiet_node x y"
proof -
  obtain ls where y: "y = x\<lparr>Labels := ls\<rparr>" and ls: "gomap_set_all enableUpdateAgentLabel (Labels x) = Inr ls"
    using assms by (auto simp: set_labels_def mutation_simps)
  have "distinct (map fst enableUpdateAgentLabel)" by (simp add: enableUpdateAgentLabel_def)
  from gomap_get_set_all [OF ls this] y show ?thesis
    by (simp add: quiet_node_def slot_defs enableUpdateAgentLabel_def key_simps)
qed

section \<open>The operator from its start to its stop\<close>

text \<open>What a call outside of the cycles may do to the cluster: anything allowed between two cycles.\<close>

definition free_call :: "('w \<Rightarrow> cluster) \<Rightarrow> ('w \<Rightarrow> bool) \<Rightarrow> ('w \<Rightarrow> 'w \<times> 'a) \<Rightarrow> bool" where
  "free_call cl good m \<longleftrightarrow> (\<forall>w. good w \<longrightarrow> good (fst (m w)) \<and> free_step (cl w) (cl (fst (m w))))"

text \<open>No call of the election does more to the nodes than that; the lock is a config map.\<close>

definition free_election :: "('w \<Rightarrow> cluster) \<Rightarrow> ('w \<Rightarrow> bool) \<Rightarrow> 'w run_env \<Rightarrow> bool" where
  "free_election cl good re \<longleftrightarrow>
     (\<forall>ns name. free_call cl good (cms_Get (re_configmaps re) ns name)) \<and>
     (\<forall>ns c. free_call cl good (cms_Create (re_configmaps re) ns c)) \<and>
     (\<forall>ns c. free_call cl good (cms_Update (re_configmaps re) ns c)) \<and>
     free_call cl good (tm_Now (re_timers re)) \<and>
     (\<forall>d. free_call cl good (\<lambda>w. (tm_pause (re_timers re) d w, ()))) \<and>
     free_call cl good (\<lambda>w. (tm_started (re_timers re) w, ()))"

definition free_run :: "('w \<Rightarrow> cluster) \<Rightarrow> ('w \<Rightarrow> bool) \<Rightarrow> 'w run_env \<Rightarrow> 'w Kontroller \<Rightarrow> bool" where
  "free_run cl good re k \<longleftrightarrow>
     free_election cl good re \<and>
     free_call cl good (\<lambda>w. (re_spawn re (legacyLabeler k) w, ())) \<and>
     free_call cl good (\<lambda>w. (re_pause re w, ())) \<and>
     (\<forall>ns sel. free_call cl good (ds_List (kc k) ns sel)) \<and>
     (\<forall>ns d. free_call cl good (ds_Create (kc k) ns d)) \<and>
     (\<forall>ns name. free_call cl good (ds_Delete (kc k) ns name))"

context operator_env
begin

abbreviation safe :: "'w \<Rightarrow> bool" where
  "safe w \<equiv> good w \<and> slot_inv (cl w)"

lemma free_call_safe: "free_call cl good m \<Longrightarrow> safe w \<Longrightarrow> safe (fst (m w))"
  unfolding free_call_def using slot_inv_free by blast

lemma triple_free_error: "free_call cl good m \<Longrightarrow> triple safe (go_error m) (\<lambda>_. safe) safe"
  using free_call_safe [of m]
  by (intro tripleI) (fastforce simp: go_error_def split: prod.splits option.splits)+

lemma triple_free_call: "free_call cl good m \<Longrightarrow> triple safe (go_call m) (\<lambda>_. safe) safe"
  using free_call_safe [of m]
  by (intro tripleI) (fastforce simp: go_call_def split: prod.splits sum.splits)+

lemma triple_process: "triple safe (Kontroller_process k) (\<lambda>_. safe) safe"
  by (rule tripleI) (use process_keeps_slot in blast)+

lemma triple_run_cycles:
  assumes "free_call cl good (\<lambda>w. (pause w, ()))"
  shows "triple safe (run_cycles pause n k) (\<lambda>_. safe) safe"
proof (induction n)
  case 0
  then show ?case by (auto simp: triple_def)
next
  case (Suc n)
  have "triple safe (\<lambda>w. run_cycles pause n k (pause w)) (\<lambda>_. safe) safe"
    by (rule triple_moved [OF Suc.IH]) (use free_call_safe [OF assms] in fastforce)
  then have "triple safe (go_bind (Kontroller_process k) (\<lambda>_ w. run_cycles pause n k (pause w))) (\<lambda>_. safe) safe"
    by (rule triple_bind [OF triple_process])
  moreover have "run_cycles pause (Suc n) k = go_bind (Kontroller_process k) (\<lambda>_ w. run_cycles pause n k (pause w))"
    by (rule ext) simp
  ultimately show ?case by simp
qed

lemma triple_daemonset_update:
  assumes "\<And>ns sel. free_call cl good (ds_List (kc k) ns sel)" "\<And>ns d. free_call cl good (ds_Create (kc k) ns d)"
    "\<And>ns name. free_call cl good (ds_Delete (kc k) ns name)"
  shows "triple safe (runDaemonsetUpdate k Version Semver repo) (\<lambda>_. safe) safe"
proof -
  have create: "triple safe (createAgentDamonset k Version repo) (\<lambda>_. safe) safe"
    unfolding createAgentDamonset_def by (rule triple_free_error [OF assms(2)])
  have fail: "triple safe (\<lambda>w. (w, Err e)) (\<lambda>_. safe) safe" for e
    by (simp add: triple_def)
  note del = triple_bind [OF triple_free_error [OF assms(3)] create]
  show ?thesis
    unfolding runDaemonsetUpdate_def
    by (rule triple_bind [OF triple_free_call [OF assms(1)]])
       (simp only: create fail del triple_return split: list.split sum.split if_split, simp)
qed

lemma free_move_safe: "free_call cl good (\<lambda>w. (h w, ())) \<Longrightarrow> safe w \<Longrightarrow> safe (h w)"
  using free_call_safe [of "\<lambda>w. (h w, ())" w] by simp

lemma election_safe:
  assumes "free_election cl good re"
  shows "lock_keeps safe (cml_Client (resLock re k')) (re_timers re)"
proof -
  let ?c = "re_configmaps re" and ?t = "re_timers re"
  from assms have free: "\<And>ns name. free_call cl good (cms_Get ?c ns name)" "\<And>ns c. free_call cl good (cms_Create ?c ns c)"
    "\<And>ns c. free_call cl good (cms_Update ?c ns c)" "free_call cl good (tm_Now ?t)"
    "\<And>d. free_call cl good (\<lambda>w. (tm_pause ?t d w, ()))" "free_call cl good (\<lambda>w. (tm_started ?t w, ()))"
    unfolding free_election_def by blast+
  note calls = free(1-4) [THEN free_call_safe] and moves = free(5,6) [THEN free_move_safe]
  have "cml_Client (resLock re k') = ?c" by (simp add: resLock_def)
  then show ?thesis
    unfolding lock_keeps_def by (simp add: calls moves)
qed

lemma elect_safe:
  assumes "free_election cl good re" "safe w" "withLeaderElection re k w = Some (w', r)"
  shows "safe w'"
proof -
  let ?e = "lock_env (resLock re k) (re_timers re)" and ?P = "safe \<circ> fst"
  note keeps = lock_env_keeps [OF election_safe [OF assms(1), of k]]
  have "?P (OnStartedLeading ?e s1)" if "acquire n ?e lec ((w, None), le) = ((s1, le1), ok)" for n lec le s1 le1 ok
    using acquire_keeps [OF keeps, of "(w, None)" n lec le] election_keepsD(6) [OF keeps, of s1] assms(2) that by simp
  with assms(2,3) show ?thesis
    by (auto simp: withLeaderElection_def Let_def split: sum.splits prod.splits bool.splits)
qed

lemma operator_Run_safe:
  assumes "free_run cl good re k" "safe w" "operator_Run re k w = Some (w', r)"
  shows "safe w'"
proof -
  note free = assms(1) [unfolded free_run_def]
  let ?mid = "if manageAgent k \<and> agentImageRepo k \<noteq> []
      then runDaemonsetUpdate k (re_Version re) (re_Semver re) (agentImageRepo k) else go_return ()"
  let ?rest = "go_bind ?mid (\<lambda>_. run_cycles (re_pause re) (re_cycles re) k)"
  let ?spawn = "\<lambda>w. if autoLabelContainerLinux k then re_spawn re (legacyLabeler k) w else w"
  have mid: "triple safe ?mid (\<lambda>_. safe) safe"
    using triple_daemonset_update free by (auto intro: triple_return)
  have rest: "triple safe ?rest (\<lambda>_. safe) safe"
    by (rule triple_bind [OF mid]) (use triple_run_cycles free in blast)
  obtain w1 r1 where e: "withLeaderElection re k w = Some (w1, r1)"
    using assms(3) by (auto simp: operator_Run_def run_bind_def split: option.splits)
  have s1: "safe w1" using elect_safe [OF _ assms(2) e] free by blast
  then have "safe (?spawn w1)"
    using free free_call_safe [of "\<lambda>w. (re_spawn re (legacyLabeler k) w, ())" w1] by auto
  moreover have "w' = w1 \<or> (w', r) = ?rest (?spawn w1)"
    using assms(3) e by (auto simp: operator_Run_def run_bind_def run_go_def Let_def split: result.splits)
  ultimately show ?thesis using s1 triple_end [OF rest] by (metis prod.collapse)
qed

end

section \<open>Properties\<close>

text \<open>The labeller on a cluster at rest.\<close>

definition to_label :: "node \<Rightarrow> bool" where
  "to_label x \<longleftrightarrow> HasPrefix (OSImage x) ''Container Linux'' \<and> \<not> gomap_has (Labels x) LabelUpdateAgentEnabled"

lemma logged_loop:
  "range_loop body xs w = (w', OK ()) \<Longrightarrow> range_loop (\<lambda>n. go_logged (body n)) xs w = (w', OK ())"
proof (induction xs arbitrary: w)
  case (Cons x xs)
  then show ?case by (auto simp: go_bind_OK_iff go_logged_def go_bind_def split: prod.splits result.splits)
qed simp

text \<open>
  C28: The labeller implements its specification. On a cluster at rest it labels, in one pass, exactly the
  nodes of Container Linux that do not carry the agent's label yet, and changes nothing else.
\<close>

theorem labeler_refines_spec:
  assumes "calm w"
  shows "\<exists>w'. legacyLabeler (store_controller allowed window loc before after) w = (w', OK ()) \<and> calm w' \<and>
     view w' = step_nodes to_label (set_labels enableUpdateAgentLabel) (view w)"
proof -
  let ?k = "store_controller allowed window loc before after"
  have list: "nc_List (nc ?k) w = (w, Inr (items (st_cluster w)))"
    using assms by (simp add: store_controller_def store_nc_def store_List_def next_entry_calm calm_def)
  have "nodes_to_label (items (st_cluster w)) = filter to_label (items (st_cluster w))"
    by (simp add: nodes_to_label_def containerLinux.flt_eq byRequirement.flt_eq updateAgentLabelMissing_matches
        to_label_def [abs_def] conj_commute)
  moreover obtain w' where "range_loop (\<lambda>n. UpdateNodeRetry (nc ?k) (Name n) (set_labels enableUpdateAgentLabel))
      (filter to_label (items (st_cluster w))) w = (w', OK ())" "calm w'"
    "view w' = step_nodes to_label (set_labels enableUpdateAgentLabel) (view w)"
    using yields_phase [OF plain_labels.plain_mutation_axioms assms, of to_label "\<lambda>_. id"]
    by (auto simp: to_label_def go_wrap_id yields_def store_controller_def)
  ultimately show ?thesis
    using logged_loop by (fastforce simp: legacyLabeler_def list SetNodeLabels_def)
qed

definition unlabelled_world :: store where
  "unlabelled_world = \<lparr>st_cluster = \<lparr>rev_no = 4, items =
     [plain_node ''a'' [] [], plain_node ''b'' [(LabelUpdateAgentEnabled, constFalse)] [],
      (plain_node ''c'' [] [])\<lparr>OSImage := ''Fedora''\<rparr>]\<rparr>, st_script = [], st_clock = 0\<rparr>"

theorem labeler_refines_spec_witness:
  "\<exists>w'. legacyLabeler (store_controller anything None 0 [] []) unlabelled_world = (w', OK ()) \<and>
     map (\<lambda>x. gomap_get (Labels x) LabelUpdateAgentEnabled) (view w') = [constTrue, constFalse, []]"
proof -
  have "calm unlabelled_world" by code_simp
  from labeler_refines_spec [OF this, of anything None 0 "[]" "[]"] obtain w' where
    "legacyLabeler (store_controller anything None 0 [] []) unlabelled_world = (w', OK ())"
    "view w' = step_nodes to_label (set_labels enableUpdateAgentLabel) (view unlabelled_world)" by blast
  moreover have "map (\<lambda>x. gomap_get (Labels x) LabelUpdateAgentEnabled)
      (step_nodes to_label (set_labels enableUpdateAgentLabel) (view unlabelled_world)) = [constTrue, constFalse, []]"
    by code_simp
  ultimately show ?thesis by auto
qed

text \<open>
  When the operator starts. \<open>New\<close> succeeds exactly if a client is given, the leader election client can
  be made from the configuration inside the cluster, the namespace of the pod is known, and the
  window, if both its start and its length are given, is valid; the controller then has the given
  client, checks and window.
\<close>

lemma operator_New_exact:
  "operator_New lib pe config = Inr k \<longleftrightarrow>
     (\<exists>kube nodes conf elector window.
        cfg_Client config = Some (kube, nodes) \<and> InClusterConfig lib = Inr conf \<and>
        NewForConfig lib conf = Inr elector \<and> pe_POD_NAMESPACE pe \<noteq> [] \<and>
        (if cfg_RebootWindowStart config = [] \<or> cfg_RebootWindowLength config = [] then window = None
         else \<exists>rw. ParsePeriodic (cfg_RebootWindowStart config) (cfg_RebootWindowLength config) = Inr rw \<and>
           valid_start (pc_start rw) \<and> window = Some rw) \<and>
        k = \<lparr>kc = kube, nc = nodes, beforeRebootAnnotations = cfg_BeforeRebootAnnotations config,
             afterRebootAnnotations = cfg_AfterRebootAnnotations config, namespace = pe_POD_NAMESPACE pe,
             autoLabelContainerLinux = cfg_AutoLabelContainerLinux config, rebootWindow = window,
             manageAgent = cfg_ManageAgent config, agentImageRepo = cfg_AgentImageRepo config,
             clock_Now = pe_Now pe, clock_loc = pe_loc pe\<rparr>)"
  by (auto simp: operator_New_def window_of_def map_sum_Inr_iff ParsePeriodic_valid
      split: option.splits sum.splits if_splits prod.splits)

text \<open>
  The configuration of the leader election is accepted. \<open>RunOrDie\<close> never panics on it: the operator
  becomes a candidate with a lease of 90 seconds, to be renewed within 60 and retried every 30.
\<close>

lemma election_config_accepted: "NewLeaderElector (election_config k host) = Inr (election_config k host)"
  by (simp add: NewLeaderElector_def election_config_def leaderElectionLease_def ns_second_def)

lemma election_config_sel [simp]:
  "lec_Identity (election_config k host) = host" "lec_LeaseDuration (election_config k host) = 90 * ns_second"
  "lec_RenewDeadline (election_config k host) = 60 * ns_second"
  by (simp_all add: election_config_def leaderElectionLease_def ns_second_def)

lemma elected_returns:
  assumes "re_Hostname re = Inr host"
    and "acquire (re_attempts re) (lock_env (resLock re k) (re_timers re)) (election_config k host) ((w, None), new_elector) =
      ((s1, le1), True)"
  shows "withLeaderElection re k w = Some (fst (OnStartedLeading (lock_env (resLock re k) (re_timers re)) s1), OK ())"
  by (simp only: withLeaderElection_def assms election_config_accepted Let_def prod.case sum.case bool.case)


definition standby :: "lease_store Kontroller" where
  "standby = \<lparr>kc = \<lparr>ds_List = (\<lambda>_ _ w. (w, Inr [])), ds_Get = (\<lambda>_ _ w. (w, Inl ErrWaitTimeout)), ds_Create = (\<lambda>_ _ w. (w, None)),
       ds_Delete = (\<lambda>_ _ w. (w, None)), pods_List = (\<lambda>_ _ w. (w, Inr [])), pods_Get = (\<lambda>_ _ w. (w, zero_pod, None)),
       pods_Delete = (\<lambda>_ _ w. (w, None))\<rparr>,
     nc = \<lparr>nc_Get = (\<lambda>_ w. (w, Inl ErrWaitTimeout)), nc_List = (\<lambda>w. (w, Inr [])),
       nc_Update = (\<lambda>n w. (w, n, None)), nc_Watch = (\<lambda>_ _ w. (w, Inr 0)), nc_Next = (\<lambda>_ w. (w, Closed))\<rparr>,
     beforeRebootAnnotations = [], afterRebootAnnotations = [], namespace = ''ns'', autoLabelContainerLinux = False,
     rebootWindow = None, manageAgent = False, agentImageRepo = [], clock_Now = (\<lambda>w. (w, ls_time w)), clock_loc = 0\<rparr>"

definition standby_rules :: lease_rules where
  "standby_rules = replica_b\<lparr>lr_config := election_config standby ''b''\<rparr>"

definition standby_env :: "lease_store run_env" where
  "standby_env = \<lparr>re_Version = ''0.4.0'', re_Semver = \<lparr>Major = 0, Minor = 4, Patch = 0, Pre = [], Build = []\<rparr>,
     re_Hostname = Inr ''b'', re_configmaps = ls_maps standby_rules, re_json = record_json, re_timers = ls_timers standby_rules,
     re_attempts = 4, re_spawn = (\<lambda>_. id), re_pause = id, re_cycles = 0\<rparr>"

lemma standby_env_sel: "re_Hostname standby_env = Inr ''b''" "re_attempts standby_env = 4"
  by (simp_all add: standby_env_def)

interpretation standby_lock: configmap_api "resLock standby_env standby" "re_timers standby_env"
  "election_config standby ''b''" "ls_view standby_rules"
proof -
  have "configmap_api (ls_lock standby_rules (namespace standby) leaderElectionResourceName) (ls_timers standby_rules)
      (lr_config standby_rules) (ls_view standby_rules)"
    by (rule ls_configmap_api) (simp_all add: standby_rules_def replica_b_def ns_second_def)
  then show "configmap_api (resLock standby_env standby) (re_timers standby_env) (election_config standby ''b'') (ls_view standby_rules)"
    by (simp add: standby_rules_def standby_env_def resLock_def ls_lock_def)
qed


lemma not_isl: "\<not> isl x \<Longrightarrow> x = Inr (projr x)"
  by (cases x) simp_all


definition glog_flags :: "(string \<times> flag_value) list" where
  "glog_flags = [(''logtostderr'', BoolValue False), (''v'', OtherValue (\<lambda>_. None) ''0'')]"

definition window_env :: "string \<Rightarrow> string" where
  "window_env key =
     (if key = ''UPDATE_OPERATOR_REBOOT_WINDOW_START'' then ''Mon 14:00''
      else if key = ''UPDATE_OPERATOR_REBOOT_WINDOW_LENGTH'' then ''1h''
      else if key = ''UPDATE_OPERATOR_BEFORE_REBOOT_ANNOTATIONS'' then ''a,b'' else [])"



definition test_lib :: "(unit, bus_store client) client_lib" where
  "test_lib = \<lparr>BuildConfigFromFlags = (\<lambda>_. Inr ()), InClusterConfig = Inr (), NewForConfig = (\<lambda>_. Inr
     (\<lparr>ds_List = (\<lambda>_ _ w. (w, Inr [])), ds_Get = (\<lambda>_ _ w. (w, Inl ErrWaitTimeout)), ds_Create = (\<lambda>_ _ w. (w, None)),
       ds_Delete = (\<lambda>_ _ w. (w, None)), pods_List = (\<lambda>_ _ w. (w, Inr [])), pods_Get = (\<lambda>_ _ w. (w, zero_pod, None)),
       pods_Delete = (\<lambda>_ _ w. (w, None))\<rparr>,
      \<lparr>nc_Get = (\<lambda>_ w. (w, Inl ErrWaitTimeout)), nc_List = (\<lambda>w. (w, Inr [])),
       nc_Update = (\<lambda>n w. (w, n, None)), nc_Watch = (\<lambda>_ _ w. (w, Inr 0)), nc_Next = (\<lambda>_ w. (w, Closed))\<rparr>))\<rparr>"

definition test_outside :: "bus_store agent_outside" where
  "test_outside = \<lparr>ae_dbus = bus_lib, ae_login1 = (\<lambda>w. (w, None)), ae_files = (\<lambda>_. Contents []), ae_poller = (\<lambda>_. None),
     ae_spawn = (\<lambda>_. id), ae_Reboot = id, ae_sleep = id\<rparr>"

definition test_bus :: bus_store where
  "test_bus = \<lparr>bs_conns = [], bs_faults = [], bs_calls = []\<rparr>"

definition minutes_env :: "string \<Rightarrow> string" where
  "minutes_env key = (if key = ''UPDATE_AGENT_GRACE_PERIOD'' then ''0x78'' else [])"


end
