(* ===== verification/Lifecycle.thy ===== *)
theory Lifecycle
  imports Cycle_Spec Agent_Safety
begin

text \<open>
  A whole reboot: the operator and the agent of one node, composed. On a cluster at rest each of
  their functions is evaluated in turn, and one node is followed through all the writes, from
  wanting a reboot to being back: chosen, under checks, permitted, drained, rebooted, under checks
  again, released. The other nodes are arbitrary, as long as none is in the hands of the protocol
  at the start.

  \<open>leads\<close> is the shape of all steps: a call that succeeds, leaves the cluster at rest and shows
  the followed node in its next state.
\<close>

section \<open>Single calls on a cluster at rest\<close>

text \<open>\<open>m\<close> succeeds on the calm store \<open>w\<close>, leaves it calm, and then shows the node \<open>x\<close>.\<close>

definition leads :: "(store, unit) go \<Rightarrow> store \<Rightarrow> store \<Rightarrow> node \<Rightarrow> bool" where
  "leads m w w' x \<longleftrightarrow> m w = (w', OK ()) \<and> calm w' \<and> x \<in> set (view w')"

lemma touch_member: "x \<in> set xs \<Longrightarrow> applied f x \<in> set (touch f (Name x) xs)"
  by (force simp: touch_def)

lemma update_leads:
  assumes "plain_mutation f" "calm w" "x \<in> set (view w)"
  shows "\<exists>w'. leads (UpdateNodeRetry (store_nc allowed) (Name x) f) w w' (applied f x)"
proof -
  from yields_update [OF assms(1,2), of "Name x" id allowed] assms(3)
  obtain w' where "UpdateNodeRetry (store_nc allowed) (Name x) f w = (w', OK ())" "calm w'"
    "view w' = touch f (Name x) (view w)"
    by (auto simp: yields_def go_wrap_id)
  with touch_member [OF assms(3)] show ?thesis by (auto simp: leads_def)
qed

lemma get_calm:
  assumes "calm w" "x \<in> set (view w)"
  shows "\<exists>n. nc_Get (store_nc allowed) (Name x) w = (w, Inr n) \<and> unversioned n = x \<and>
     obj (st_cluster w) (Name x) = Some n"
proof -
  from assms obtain n where n: "n \<in> set (items (st_cluster w))" "unversioned n = x" by (auto simp: view_def)
  then have "obj (st_cluster w) (Name x) = Some n" using assms(1) by (auto simp: calm_def obj_iff)
  with assms(1) n(2) show ?thesis by (simp add: store_nc_def store_Get_def next_entry_calm calm_def)
qed

lemma get_node_calm:
  assumes "calm w" "x \<in> set (view w)" "ag_nc a = store_nc allowed" "ag_node a = Name x"
  shows "\<exists>n. get_node a w = Some (w, OK n) \<and> unversioned n = x"
proof -
  from get_calm [OF assms(1,2), of allowed] obtain n where
    "nc_Get (store_nc allowed) (Name x) w = (w, Inr n)" "unversioned n = x" by blast
  then show ?thesis
    by (simp add: assms(3,4) get_node_def run_bind_def run_go_def GetNodeRetry_def RetryOnError_def
        ExponentialBackoff_def DefaultBackoff_def numeral_eq_Suc error_condition_def get_attempt_def deref_def Let_def)
qed

lemma schedule_leads:
  assumes "calm w" "x \<in> set (view w)"
  shows "\<exists>w'. leads (Unschedulable (store_nc allowed) (Name x) b) w w' (x\<lparr>SpecUnschedulable := b\<rparr>)"
proof -
  let ?c = "st_cluster w"
  from get_calm [OF assms, of allowed] obtain n where
    n: "nc_Get (store_nc allowed) (Name x) w = (w, Inr n)" "unversioned n = x" "obj ?c (Name x) = Some n" by blast
  let ?n = "n\<lparr>SpecUnschedulable := b\<rparr>"
  let ?w = "w\<lparr>st_cluster := commit ?n ?c\<rparr>"
  have name: "Name n = Name x" using obj_Name [OF n(3)] .
  have "put_attempt (store_nc allowed) (w, ?n) = ((?w, ?n\<lparr>ResourceVersion := Suc (rev_no ?c)\<rparr>), OK ())"
    using assms(1) n(3) name by (simp add: put_attempt_def store_nc_def store_Update_def next_entry_calm calm_def)
  then have "Unschedulable (store_nc allowed) (Name x) b w = (?w, OK ())"
    by (simp add: Unschedulable_def n(1) RetryOnConflict_eq DefaultBackoff_def numeral_eq_Suc)
  moreover have "calm ?w"
  proof -
    have "mapped n" using assms(1) n(3) by (auto simp: calm_def obj_iff list_all_iff)
    then have "mapped ?n" by (simp add: mapped_def)
    with assms(1) show ?thesis by (simp add: calm_def cluster_wf_commit commit_mapped)
  qed
  moreover have "x\<lparr>SpecUnschedulable := b\<rparr> \<in> set (view ?w)"
  proof -
    have "n \<in> set (items ?c)" using n(3) assms(1) by (auto simp: calm_def obj_iff)
    then have "?n\<lparr>ResourceVersion := Suc (rev_no ?c)\<rparr> \<in> set (items (commit ?n ?c))"
      using name by (force simp: commit_def)
    moreover have "unversioned (?n\<lparr>ResourceVersion := Suc (rev_no ?c)\<rparr>) = x\<lparr>SpecUnschedulable := b\<rparr>"
      unfolding n(2) [symmetric] by (simp add: unversioned_def)
    ultimately show ?thesis unfolding view_def by force
  qed
  ultimately show ?thesis by (auto simp: leads_def)
qed

section \<open>A cycle and one node\<close>

text \<open>What the phases before the choice do to a single node.\<close>

definition settle_node :: "string list \<Rightarrow> string list \<Rightarrow> node \<Rightarrow> node" where
  "settle_node before after x0 =
     (let x1 = applied (cleanup_mutation before) x0;
          x2 = (if afterChecks x1 \<and> hasAllAnnotations x1 after then applied (after_done_mutation after) x1 else x1);
          x3 = (if justRebooted x2 \<and> \<not> afterChecks x2 then applied (mark_mutation LabelAfterReboot after) x2 else x2)
      in if beforeChecks x3 \<and> hasAllAnnotations x3 before then applied (before_done_mutation before) x3 else x3)"

lemma settle_map: "settle_spec before after xs = map (settle_node before after) xs"
  by (induction xs) (simp_all add: settle_spec_def step_nodes_def settle_node_def Let_def)

lemma cycle_leads:
  assumes "calm w" "x \<in> set (view w)" "\<not> wantsReboot (settle_node before after x)"
  shows "\<exists>w'. leads (Kontroller_process (store_controller allowed window loc before after)) w w' (settle_node before after x)"
proof -
  from process_refines [OF assms(1), of allowed window loc before after] obtain w' where
    w': "Kontroller_process (store_controller allowed window loc before after) w = (w', OK ())" "calm w'"
    "view w' = cycle_spec before after (window_test window loc (st_clock w)) (view w)" by blast
  have "settle_node before after x \<in> set (settle_spec before after (view w))"
    using assms(2) by (simp add: settle_map)
  with assms(3) have "settle_node before after x \<in> set (view w')"
    by (auto simp: w'(3) cycle_spec_def choose_spec_def intro: step_first_keeps)
  with w' show ?thesis by (auto simp: leads_def)
qed

lemma step_first_head: "filter P xs = y # ys \<Longrightarrow> applied f y \<in> set (step_first P f xs)"
  by (induction xs) (auto split: if_splits)

text \<open>The first node that wants a reboot is chosen when the slot is free.\<close>

lemma choice_leads:
  assumes "calm w" "checks_apart before" "list_all (\<lambda>x. \<not> holds_slot x) (view w)"
    and "filter wantsReboot (view w) = x # xs" "window_test window loc (st_clock w)"
  shows "\<exists>w'. leads (Kontroller_process (store_controller allowed window loc before after)) w w'
     (applied (mark_mutation LabelBeforeReboot before) x)"
proof -
  let ?f = "applied (cleanup_mutation before)" and ?P = "\<lambda>x. wantsReboot x \<and> \<not> beforeChecks x"
  let ?ys = "map ?f (view w)"
  from process_refines [OF assms(1), of allowed window loc before after] assms(5) obtain w' where
    w': "Kontroller_process (store_controller allowed window loc before after) w = (w', OK ())" "calm w'"
    "view w' = cycle_spec before after True (view w)" by auto
  have idle: "\<not> holds_slot y" if "y \<in> set ?ys" for y
    using that assms(2,3) cleanup_idle by (auto simp: list_all_iff)
  have none: "\<not> list_ex counted ?ys"
    using idle by (fastforce simp: list_ex_iff counted_def holds_slot_def)
  have "filter ?P ?ys = filter wantsReboot ?ys"
    by (rule filter_cong) (use idle in \<open>auto simp: holds_slot_def\<close>)
  also have "\<dots> = map ?f (filter wantsReboot (view w))"
    by (simp add: filter_map comp_def wants_cleanup [OF assms(2)])
  finally have P: "filter ?P ?ys = ?f x # map ?f xs" by (simp add: assms(4))
  have "wantsReboot x" using assms(4) by (auto dest!: filter_eq_ConsD)
  then have "?f x = x" by (simp add: applied_def cleanup_mutation_def wantsReboot_def)
  with step_first_head [OF P, of "mark_mutation LabelBeforeReboot before"] none
  have "applied (mark_mutation LabelBeforeReboot before) x \<in> set (view w')"
    by (simp add: w'(3) cycle_spec_def choose_spec_def settle_idle [OF assms(2,3)])
  with w' show ?thesis by (auto simp: leads_def)
qed

section \<open>What the writes do to a node\<close>

lemma marked_node:
  assumes "mapped x"
  shows "gomap_get (Annotations (applied (mark_mutation l as) x)) k = (if k \<in> set as then [] else gomap_get (Annotations x) k)"
    and "gomap_get (Labels (applied (mark_mutation l as) x)) k = (if k = l then constTrue else gomap_get (Labels x) k)"
    and "SpecUnschedulable (applied (mark_mutation l as) x) = SpecUnschedulable x"
  using plain_mark.mapped_Inr [OF assms, of l as] by (auto simp: mark_mutation_def mutation_simps map_simps)

lemma before_done_node:
  assumes "mapped x"
  shows "gomap_get (Annotations (applied (before_done_mutation as) x)) k =
      (if k = AnnotationOkToReboot then constTrue else if k \<in> set as then [] else gomap_get (Annotations x) k)"
    and "gomap_get (Labels (applied (before_done_mutation as) x)) k =
      (if k = LabelBeforeReboot then [] else gomap_get (Labels x) k)"
    and "SpecUnschedulable (applied (before_done_mutation as) x) = SpecUnschedulable x"
  using plain_before.mapped_Inr [OF assms, of as]
  by (auto simp: before_done_mutation_def mutation_simps map_simps Let_def)

lemma after_done_node:
  assumes "mapped x"
  shows "gomap_get (Annotations (applied (after_done_mutation as) x)) k =
      (if k = AnnotationOkToReboot then constFalse else if k \<in> set as then [] else gomap_get (Annotations x) k)"
    and "gomap_get (Labels (applied (after_done_mutation as) x)) k =
      (if k = LabelAfterReboot then [] else gomap_get (Labels x) k)"
    and "SpecUnschedulable (applied (after_done_mutation as) x) = SpecUnschedulable x"
  using plain_after.mapped_Inr [OF assms, of as]
  by (auto simp: after_done_mutation_def mutation_simps map_simps Let_def)

lemma annotated_node:
  assumes "mapped x" "distinct (map fst kvs)"
  shows "gomap_get (Annotations (applied (set_annotations kvs) x)) k =
      (case map_of kvs k of Some v \<Rightarrow> v | None \<Rightarrow> gomap_get (Annotations x) k)"
    and "Labels (applied (set_annotations kvs) x) = Labels x"
    and "SpecUnschedulable (applied (set_annotations kvs) x) = SpecUnschedulable x"
  using plain_annotations.mapped_Inr [OF assms(1), of kvs] gomap_get_set_all [OF _ assms(2)]
  by (auto simp: set_annotations_def mutation_simps)

lemma labelled_node:
  assumes "mapped x" "distinct (map fst kvs)"
  shows "gomap_get (Labels (applied (set_labels kvs) x)) k =
      (case map_of kvs k of Some v \<Rightarrow> v | None \<Rightarrow> gomap_get (Labels x) k)"
    and "Annotations (applied (set_labels kvs) x) = Annotations x"
    and "SpecUnschedulable (applied (set_labels kvs) x) = SpecUnschedulable x"
  using plain_labels.mapped_Inr [OF assms(1), of kvs] gomap_get_set_all [OF _ assms(2)]
  by (auto simp: set_labels_def mutation_simps)

lemma applied_both:
  assumes "mapped x"
  shows "applied (set_annotations_labels a l) x = applied (set_labels l) (applied (set_annotations a) x)"
proof -
  have y: "set_annotations a x = Inr (applied (set_annotations a) x)" by (rule plain_annotations.mapped_Inr [OF assms])
  have "mapped (applied (set_annotations a) x)" by (rule plain_annotations.applied_mapped [OF assms])
  from plain_labels.mapped_Inr [OF this] y show ?thesis
    by (simp add: applied_def [of "set_annotations_labels a l"] set_annotations_labels_def)
qed

lemma has_label_node:
  assumes "mapped x"
  shows "gomap_has (Labels (applied (mark_mutation l as) x)) k \<longleftrightarrow> k = l \<or> gomap_has (Labels x) k"
    and "gomap_has (Labels (applied (before_done_mutation as) x)) k \<longleftrightarrow> k \<noteq> LabelBeforeReboot \<and> gomap_has (Labels x) k"
    and "gomap_has (Labels (applied (set_labels kvs) x)) k \<longleftrightarrow> k \<in> fst ` set kvs \<or> gomap_has (Labels x) k"
proof -
  show "gomap_has (Labels (applied (mark_mutation l as) x)) k \<longleftrightarrow> k = l \<or> gomap_has (Labels x) k"
    using plain_mark.mapped_Inr [OF assms, of l as] by (auto simp: mark_mutation_def mutation_simps map_simps)
  show "gomap_has (Labels (applied (before_done_mutation as) x)) k \<longleftrightarrow> k \<noteq> LabelBeforeReboot \<and> gomap_has (Labels x) k"
    using plain_before.mapped_Inr [OF assms, of as]
    by (auto simp: before_done_mutation_def mutation_simps map_simps Let_def)
  obtain ls where "gomap_set_all kvs (Labels x) = Inr ls" "applied (set_labels kvs) x = x\<lparr>Labels := ls\<rparr>"
    using plain_labels.mapped_Inr [OF assms, of kvs] by (auto simp: set_labels_def mutation_simps)
  with gomap_has_set_all show
    "gomap_has (Labels (applied (set_labels kvs) x)) k \<longleftrightarrow> k \<in> fst ` set kvs \<or> gomap_has (Labels x) k" by simp
qed

text \<open>What the configured checks write when they are done; they are no part of the repository.\<close>

definition passed :: "string list \<Rightarrow> (string \<times> string) list" where
  "passed as = map (\<lambda>a. (a, constTrue)) (remdups as)"

lemma map_of_passed: "map_of (passed as) k = (if k \<in> set as then Some constTrue else None)"
proof -
  have "map_of (map (\<lambda>a. (a, constTrue)) bs) k = (if k \<in> set bs then Some constTrue else None)" for bs
    by (induction bs) auto
  then show ?thesis by (simp add: passed_def)
qed

lemma distinct_passed [simp]: "distinct (map fst (passed as))"
  by (simp add: passed_def comp_def)

lemma distinct_agent_keys [simp]:
  "distinct (map fst (info_labels vi))" "distinct (map fst start_annotations)" "distinct (map fst start_labels)"
  "distinct (map fst (progress_annotations b))"
  by (simp_all add: info_labels_def start_annotations_def start_labels_def progress_annotations_def key_simps)

lemmas evolve = marked_node before_done_node after_done_node annotated_node labelled_node has_label_node map_of_passed
  applied_both plain_mark.applied_mapped plain_before.applied_mapped plain_after.applied_mapped
  plain_labels.applied_mapped plain_annotations.applied_mapped

section \<open>The stages of a reboot\<close>

definition permitted :: "node \<Rightarrow> bool" where
  "permitted x \<longleftrightarrow> okToReboot x \<and> rebootNeeded x \<and> \<not> gomap_has (Labels x) LabelBeforeReboot \<and> \<not> afterChecks x"

definition rebooted :: "node \<Rightarrow> bool" where
  "rebooted x \<longleftrightarrow> justRebooted x \<and> \<not> gomap_has (Labels x) LabelBeforeReboot \<and> \<not> afterChecks x"

text \<open>The two fields by which the agent remembers and changes whether pods can be scheduled on the node.\<close>

definition schedule :: "node \<Rightarrow> string \<times> bool" where
  "schedule x = (gomap_get (Annotations x) AnnotationAgentMadeUnschedulable, SpecUnschedulable x)"

definition apart :: "string list \<Rightarrow> bool" where
  "apart as \<longleftrightarrow> checks_apart as \<and> AnnotationAgentMadeUnschedulable \<notin> set as"

lemmas stage_defs = slot_defs wantsReboot_def holds_slot_def permitted_def rebooted_def schedule_def apart_def
  checks_apart_def keys_free_def hasAllAnnotations_iff sel_simps key_simps

lemma cleanup_wants: "wantsReboot x \<Longrightarrow> applied (cleanup_mutation as) x = x"
  by (simp add: applied_def cleanup_mutation_def wantsReboot_def)

lemma cleanup_unlabelled: "\<not> gomap_has (Labels x) LabelBeforeReboot \<Longrightarrow> applied (cleanup_mutation as) x = x"
  by (simp add: applied_def cleanup_mutation_def)

lemma no_label: "\<not> gomap_has m k \<Longrightarrow> gomap_get m k = []"
  by (rule gomap_get_missing)

lemma stage_permitted:
  assumes "mapped x" "wantsReboot x" "\<not> holds_slot x" "apart before"
  defines "y \<equiv> applied (set_annotations (passed before)) (applied (mark_mutation LabelBeforeReboot before) x)"
  shows "permitted (settle_node before after y)" "schedule (settle_node before after y) = schedule x"
proof -
  have m: "mapped y" unfolding y_def by (intro evolve assms(1))
  have y: "wantsReboot y" "beforeChecks y" "\<not> afterChecks y" "hasAllAnnotations y before" "\<not> justRebooted y"
    "schedule y = schedule x"
    unfolding y_def using assms(1-4) by (auto simp: evolve stage_defs)
  then have "settle_node before after y = applied (before_done_mutation before) y"
    by (simp add: settle_node_def cleanup_wants)
  then show "permitted (settle_node before after y)" "schedule (settle_node before after y) = schedule x"
    using m y(1,3,6) assms(4) by (auto simp: evolve stage_defs)
qed

text \<open>The node after the first two writes of an agent that starts.\<close>

definition restarted :: "VersionInfo \<Rightarrow> node \<Rightarrow> node" where
  "restarted vi x =
     applied (set_annotations_labels start_annotations start_labels) (applied (set_labels (info_labels vi)) x)"

lemma restarted_node:
  assumes "mapped x"
  shows "mapped (restarted vi x)" "okToReboot (restarted vi x) = okToReboot x" "schedule (restarted vi x) = schedule x"
    "\<not> rebootNeeded (restarted vi x)" "Name (restarted vi x) = Name x"
  unfolding restarted_def using assms
  by (simp_all add: plain_annotations_labels.applied_mapped evolve stage_defs info_labels_def start_annotations_def start_labels_def)

lemma stage_rebooted: "mapped x \<Longrightarrow> permitted x \<Longrightarrow> rebooted (restarted vi x)"
  by (auto simp: restarted_def evolve stage_defs info_labels_def start_annotations_def start_labels_def)

lemma restarted_free: "mapped x \<Longrightarrow> \<not> holds_slot x \<Longrightarrow> \<not> holds_slot (restarted vi x)"
  by (auto simp: restarted_def evolve stage_defs info_labels_def start_annotations_def start_labels_def)

lemma settle_rebooted:
  assumes "mapped x" "rebooted x"
  shows "settle_node before after x = applied (mark_mutation LabelAfterReboot after) x"
  using assms no_label [of "Labels x" LabelBeforeReboot]
  by (auto simp: settle_node_def cleanup_unlabelled rebooted_def beforeChecks_def evolve key_simps)

lemma settle_confirmed:
  assumes "mapped x" "afterChecks x" "hasAllAnnotations x after" "\<not> gomap_has (Labels x) LabelBeforeReboot"
  shows "settle_node before after x = applied (after_done_mutation after) x"
proof -
  have "\<not> justRebooted (applied (after_done_mutation after) x)" "\<not> beforeChecks (applied (after_done_mutation after) x)"
    using assms(1) no_label [OF assms(4)] by (auto simp: evolve stage_defs)
  with assms(2-4) show ?thesis by (simp add: settle_node_def cleanup_unlabelled)
qed

lemma stage_done:
  assumes "mapped x" "rebooted x" "apart after"
  shows "\<not> wantsReboot (settle_node before after x)"
    "\<not> wantsReboot (settle_node before after (applied (set_annotations (passed after)) (settle_node before after x)))"
    "\<not> holds_slot (settle_node before after (applied (set_annotations (passed after)) (settle_node before after x)))"
    "schedule (settle_node before after (applied (set_annotations (passed after)) (settle_node before after x))) = schedule x"
proof -
  let ?y = "applied (mark_mutation LabelAfterReboot after) x"
  let ?z = "applied (set_annotations (passed after)) ?y"
  note no = no_label [of "Labels x" LabelBeforeReboot]
  have m: "mapped ?y" "mapped ?z" by (intro evolve assms(1))+
  have "afterChecks ?z" "hasAllAnnotations ?z after" "\<not> gomap_has (Labels ?z) LabelBeforeReboot"
    using assms m by (auto simp: evolve stage_defs)
  note z = settle_confirmed [OF m(2) this]
  show "\<not> wantsReboot (settle_node before after x)"
    using assms by (auto simp: settle_rebooted evolve stage_defs)
  show "\<not> wantsReboot (settle_node before after (applied (set_annotations (passed after)) (settle_node before after x)))"
    "\<not> holds_slot (settle_node before after (applied (set_annotations (passed after)) (settle_node before after x)))"
    "schedule (settle_node before after (applied (set_annotations (passed after)) (settle_node before after x))) = schedule x"
    unfolding settle_rebooted [OF assms(1,2)] z using assms m no by (auto simp: evolve stage_defs)
qed

section \<open>The agent on a cluster at rest\<close>

lemma run_leads: "leads m w w' x \<Longrightarrow> run_bind (run_go m) f w = f () w'"
  by (simp add: leads_def run_bind_def run_go_def)

lemma calm_mapped: "calm w \<Longrightarrow> x \<in> set (view w) \<Longrightarrow> mapped x"
  by (auto simp: calm_def view_def list_all_iff)

text \<open>An agent whose calls about nodes go to the store and whose calls about pods leave the store alone.\<close>

definition silent :: "('w \<Rightarrow> 'w \<times> 'a) \<Rightarrow> bool" where
  "silent m \<longleftrightarrow> (\<forall>w. fst (m w) = w)"

definition silent_pods :: "'w kube_iface \<Rightarrow> bool" where
  "silent_pods kube \<longleftrightarrow>
     (\<forall>ns sel w. \<exists>ps. pods_List kube ns sel w = (w, Inr ps)) \<and>
     (\<forall>ns name. silent (ds_Get kube ns name) \<and> silent (pods_Get kube ns name) \<and> silent (pods_Delete kube ns name))"

definition on_store :: "(action \<Rightarrow> cluster \<Rightarrow> bool) \<Rightarrow> string \<Rightarrow> nat \<Rightarrow> store Klocksmith \<Rightarrow> bool" where
  "on_store allowed name fuel a \<longleftrightarrow> ag_nc a = store_nc allowed \<and> ag_node a = name \<and> silent_pods (ag_kc a) \<and>
     (\<exists>n<fuel. ag_poller a (ag_reapTimeout a) = Some n)"

lemma silent_pod_gone: "silent_pods (ag_kc a) \<Longrightarrow> \<exists>b. pod_gone a p w = (w, OK b)"
  unfolding silent_pods_def silent_def pod_gone_def by (metis (no_types, lifting) case_prod_beta prod.collapse)

lemma silent_wait:
  assumes "\<And>w. \<exists>b. c w = (w, OK b)"
  shows "n < fuel \<Longrightarrow> \<exists>r. WaitFor fuel (Some n) c w = Some (w, r) \<and> (\<forall>p. r \<noteq> Panic p)"
proof (induction fuel arbitrary: n)
  case (Suc fuel)
  obtain b where "c w = (w, OK b)" using assms by blast
  with Suc show ?case by (cases n) auto
qed simp

lemma silent_wait_pod:
  assumes "silent_pods (ag_kc a)" "ag_poller a (ag_reapTimeout a) = Some n" "n < fuel"
  shows "run_logged (waitForPodDeletion fuel a p) w = Some (w, OK ())"
proof -
  obtain b where b: "pod_gone a p w = (w, OK b)" using silent_pod_gone [OF assms(1)] by blast
  obtain r where "WaitFor fuel (Some n) (pod_gone a p) w = Some (w, r)" "\<forall>p. r \<noteq> Panic p"
    using silent_wait [where c = "pod_gone a p", OF silent_pod_gone [OF assms(1)] assms(3)] by blast
  with b assms(2) show ?thesis
    by (cases r) (auto simp: run_logged_def waitForPodDeletion_def PollImmediate_def)
qed

lemma run_each_still: "(\<And>x. f x w = Some (w, OK ())) \<Longrightarrow> run_each f xs w = Some (w, OK ())"
  by (induction xs) (simp_all add: run_bind_def)

lemma silent_owner: "silent_pods kube \<Longrightarrow> \<exists>r. owner_loop kube p refs w = (w, r) \<and> (\<forall>q. r \<noteq> Panic q)"
proof (induction refs)
  case (Cons ref refs)
  have "fst (ds_Get kube (Namespace p) (OwnerName ref) w) = w" using Cons.prems by (simp add: silent_pods_def silent_def)
  then obtain g where "ds_Get kube (Namespace p) (OwnerName ref) w = (w, g)" by (metis prod.collapse)
  with Cons show ?case by (cases g) (auto simp: getDaemonsetController_def go_call_def)
qed simp

lemma silent_pods_loop: "silent_pods kube \<Longrightarrow> \<exists>ps'. pods_loop kube pods ps w = (w, OK ps')"
proof (induction ps arbitrary: pods)
  case (Cons p ps)
  obtain r where "getOwnerDaemonset kube p w = (w, r)" "\<forall>q. r \<noteq> Panic q"
    using silent_owner [OF Cons.prems, of p "OwnerReferences p" w]
    by (cases "OwnerReferences p = []") (auto simp: getOwnerDaemonset_def)
  with Cons show ?case by (cases r) auto
qed simp

lemma silent_pods_part:
  assumes "silent_pods (ag_kc a)" "ag_poller a (ag_reapTimeout a) = Some n" "n < fuel"
  shows "run_bind (run_go (getPodsForDeletion a)) (\<lambda>pods. run_bind (run_each (delete_pod a) pods)
     (\<lambda>_. run_each (\<lambda>p. run_logged (waitForPodDeletion fuel a p)) pods)) w = Some (w, OK ())"
proof -
  let ?sel = "selector_String (SelectorFromSet (Some [(''spec.nodeName'', ag_node a)]))"
  obtain qs where qs: "pods_List (ag_kc a) [] ?sel w = (w, Inr qs)"
    using assms(1) unfolding silent_pods_def by blast
  obtain ps where ps: "pods_loop (ag_kc a) [] qs w = (w, OK ps)" using silent_pods_loop [OF assms(1)] by blast
  have "getPodsForDeletion a w = (w, OK (FilterPods ps (\<lambda>p. if Namespace p = kube_system then False else True)))"
    by (simp add: getPodsForDeletion_def GetPodsForDeletion_def go_bind_def go_call_def go_wrap_def qs ps del: pods_loop.simps)
  moreover have "delete_pod a p w = Some (w, OK ())" for p
  proof -
    have "fst (pods_Delete (ag_kc a) (Namespace p) (PodName p) w) = w" using assms(1) by (simp add: silent_pods_def silent_def)
    then obtain e where "pods_Delete (ag_kc a) (Namespace p) (PodName p) w = (w, e)" by (metis prod.collapse)
    then show ?thesis by (cases e) (simp_all add: delete_pod_def run_logged_def run_go_def go_error_def)
  qed
  ultimately show ?thesis
    by (simp add: run_bind_def run_go_def run_each_still silent_wait_pod [OF assms])
qed

text \<open>The node that is drained.\<close>

definition drained_node :: "node \<Rightarrow> node" where
  "drained_node x = (applied (set_annotations (progress_annotations (SpecUnschedulable x))) x)\<lparr>SpecUnschedulable := True\<rparr>"

lemma drained_node:
  assumes "mapped x" "permitted x"
  shows "mapped (drained_node x)" "permitted (drained_node x)" "Name (drained_node x) = Name x"
    "schedule (drained_node x) = (if SpecUnschedulable x then fst (schedule x) else constTrue, True)"
    "gomap_get (Annotations (drained_node x)) AnnotationRebootInProgress = constTrue"
proof -
  show "mapped (drained_node x)"
    using plain_annotations.applied_mapped [OF assms(1)] by (simp add: drained_node_def mapped_def)
qed (use assms in \<open>auto simp: drained_node_def evolve stage_defs progress_annotations_def\<close>)

lemma unchanged_spec:
  fixes z :: node
  shows "SpecUnschedulable z = b \<Longrightarrow> z\<lparr>SpecUnschedulable := b\<rparr> = z"
  by (cases z) simp

lemma drain_calm:
  assumes "calm w" "x \<in> set (view w)" "on_store allowed (Name x) fuel a"
  shows "\<exists>w'. drain_node fuel a w = Some (w', OK ()) \<and> calm w' \<and> drained_node x \<in> set (view w')"
proof -
  from assms(3) obtain n where a: "ag_nc a = store_nc allowed" "ag_node a = Name x" "silent_pods (ag_kc a)"
    "ag_poller a (ag_reapTimeout a) = Some n" "n < fuel" by (auto simp: on_store_def)
  obtain v where v: "get_node a w = Some (w, OK v)" "unversioned v = x"
    using get_node_calm [OF assms(1,2) a(1,2)] by blast
  then have s: "SpecUnschedulable v = SpecUnschedulable x" by (auto simp: unversioned_def)
  let ?kvs = "progress_annotations (SpecUnschedulable x)"
  let ?y = "applied (set_annotations ?kvs) x"
  obtain w1 where w1: "leads (SetNodeAnnotations (store_nc allowed) (Name x) ?kvs) w w1 ?y"
    using update_leads [OF plain_annotations.plain_mutation_axioms assms(1,2)] unfolding SetNodeAnnotations_def by blast
  obtain w2 where w2: "leads (Unschedulable (store_nc allowed) (Name x) True) w1 w2 (?y\<lparr>SpecUnschedulable := True\<rparr>)"
    using schedule_leads [of w1 ?y] w1 by (auto simp: leads_def)
  have y: "?y\<lparr>SpecUnschedulable := True\<rparr> = drained_node x" "SpecUnschedulable ?y = SpecUnschedulable x"
    using calm_mapped [OF assms(1,2)] by (auto simp: drained_node_def evolve)
  have run: "drain_node fuel a w = run_bind (if \<not> SpecUnschedulable x
      then run_go (Unschedulable (store_nc allowed) (Name x) True) else run_go (go_return ()))
      (\<lambda>_. run_bind (run_go (getPodsForDeletion a)) (\<lambda>pods. run_bind (run_each (delete_pod a) pods)
     (\<lambda>_. run_each (\<lambda>p. run_logged (waitForPodDeletion fuel a p)) pods))) w1"
    by (simp add: drain_node_def run_bind_def [of "get_node a"] v s a(1,2) Let_def run_leads [OF w1]
        split del: if_split cong: if_cong)
  show ?thesis
  proof (cases "SpecUnschedulable x")
    case True
    then have "?y = drained_node x" using y unchanged_spec [of ?y True] by simp
    with True w1 run show ?thesis
      using silent_pods_part [OF a(3-5), of w1] by (auto simp: leads_def run_bind_def [of "run_go (go_return ())"] run_go_def)
  next
    case False
    with w2 y(1) show ?thesis
      by (simp add: run run_leads [OF w2] silent_pods_part [OF a(3-5), of w2]) (simp add: leads_def)
  qed
qed

lemma start_writes:
  assumes "calm w" "x \<in> set (view w)" "on_store allowed (Name x) fuel a" "GetVersionInfo (ag_files a) = Inr vi"
  shows "\<exists>w'. calm w' \<and> restarted vi x \<in> set (view w') \<and> agent_start fuel a w =
     run_bind (waitForNotOkToReboot fuel a) (\<lambda>_. if fst (schedule x) = constTrue then make_schedulable a
       else run_go (go_return ())) w'"
proof -
  have a: "ag_nc a = store_nc allowed" "ag_node a = Name x" using assms(3) by (auto simp: on_store_def)
  let ?y = "applied (set_labels (info_labels vi)) x"
  obtain w1 where w1: "leads (SetNodeLabels (store_nc allowed) (Name x) (info_labels vi)) w w1 ?y"
    using update_leads [OF plain_labels.plain_mutation_axioms assms(1,2)] unfolding SetNodeLabels_def by blast
  obtain v where v: "get_node a w1 = Some (w1, OK v)" "unversioned v = ?y"
    using get_node_calm [of w1 ?y] w1 a by (auto simp: leads_def)
  obtain w2 where w2: "leads (SetNodeAnnotationsLabels (store_nc allowed) (Name x) start_annotations start_labels) w1 w2
      (restarted vi x)"
    using update_leads [OF plain_annotations_labels.plain_mutation_axioms [of start_annotations start_labels],
        of w1 ?y allowed] w1
    unfolding SetNodeAnnotationsLabels_def restarted_def leads_def by (auto simp: plain_labels.applied_name)
  have ann: "Annotations v = Annotations x"
    using v(2) calm_mapped [OF assms(1,2)] by (metis unversioned_simps(4) labelled_node(2) distinct_agent_keys(1))
  have "setInfoLabels a w = (w1, OK ())" using w1 by (simp add: setInfoLabels_def assms(4) a leads_def)
  then have "agent_start fuel a w =
     run_bind (waitForNotOkToReboot fuel a) (\<lambda>_. if fst (schedule x) = constTrue then make_schedulable a
       else run_go (go_return ())) w2"
    by (simp add: agent_start_def run_bind_def [of "run_wrap _ _"] run_wrap_def run_go_def [of "setInfoLabels a"]
        run_bind_def [of "get_node a"] run_leads [OF w2] v(1) ann a Let_def schedule_def)
  with w2 show ?thesis by (auto simp: leads_def)
qed

lemma start_waits:
  assumes "calm w" "x \<in> set (view w)" "on_store allowed (Name x) fuel a" "GetVersionInfo (ag_files a) = Inr vi"
    and "okToReboot x"
  shows "\<exists>w' e. agent_start fuel a w = Some (w', Err e) \<and> calm w' \<and> restarted vi x \<in> set (view w')"
proof -
  obtain w1 where w1: "calm w1" "restarted vi x \<in> set (view w1)" "agent_start fuel a w =
     run_bind (waitForNotOkToReboot fuel a) (\<lambda>_. if fst (schedule x) = constTrue then make_schedulable a
       else run_go (go_return ())) w1"
    using start_writes [OF assms(1-4)] by blast
  note r = restarted_node [OF calm_mapped [OF assms(1,2)], of vi]
  obtain v where v: "nc_Get (store_nc allowed) (Name x) w1 = (w1, Inr v)" "unversioned v = restarted vi x"
    using get_calm [OF w1(1,2), of allowed] r(5) by auto
  have "gomap_get (Annotations v) AnnotationOkToReboot = constTrue"
    using r(2) assms(5) v(2) by (metis okToReboot_def unversioned_simps(4))
  moreover have "nc_Watch (store_nc allowed) sel n w1 = (w1, Inl (ErrorString ''no watches''))" for sel n
    by (simp add: store_nc_def)
  ultimately have "\<exists>e. waitForNotOkToReboot fuel a w1 = Some (w1, Err e)"
    using v(1) assms(3) by (simp add: waitForNotOkToReboot_def wait_for_node_def on_store_def)
  with w1 show ?thesis by (auto simp: run_bind_def [of "waitForNotOkToReboot fuel a"])
qed

lemma start_done:
  assumes "calm w" "x \<in> set (view w)" "on_store allowed (Name x) fuel a" "GetVersionInfo (ag_files a) = Inr vi"
    and "\<not> okToReboot x"
  shows "\<exists>w' y. agent_start fuel a w = Some (w', OK ()) \<and> calm w' \<and> y \<in> set (view w') \<and> Name y = Name x \<and>
     \<not> rebootNeeded y \<and> (\<not> holds_slot x \<longrightarrow> \<not> holds_slot y) \<and>
     SpecUnschedulable y = (if fst (schedule x) = constTrue then False else SpecUnschedulable x)"
proof -
  let ?y = "restarted vi x" and ?kvs = "[(AnnotationAgentMadeUnschedulable, constFalse)]"
  have a: "ag_nc a = store_nc allowed" "ag_node a = Name x" using assms(3) by (auto simp: on_store_def)
  obtain w1 where w1: "calm w1" "?y \<in> set (view w1)" "agent_start fuel a w =
     run_bind (waitForNotOkToReboot fuel a) (\<lambda>_. if fst (schedule x) = constTrue then make_schedulable a
       else run_go (go_return ())) w1"
    using start_writes [OF assms(1-4)] by blast
  note mx = calm_mapped [OF assms(1,2)]
  note r = restarted_node [OF mx, of vi] restarted_free [OF mx, of vi]
  obtain v where v: "nc_Get (store_nc allowed) (Name x) w1 = (w1, Inr v)" "unversioned v = ?y"
    using get_calm [OF w1(1,2), of allowed] r(5) by auto
  have "gomap_get (Annotations v) AnnotationOkToReboot \<noteq> constTrue"
    using r(2) assms(5) v(2) by (metis okToReboot_def unversioned_simps(4))
  then have "waitForNotOkToReboot fuel a w1 = Some (w1, OK ())"
    using v(1) a by (simp add: waitForNotOkToReboot_def wait_for_node_def)
  with w1(3) have run: "agent_start fuel a w = (if fst (schedule x) = constTrue then make_schedulable a
       else run_go (go_return ())) w1" by (simp add: run_bind_def)
  show ?thesis
  proof (cases "fst (schedule x) = constTrue")
    case False
    with run w1(1,2) r show ?thesis by (auto simp: run_go_def schedule_def)
  next
    case True
    obtain w2 where w2: "leads (Unschedulable (store_nc allowed) (Name x) False) w1 w2 (?y\<lparr>SpecUnschedulable := False\<rparr>)"
      using schedule_leads [OF w1(1,2), of allowed False] r(5) by auto
    let ?z = "applied (set_annotations ?kvs) (?y\<lparr>SpecUnschedulable := False\<rparr>)"
    obtain w3 where w3: "leads (SetNodeAnnotations (store_nc allowed) (Name x) ?kvs) w2 w3 ?z"
      using update_leads [OF plain_annotations.plain_mutation_axioms [of ?kvs], of w2 "?y\<lparr>SpecUnschedulable := False\<rparr>" allowed] w2 r(5)
      unfolding SetNodeAnnotations_def by (auto simp: leads_def)
    have "mapped (?y\<lparr>SpecUnschedulable := False\<rparr>)" using r(1) by (simp add: mapped_def)
    then have "\<not> rebootNeeded ?z" "\<not> holds_slot x \<longrightarrow> \<not> holds_slot ?z" "\<not> SpecUnschedulable ?z" "Name ?z = Name x"
      using r by (auto simp: evolve stage_defs)
    moreover have "agent_start fuel a w = Some (w3, OK ())"
      using w3 by (simp add: run True make_schedulable_def a run_leads [OF w2]) (simp add: run_go_def leads_def)
    ultimately show ?thesis using w3 True by (auto simp: leads_def)
  qed
qed

lemma await_calm:
  assumes "calm w" "x \<in> set (view w)" "on_store allowed (Name x) fuel a" "permitted x" "0 < n"
  shows "await_ok n fuel a w = Some (w, OK ())"
proof -
  obtain v where v: "nc_Get (store_nc allowed) (Name x) w = (w, Inr v)" "unversioned v = x"
    using get_calm [OF assms(1,2), of allowed] by blast
  then have "Annotations v = Annotations x" by auto
  with v assms(3-5) show ?thesis
    by (cases n) (auto simp: waitForOkToReboot_def wait_for_node_def on_store_def permitted_def okToReboot_def rebootNeeded_def)
qed

section \<open>A whole reboot\<close>

lemma settle_name: "Name (settle_node before after x) = Name x"
  by (simp add: settle_node_def Let_def)

lemma permission_calm:
  assumes "calm w" "list_all (\<lambda>x. \<not> holds_slot x) (view w)" "filter wantsReboot (view w) = x # xs"
    and "window_test window loc (st_clock w)" "apart before"
  shows "\<exists>w1 w2 w3 y. let k = store_controller allowed window loc before after in
     Kontroller_process k w = (w1, OK ()) \<and>
     SetNodeAnnotations (store_nc allowed) (Name x) (passed before) w1 = (w2, OK ()) \<and>
     Kontroller_process k w2 = (w3, OK ()) \<and> calm w3 \<and> y \<in> set (view w3) \<and> Name y = Name x \<and>
     permitted y \<and> schedule y = schedule x"
proof -
  let ?m = "applied (mark_mutation LabelBeforeReboot before) x"
  let ?p = "applied (set_annotations (passed before)) ?m"
  let ?y = "settle_node before after ?p"
  from assms(3) have x: "x \<in> set (view w)" "wantsReboot x" by (auto dest!: filter_eq_ConsD)
  then have mx: "mapped x" "\<not> holds_slot x" using assms(1,2) calm_mapped by (auto simp: list_all_iff)
  note stage = stage_permitted [OF mx(1) x(2) mx(2) assms(5), of after]
  have "checks_apart before" using assms(5) by (simp add: apart_def)
  from choice_leads [OF assms(1) this assms(2-4), of allowed after]
  obtain w1 where w1: "leads (Kontroller_process (store_controller allowed window loc before after)) w w1 ?m" by blast
  obtain w2 where w2: "leads (SetNodeAnnotations (store_nc allowed) (Name x) (passed before)) w1 w2 ?p"
    using update_leads [OF plain_annotations.plain_mutation_axioms [of "passed before"], of w1 ?m allowed] w1
    unfolding SetNodeAnnotations_def by (auto simp: leads_def)
  have "\<not> wantsReboot ?y" using stage(1) wants_free by (auto simp: permitted_def)
  with cycle_leads [of w2 ?p before after allowed window loc] w2
  obtain w3 where w3: "leads (Kontroller_process (store_controller allowed window loc before after)) w2 w3 ?y"
    by (auto simp: leads_def)
  show ?thesis using w1 w2 w3 stage by (auto simp: leads_def Let_def settle_name intro!: exI [of _ ?y])
qed

lemma confirmation_calm:
  assumes "calm w" "x \<in> set (view w)" "rebooted x" "apart after"
  shows "\<exists>w1 w2 w3 y. let k = store_controller allowed window loc before after in
     Kontroller_process k w = (w1, OK ()) \<and>
     SetNodeAnnotations (store_nc allowed) (Name x) (passed after) w1 = (w2, OK ()) \<and>
     Kontroller_process k w2 = (w3, OK ()) \<and> calm w3 \<and> y \<in> set (view w3) \<and> Name y = Name x \<and>
     \<not> holds_slot y \<and> schedule y = schedule x"
proof -
  let ?m = "settle_node before after x"
  let ?p = "applied (set_annotations (passed after)) ?m"
  let ?y = "settle_node before after ?p"
  note stage = stage_done [OF calm_mapped [OF assms(1,2)] assms(3,4), of before]
  obtain w1 where w1: "leads (Kontroller_process (store_controller allowed window loc before after)) w w1 ?m"
    using cycle_leads [OF assms(1,2) stage(1)] by blast
  obtain w2 where w2: "leads (SetNodeAnnotations (store_nc allowed) (Name x) (passed after)) w1 w2 ?p"
    using update_leads [OF plain_annotations.plain_mutation_axioms [of "passed after"], of w1 ?m allowed] w1
    unfolding SetNodeAnnotations_def by (auto simp: leads_def settle_name)
  obtain w3 where w3: "leads (Kontroller_process (store_controller allowed window loc before after)) w2 w3 ?y"
    using cycle_leads [of w2 ?p before after allowed window loc] stage(2) w2 by (auto simp: leads_def)
  show ?thesis using w1 w2 w3 stage by (auto simp: leads_def Let_def settle_name intro!: exI [of _ ?y])
qed

section \<open>Properties\<close>


definition returning_agent :: "store Klocksmith" where
  "returning_agent =
     \<lparr>ag_node = ''b'', ag_kc = no_kube, ag_nc = store_nc anything, ag_reapTimeout = 600000000000, ag_files = release_files,
      ag_poller = (\<lambda>_. Some 60), ag_spawn = id, ag_Reboot = id, ag_sleep = id\<rparr>"


end
