(* ===== verification/Spec2Isabelle.thy ===== *)
theory Spec2Isabelle
  imports Races Commands Cycle_Spec Agent_Rely Lifecycle
begin

text \<open>
  A verification of the Container Linux Update Operator, two Go programs that reboot the nodes of
  a Kubernetes cluster one at a time after an update of their operating system.

  \<^bold>\<open>The parts and how they interact.\<close> The \<^emph>\<open>update-agent\<close> (\<open>src/pkg/agent\<close>, \<open>src/cmd/update-agent\<close>)
  runs on every node. It listens to update_engine over D-Bus (\<open>src/pkg/updateengine\<close>), announces
  on its node object that a reboot is needed, waits until the operator allows it, drains the node
  (\<open>src/pkg/drain\<close>) and asks logind to reboot. The \<^emph>\<open>update-operator\<close> (\<open>src/pkg/operator\<close>,
  \<open>src/cmd/update-operator\<close>) runs once per cluster, behind a leader election. In each cycle it
  lists the nodes and moves them through the protocol: before-reboot checks, permission, reboot,
  after-reboot checks. The two never talk to each other: all communication goes through labels
  and annotations (\<open>src/pkg/constants\<close>) of the node objects, read and written through the API
  server with optimistic concurrency (\<open>src/pkg/k8sutil\<close>).

  \<^bold>\<open>The theories.\<close>

  \<^item> \<open>Prelude\<close>: Go errors and panics, stateful calls \<open>go\<close> and their sequencing, Go maps (nil or a
    map), strings, Hoare triples over calls. \<open>Decimal\<close>: numerals of \<open>strconv\<close>. \<open>Constants\<close>: the keys.
  \<^item> \<open>Field_Selectors\<close>, \<open>Label_Requirements\<close>: the selectors of apimachinery the code uses, with their
    parser and printer. \<open>Nodes\<close>: the objects, the interface \<open>v1core.NodeInterface\<close> as a record of
    functions on the world, and the filters of \<open>selector.go\<close> and \<open>pods.go\<close>. \<open>Kube_Client\<close>: daemon
    sets and pods in the same way.
  \<^item> \<open>Retry\<close>: \<open>retry.go\<close> over \<open>wait.ExponentialBackoff\<close>. \<open>Node_Updates\<close>: the node part of
    \<open>metadata.go\<close>. \<open>Version_Info\<close>: its other half, on a file system that is a parameter.
  \<^item> \<open>Reboot_Window\<close>, \<open>Window_Config\<close>: reboot windows (locksmith's \<open>periodic.go\<close>), instants and
    durations as integers of nanoseconds, a time zone as a constant offset.
  \<^item> \<open>Operator\<close>: \<open>process\<close> and its five phases in \<open>operator.go\<close>; the record \<open>Kontroller\<close> is the
    struct. \<open>Agent_Manager\<close>, \<open>Semver\<close>: \<open>agent_manager.go\<close> and the versions it compares.
  \<^item> \<open>Update_Engine\<close>, \<open>Drain\<close>, \<open>Agent\<close>: the agent; the record \<open>Klocksmith\<close> is the struct.
  \<^item> \<open>Leader_Election\<close>: \<open>leaderelection.go\<close> of client-go. \<open>Lease_Safety\<close>: the rules of the election and
    the contract of its lock (locale \<open>lease_lock\<close>). \<open>Config_Map_Lock\<close>: \<open>configmaplock.go\<close>, the lock of
    the operator; it meets that contract (a \<open>sublocale\<close>) on any API server with optimistic
    concurrency (locale \<open>configmap_api\<close>). \<open>Lease_Store\<close>: an executable API server of this kind.
  \<^item> \<open>Flags\<close>: flag sets, and flags from the environment (\<open>flagutil\<close>). \<open>Commands\<close>: the constructors, \<open>Run\<close>
    of the operator behind its leader election, and the two \<open>main\<close> functions.
  \<^item> \<open>Cluster\<close>: the contract of the API server (locale \<open>node_api\<close>). \<open>Reboot_Safety\<close>: the protocol
    under that contract (locale \<open>operator_env\<close>). \<open>Store\<close>: an executable server with a script of
    interference and faults that meets it. \<open>Cycle_Spec\<close>: a cycle as a function on lists of nodes.
    \<open>Agent_Safety\<close>, \<open>Agent_Rely\<close>: the writes and the whole run of the agent under the protocol
    (locale \<open>agent_env\<close>). \<open>Lifecycle\<close>: one node followed through a whole reboot, operator and agent
    composed. \<open>Races\<close>: where the protocol breaks.

  \<^bold>\<open>State and effects.\<close> The world \<open>'w\<close> is a parameter. A call that can fail is a function from a world
  to a world and a \<open>result\<close> (\<open>OK\<close>, \<open>Err\<close> or \<open>Panic\<close>); every error return and every panic of the code
  is a branch. Other parties act inside the calls: a call to the API takes the world to any world
  that its contract allows. The contracts state documented behaviour of code that is not in the
  repository: reads return what is stored, a write with an outdated resource version is refused.
  Each is met by an executable instance, on which the witnesses evaluate the program.

  \<^bold>\<open>What is shown.\<close>

  \<^item> Coordination. A node \<^emph>\<open>holds the slot\<close> while it may reboot or is under checks. Under the rules of
    the protocol at most \<open>maxRebootingNodes\<close> nodes hold it in every state the operator reaches
    (\<open>reboot_slots_bounded\<close>), through a whole run of the operator (\<open>operator_run_bounded\<close>) and of
    the agent (\<open>agent_keeps_slots_bounded\<close>). The rules say what others may do during a cycle
    (\<open>quiet_step\<close>: leave the keys of the operator alone, and on the slot holder those its phase
    rests on) and between two cycles (\<open>free_step\<close>: agents also start, nodes disappear). The writes
    of the agent keep them, with one exception: its write at the start, on the slot holder, in the
    middle of a cycle. The code does not prevent this, and \<open>race_gives_slot_twice\<close> is the run that
    breaks the bound.
  \<^item> Leader election. While an operator runs no other replica can have been elected
    (\<open>operator_leads_alone\<close>, down to the annotation of the config map), and its own attempts follow the rules that this rests on
    (\<open>election_keeps_rules\<close>).
  \<^item> The cycle. On a cluster at rest it implements an abstract function (\<open>cycle_refines_spec\<close>), from
    which progress follows (\<open>reboot_permission_granted\<close>); which nodes are chosen, what happens
    outside of the window, how a cycle can end, when its closures panic. Composed with the functions
    of the agent it takes a node through a whole reboot and back (\<open>node_reboots_and_returns\<close>).
  \<^item> The agent reboots only with a permission it has seen and after a drain, never after a failure;
    the drain ends; the watcher reports each change once; which pods are deleted.
  \<^item> Updates of nodes are atomic and a failed one writes nothing; how often and what is retried.
  \<^item> The command line comes before the environment and the environment before the defaults
    (\<open>flags_precedence\<close>).
  \<^item> The window test is exact, the versions are ordered and can be printed and parsed back, and so
    for selectors, environment files and D-Bus bodies; the managed daemon set is kept up to date.
  \<^item> Where the code does not do what it means to: retries that hide their error, a nil dereference,
    a conflict that cannot be retried, waits that end with any error, daemon set pods that are
    deleted, a connection that is left open, writes to nil maps.

  \<^bold>\<open>Fuel and bounds.\<close> Loops that wait for others (\<open>Until\<close>, \<open>WaitFor\<close>, \<open>await_ok\<close>) take fuel, and a run
  of the agent is \<open>None\<close> when it does not suffice. More fuel changes nothing (\<open>WaitFor_mono\<close>), and
  one more than the number of poll intervals in the grace period is enough for a drain
  (\<open>draining_ends\<close>); no fuel is enough for a grace period of 0 (\<open>zero_grace_period_never_ends\<close>).
  The operator's \<open>Run\<close> is stopped after an arbitrary number of cycles, and is \<open>None\<close> if it has not
  been elected within the given number of attempts; the election is observed after any number
  of attempts and renewals. With the durations the operator configures (a lease of 90 seconds, a
  deadline of 60), 22 calls, the deadline and the second lost by truncating times fit into the
  lease if no call takes longer than 1.3 seconds. Integers are machine words
  where they can wrap: version numbers, the fields of a status, and the grace period, whose
  product with a second is exact within the bound of \<open>grace_period_exact\<close>.

  \<^bold>\<open>Not modelled.\<close> Log lines and events, which change no state the program reads, and
  \<open>Status.String\<close>, which only formats one. The flags of glog, the event recorder, D-Bus, logind,
  the API server with its config maps and their JSON, and the clock are parameters. The renewals of the election run beside the cycles of the operator; they touch no
  node. Pauses and backoff delays have no length, the week that the agent sleeps
  after it has asked for the reboot (\<open>sleepOrDone\<close>) included; what can happen during them is left to
  the environment. The waits for deleted pods run in parallel in the code and one after the other here;
  they only read. Time zones with a changing offset are left out. The mocks are generated, and
  tests and manifests are no part of the programs.
\<close>

section \<open>Reboot coordination\<close>

text \<open>
  C1: Nodes reboot one at a time. Starting from the slot invariant, after any number of cycles of the
  operator, with any calls failing, with what \<open>quiet_step\<close> allows others to do during a cycle and
  \<open>free_step\<close> between two cycles, at most \<open>maxRebootingNodes\<close> nodes are allowed to reboot or under checks.
\<close>

theorem reboot_slots_bounded:
  assumes "operator_env k cl env good" and "operated k cl good w0 w"
    and "good w0" and "slot_inv (cl w0)"
  shows "length (filter holds_slot (items (cl w))) \<le> maxRebootingNodes"
proof -
  have "good w" "slot_inv (cl w)"
    using operator_env.operated_slot [OF assms] by simp_all
  moreover from this have "cluster_wf (cl w)"
    by (intro node_api.good_wf [OF operator_env.axioms(1) [OF assms(1)]])
  ultimately show ?thesis using slot_inv_length by (simp add: maxRebootingNodes_def)
qed

definition quiet_controller :: "store Kontroller" where
  "quiet_controller =
     store_controller quiet_action None 0 [Prefix @ ''before-reboot-test''] [Prefix @ ''after-reboot-test'']"

definition two_waiting :: cluster where
  "two_waiting = \<lparr>rev_no = 1, items =
     [plain_node ''a'' [] [(AnnotationRebootNeeded, constTrue)], waiting_node]\<rparr>"

theorem reboot_slots_bounded_witness:
  "let w0 = \<lparr>st_cluster = two_waiting, st_script = [], st_clock = 0\<rparr>;
       w = fst (Kontroller_process quiet_controller w0)
   in length (filter holds_slot (items (st_cluster w))) \<le> maxRebootingNodes \<and>
      filter holds_slot (items (st_cluster w)) \<noteq> []"
proof -
  let ?start = "\<lparr>st_cluster = two_waiting, st_script = [], st_clock = 0\<rparr>"
  let ?w = "fst (Kontroller_process quiet_controller ?start)"
  have "operator_env quiet_controller st_cluster (env_rel quiet_action) (\<lambda>w. cluster_wf (st_cluster w))"
    unfolding quiet_controller_def by (rule example_checks.quiet_server.operator_env_axioms)
  moreover have "operated quiet_controller st_cluster (\<lambda>w. cluster_wf (st_cluster w)) ?start ?w"
    by (rule operated.cycle [OF operated.start prod.collapse [symmetric]])
  moreover have "cluster_wf (st_cluster ?start)"
    by code_simp
  moreover have "slot_inv (st_cluster ?start)"
    by (intro slot_free_inv slot_free_items) code_simp
  ultimately have "length (filter holds_slot (items (st_cluster ?w))) \<le> maxRebootingNodes"
    by (rule reboot_slots_bounded)
  moreover have "filter holds_slot (items (st_cluster ?w)) \<noteq> []"
    by code_simp
  ultimately show ?thesis by (simp add: Let_def)
qed


text \<open>A lock that nobody holds.\<close>

definition free_maps :: "store configmaps" where
  "free_maps = \<lparr>cms_Get = (\<lambda>_ _ w. (w, zero_ConfigMap, Some (StatusError ''NotFound'' []))), cms_Create = (\<lambda>_ c w. (w, c, None)),
     cms_Update = (\<lambda>_ c w. (w, c, None))\<rparr>"

definition idle_timers :: "store timers" where
  "idle_timers = \<lparr>tm_Now = (\<lambda>w. (w, st_clock w)), tm_pause = (\<lambda>_. id), tm_poller = (\<lambda>_ d w. (w, st_clock w + d)),
     tm_receive = (\<lambda>_ w. (w, False)), tm_started = id, tm_stopped = id\<rparr>"

definition quiet_run :: "store run_env" where
  "quiet_run = \<lparr>re_Version = ''0.4.0'', re_Semver = \<lparr>Major = 0, Minor = 4, Patch = 0, Pre = [], Build = []\<rparr>,
     re_Hostname = Inr ''host'', re_configmaps = free_maps, re_json = record_json, re_timers = idle_timers,
     re_attempts = 1, re_spawn = (\<lambda>_. id), re_pause = id, re_cycles = 2\<rparr>"


end
